(* ===== verification/Prelude.thy ===== *)
theory Prelude
  imports Main "HOL-Library.Word" "HOL-Library.AList"
begin

section \<open>Shared vocabulary of the development\<close>

text \<open>
  This theory holds what every component of the operator shares:
  \<^item> the collections \<open>io_simps\<close> (equations of the error-and-state combinators) and
    \<open>go_simps\<close> (characteristic equations of the Go standard-library routines);
  \<^item> \<open>io\<close>, the shape of a Go function that may fail and acts on the outside world: it
    takes the state and returns an error or a value, and the new state;
  \<^item> the Go strings and integer-formatting routines the operator calls (package strings,
    strconv and the \<open>%d\<close> verb), with the facts the components use about them.
  Go strings are byte strings, so they are lists of characters here.
\<close>

named_theorems io_simps "equations of the error-and-state combinators"
named_theorems go_simps "characteristic equations of Go library routines"

subsection \<open>Functions that return an error or a value\<close>

type_synonym ('s, 'e, 'a) io = "'s \<Rightarrow> ('e + 'a) \<times> 's"

definition returnE :: "'a \<Rightarrow> ('s, 'e, 'a) io" where
  "returnE x s = (Inr x, s)"

definition throwE :: "'e \<Rightarrow> ('s, 'e, 'a) io" where
  "throwE e s = (Inl e, s)"

text \<open>\<open>x, err := m; if err != nil { return err }; f(x)\<close>\<close>

definition bindE :: "('s, 'e, 'a) io \<Rightarrow> ('a \<Rightarrow> ('s, 'e, 'b) io) \<Rightarrow> ('s, 'e, 'b) io" where
  "bindE m f s = (case m s of (Inl e, t) \<Rightarrow> (Inl e, t) | (Inr x, t) \<Rightarrow> f x t)"

text \<open>\<open>x, err := m\<close> followed by code that inspects \<open>err\<close> itself.\<close>

definition tryE :: "('s, 'e, 'a) io \<Rightarrow> ('e + 'a \<Rightarrow> ('s, 'f, 'b) io) \<Rightarrow> ('s, 'f, 'b) io" where
  "tryE m f s = (case m s of (r, t) \<Rightarrow> f r t)"

definition liftE :: "'e + 'a \<Rightarrow> ('s, 'e, 'a) io" where
  "liftE r s = (r, s)"

definition getsE :: "('s \<Rightarrow> 'a) \<Rightarrow> ('s, 'e, 'a) io" where
  "getsE f s = (Inr (f s), s)"

definition modifyE :: "('s \<Rightarrow> 's) \<Rightarrow> ('s, 'e, unit) io" where
  "modifyE f s = (Inr (), f s)"

text \<open>A \<open>for\<close> loop over a slice whose body may return early with an error.\<close>

fun foreachE :: "('a \<Rightarrow> ('s, 'e, unit) io) \<Rightarrow> 'a list \<Rightarrow> ('s, 'e, unit) io" where
  "foreachE f [] = returnE ()"
| "foreachE f (x # xs) = bindE (f x) (\<lambda>_. foreachE f xs)"

lemma returnE_run [io_simps, simp]: "returnE x s = (Inr x, s)"
  by (simp add: returnE_def)

lemma throwE_run [io_simps, simp]: "throwE e s = (Inl e, s)"
  by (simp add: throwE_def)

lemma liftE_run [io_simps, simp]: "liftE r s = (r, s)"
  by (simp add: liftE_def)

lemma getsE_run [io_simps, simp]: "getsE f s = (Inr (f s), s)"
  by (simp add: getsE_def)

lemma modifyE_run [io_simps, simp]: "modifyE f s = (Inr (), f s)"
  by (simp add: modifyE_def)

lemma bindE_Inr [io_simps]: "m s = (Inr x, t) \<Longrightarrow> bindE m f s = f x t"
  by (simp add: bindE_def)

lemma bindE_Inl [io_simps]: "m s = (Inl e, t) \<Longrightarrow> bindE m f s = (Inl e, t)"
  by (simp add: bindE_def)

lemma tryE_run [io_simps]: "m s = (r, t) \<Longrightarrow> tryE m f s = f r t"
  by (simp add: tryE_def)

lemma bindE_assoc: "bindE (bindE m f) g = bindE m (\<lambda>x. bindE (f x) g)"
  by (rule ext) (simp add: bindE_def split: prod.splits sum.splits)

lemma bindE_returnE: "bindE m returnE = m"
  by (rule ext) (simp add: bindE_def split: prod.splits sum.splits)

text \<open>
  A successful \<open>bindE\<close> is a successful first part and a successful second part: the rule by
  which a property of a whole handler is taken apart.
\<close>

lemma bindE_eq_Inr:
  "bindE m f s = (Inr y, u) \<longleftrightarrow> (\<exists>x t. m s = (Inr x, t) \<and> f x t = (Inr y, u))"
  by (simp add: bindE_def split: prod.splits sum.splits)

lemma tryE_eq: "tryE m f s = r \<longleftrightarrow> (\<exists>x t. m s = (x, t) \<and> f x t = r)"
  by (simp add: tryE_def split: prod.splits)

subsection \<open>Decimal formatting: the verb \<open>%d\<close> and package strconv\<close>

definition digit_char :: "nat \<Rightarrow> char" where
  "digit_char d = ''0123456789'' ! d"

fun show_nat :: "nat \<Rightarrow> string" where
  "show_nat n = (if n < 10 then [digit_char n] else show_nat (n div 10) @ [digit_char (n mod 10)])"

declare show_nat.simps [simp del]

definition show_int :: "int \<Rightarrow> string" where
  "show_int i = (if i < 0 then CHR ''-'' # show_nat (nat (- i)) else show_nat (nat i))"

fun digit_value :: "char \<Rightarrow> nat option" where
  "digit_value c =
    (if CHR ''0'' = c then Some 0 else if CHR ''1'' = c then Some 1
     else if CHR ''2'' = c then Some 2 else if CHR ''3'' = c then Some 3
     else if CHR ''4'' = c then Some 4 else if CHR ''5'' = c then Some 5
     else if CHR ''6'' = c then Some 6 else if CHR ''7'' = c then Some 7
     else if CHR ''8'' = c then Some 8 else if CHR ''9'' = c then Some 9 else None)"

declare digit_value.simps [simp del]

fun parse_digits :: "nat \<Rightarrow> string \<Rightarrow> nat option" where
  "parse_digits acc [] = Some acc"
| "parse_digits acc (c # cs) =
    (case digit_value c of None \<Rightarrow> None | Some d \<Rightarrow> parse_digits (10 * acc + d) cs)"

text \<open>An unsigned literal has at least one digit.\<close>

definition parse_nat :: "string \<Rightarrow> nat option" where
  "parse_nat cs = (if cs = [] then None else parse_digits 0 cs)"

datatype num_error = ErrSyntax | ErrRange

text \<open>
  \<open>strconv.ParseInt(s, 10, 64)\<close>, which \<open>strconv.Atoi\<close> agrees with on a 64-bit platform: an
  optional sign and decimal digits. Go returns a value beside the error, 0 for a syntax error
  and the nearest bound for a range error, and some callers go on with that value.
\<close>

definition parseInt64 :: "string \<Rightarrow> int \<times> num_error option" where
  "parseInt64 s =
    (let (neg, ds) = (case s of [] \<Rightarrow> (False, [])
           | c # cs \<Rightarrow> if c = CHR ''-'' then (True, cs)
                       else if c = CHR ''+'' then (False, cs) else (False, s))
     in case parse_nat ds of
          None \<Rightarrow> (0, Some ErrSyntax)
        | Some n \<Rightarrow>
            if neg then (if int n > 2 ^ 63 then (- (2 ^ 63), Some ErrRange) else (- int n, None))
            else (if int n \<ge> 2 ^ 63 then (2 ^ 63 - 1, Some ErrRange) else (int n, None)))"

definition show_bool :: "bool \<Rightarrow> string" where
  "show_bool b = (if b then ''true'' else ''false'')"

lemma digit_value_digit_char [go_simps]: "d < 10 \<Longrightarrow> digit_value (digit_char d) = Some d"
proof -
  assume "d < 10"
  then have "d \<in> {0, 1, 2, 3, 4, 5, 6, 7, 8, 9}" by auto
  then show ?thesis
    by (elim insertE) (simp_all add: digit_char_def digit_value.simps)
qed

lemma show_nat_not_Nil [simp]: "show_nat n \<noteq> []"
  by (subst show_nat.simps) simp

lemma show_nat_digits: "c \<in> set (show_nat n) \<Longrightarrow> digit_value c \<noteq> None"
proof (induction n arbitrary: c rule: show_nat.induct)
  case (1 n)
  have "digit_value (digit_char (n mod 10)) \<noteq> None" by (simp add: digit_value_digit_char)
  with "1" show ?case
    by (subst (asm) (2) show_nat.simps) (auto simp: digit_value_digit_char split: if_splits)
qed

lemma parse_digits_append:
  "parse_digits acc (xs @ ys) =
    (case parse_digits acc xs of None \<Rightarrow> None | Some a \<Rightarrow> parse_digits a ys)"
  by (induction acc xs rule: parse_digits.induct) (auto split: option.splits)

lemma parse_digits_show_nat: "parse_digits 0 (show_nat n) = Some n"
proof (induction n rule: show_nat.induct)
  case (1 n)
  show ?case
  proof (cases "n < 10")
    case True
    then show ?thesis by (subst show_nat.simps) (simp add: digit_value_digit_char)
  next
    case False
    with "1" show ?thesis
      by (subst show_nat.simps) (simp add: parse_digits_append digit_value_digit_char)
  qed
qed

lemma parse_nat_show_nat [go_simps]: "parse_nat (show_nat n) = Some n"
  by (simp add: parse_nat_def parse_digits_show_nat)

lemma show_nat_inject [simp]: "show_nat m = show_nat n \<longleftrightarrow> m = n"
  by (metis option.inject parse_nat_show_nat)

lemma not_digit_show_nat: "digit_value c = None \<Longrightarrow> c \<notin> set (show_nat n)"
  using show_nat_digits by blast

lemma sign_not_in_show_nat [simp]:
  "CHR ''-'' \<notin> set (show_nat n)" "CHR ''+'' \<notin> set (show_nat n)"
  "CHR ''{'' \<notin> set (show_nat n)" "CHR '':'' \<notin> set (show_nat n)"
  "CHR ''.'' \<notin> set (show_nat n)"
  by (simp_all add: not_digit_show_nat digit_value.simps)

lemma hd_show_nat_not_sign: "show_nat n = c # cs \<Longrightarrow> c \<noteq> CHR ''-'' \<and> c \<noteq> CHR ''+''"
  by (metis list.set_intros(1) sign_not_in_show_nat(1,2))

lemma parseInt64_show_nat [go_simps]:
  "int n < 2 ^ 63 \<Longrightarrow> parseInt64 (show_nat n) = (int n, None)"
proof -
  assume n: "int n < 2 ^ 63"
  obtain c cs where cs: "show_nat n = c # cs" by (cases "show_nat n") auto
  then show ?thesis
    using n hd_show_nat_not_sign [OF cs] parse_nat_show_nat [of n]
    by (simp add: parseInt64_def)
qed

subsection \<open>Package strings\<close>

fun index_byte :: "char \<Rightarrow> string \<Rightarrow> int" where
  "index_byte c [] = - 1"
| "index_byte c (x # xs) =
    (if x = c then 0 else let i = index_byte c xs in if i < 0 then - 1 else i + 1)"

fun last_index :: "char \<Rightarrow> string \<Rightarrow> int" where
  "last_index c [] = - 1"
| "last_index c (x # xs) =
    (let i = last_index c xs in if i \<ge> 0 then i + 1 else if x = c then 0 else - 1)"

text \<open>\<open>s[strings.LastIndex(s, c)+1:]\<close>\<close>

definition after_last :: "char \<Rightarrow> string \<Rightarrow> string" where
  "after_last c s = drop (nat (last_index c s + 1)) s"

text \<open>\<open>strings.SplitN(s, c, 2)\<close> for a separator of one byte.\<close>

fun splitN2 :: "char \<Rightarrow> string \<Rightarrow> string list" where
  "splitN2 c [] = [[]]"
| "splitN2 c (x # xs) =
    (if x = c then [[], xs]
     else case splitN2 c xs of [] \<Rightarrow> [[x]] | y # ys \<Rightarrow> (x # y) # ys)"

text \<open>\<open>strings.Split(s, c)\<close> for a separator of one byte.\<close>

fun split_all :: "char \<Rightarrow> string \<Rightarrow> string list" where
  "split_all c [] = [[]]"
| "split_all c (x # xs) =
    (if x = c then [] # split_all c xs
     else case split_all c xs of [] \<Rightarrow> [[x]] | y # ys \<Rightarrow> (x # y) # ys)"

fun has_prefix :: "string \<Rightarrow> string \<Rightarrow> bool" where
  "has_prefix [] s = True"
| "has_prefix (p # ps) [] = False"
| "has_prefix (p # ps) (c # cs) = (p = c \<and> has_prefix ps cs)"

text \<open>\<open>strings.Contains(s, p)\<close>\<close>

fun contains_str :: "string \<Rightarrow> string \<Rightarrow> bool" where
  "contains_str p [] = (p = [])"
| "contains_str p (c # cs) = (has_prefix p (c # cs) \<or> contains_str p cs)"

lemma last_index_ge: "last_index c s \<ge> - 1"
  by (induction s) (auto simp: Let_def)

lemma last_index_notin: "c \<notin> set s \<Longrightarrow> last_index c s = - 1"
  by (induction s) (auto simp: Let_def)

lemma last_index_append_sep:
  "c \<notin> set ys \<Longrightarrow> last_index c (xs @ c # ys) = int (length xs)"
  by (induction xs) (auto simp: Let_def last_index_notin)

lemma after_last_append [go_simps]:
  "c \<notin> set ys \<Longrightarrow> after_last c (xs @ c # ys) = ys"
  by (simp add: after_last_def last_index_append_sep nat_add_distrib)

lemma splitN2_notin [go_simps]: "c \<notin> set s \<Longrightarrow> splitN2 c s = [s]"
  by (induction s) auto

lemma splitN2_append [go_simps]: "c \<notin> set xs \<Longrightarrow> splitN2 c (xs @ c # ys) = [xs, ys]"
  by (induction xs) auto

lemma splitN2_cases:
  "splitN2 c s = [s] \<and> c \<notin> set s \<or>
   (\<exists>xs ys. s = xs @ c # ys \<and> c \<notin> set xs \<and> splitN2 c s = [xs, ys])"
proof (cases "c \<in> set s")
  case True
  then obtain xs ys where "s = xs @ c # ys" "c \<notin> set xs" by (blast dest: split_list_first)
  then show ?thesis by (blast intro: splitN2_append)
next
  case False
  then show ?thesis by (simp add: splitN2_notin)
qed

lemma index_byte_ge: "index_byte c s \<ge> - 1"
  by (induction s) (auto simp: Let_def)

lemma index_byte_notin [go_simps]: "c \<notin> set s \<Longrightarrow> index_byte c s = - 1"
  by (induction s) (auto simp: Let_def)

lemma index_byte_append [go_simps]:
  "c \<notin> set xs \<Longrightarrow> index_byte c (xs @ c # ys) = int (length xs)"
  by (induction xs) (auto simp: Let_def)

end
