(* ===== verification/Kube_Types.thy ===== *)
theory Kube_Types
  imports Prelude
begin

section \<open>The Undermoon resource and the Kubernetes objects\<close>

text \<open>
  The data the operator reads and writes: the custom resource of
  api/v1alpha1/undermoon_types.go, and the parts of the Kubernetes API types (k8s.io/api)
  that the code fills in or inspects, as records with the fields the code names.
  Parts that the code only copies from the custom resource into a pod template (volumes,
  tolerations, ...) are \<open>opaque\<close> values, identified by a serialised form.
  A Go map with string keys is an association list with distinct keys (\<open>wf_map\<close>), so that
  its length is Go's \<open>len\<close>. \<open>uint32\<close> and \<open>int32\<close> fields are 32-bit words, read by
  \<open>unat\<close> and \<open>sint\<close>.
\<close>

datatype opaque = Opaque string

type_synonym u32 = "32 word"
type_synonym i32 = "32 word"
type_synonym 'v go_map = "(string \<times> 'v) list"

definition wf_map :: "'v go_map \<Rightarrow> bool" where
  "wf_map m \<longleftrightarrow> distinct (map fst m)"

type_synonym labels = "string go_map"

subsection \<open>Kubernetes objects\<close>

record objectMeta =
  om_Name :: string
  om_Namespace :: string
  om_Labels :: labels
  om_ResourceVersion :: string
  om_OwnerReferences :: "opaque list"

datatype envVarSource =
    FieldRef string string              \<comment> \<open>API version and field path\<close>
  | SecretKeyRef string string          \<comment> \<open>name of the secret and key in it\<close>
  | OtherSource opaque

record envVar =
  ev_Name :: string
  ev_Value :: string
  ev_ValueFrom :: "envVarSource option"

type_synonym quantity = string
type_synonym resourceList = "quantity go_map"

record resourceRequirements =
  rr_Limits :: resourceList
  rr_Requests :: resourceList

record probe =
  pr_Command :: "string list"
  pr_TimeoutSeconds :: nat
  pr_PeriodSeconds :: nat
  pr_SuccessThreshold :: nat
  pr_FailureThreshold :: nat

record container =
  c_Name :: string
  c_Image :: string
  c_ImagePullPolicy :: string
  c_Command :: "string list"
  c_Args :: "string list"
  c_Env :: "envVar list"
  c_Resources :: resourceRequirements
  c_PreStop :: "string list option"     \<comment> \<open>the command of Lifecycle.PreStop.Exec\<close>
  c_ReadinessProbe :: "probe option"
  c_WorkingDir :: string
  c_VolumeMounts :: "opaque list"
  c_VolumeDevices :: "opaque list"

record weightedTerm =
  wt_Weight :: int
  wt_MatchLabels :: labels
  wt_Namespaces :: "string list"
  wt_TopologyKey :: string

record podAntiAffinity =
  pa_Required :: "opaque list"
  pa_Preferred :: "weightedTerm list"

record affinity =
  af_NodeAffinity :: "opaque option"
  af_PodAffinity :: "opaque option"
  af_PodAntiAffinity :: "podAntiAffinity option"

record podSpec =
  ps_TerminationGracePeriodSeconds :: "int option"
  ps_Containers :: "container list"
  ps_Affinity :: "affinity option"
  ps_NodeSelector :: labels
  ps_ImagePullSecrets :: "opaque list"
  ps_SchedulerName :: string
  ps_Tolerations :: "opaque list"
  ps_Volumes :: "opaque list"

record statefulSetSpec =
  ss_Selector :: labels
  ss_ServiceName :: string
  ss_Replicas :: i32
  ss_TemplateLabels :: labels
  ss_Template :: podSpec
  ss_PodManagementPolicy :: string
  ss_VolumeClaimTemplates :: "opaque list"

record statefulSetStatus =
  st_Replicas :: i32
  st_ReadyReplicas :: i32
  st_CurrentReplicas :: i32

record statefulSet =
  ss_Meta :: objectMeta
  ss_Spec :: statefulSetSpec
  ss_Status :: statefulSetStatus

record servicePort =
  sp_Name :: string
  sp_Port :: i32
  sp_Protocol :: string

record service =
  sv_Meta :: objectMeta
  sv_Ports :: "servicePort list"
  sv_ClusterIP :: string
  sv_Selector :: labels
  sv_PublishNotReadyAddresses :: bool

record configMap =
  cm_Meta :: objectMeta
  cm_Data :: "string go_map"

record secret =
  sc_Meta :: objectMeta
  sc_Data :: "string go_map"

record endpointAddress =
  ea_Hostname :: string
  ea_IP :: string

text \<open>An \<open>Endpoints\<close> object is a list of subsets, each with its ready addresses.\<close>

type_synonym endpoints = "endpointAddress list list"

subsection \<open>The custom resource\<close>

record undermoonSpec =
  um_ClusterName :: string
  um_ChunkNumber :: u32
  um_MaxMemory :: u32
  um_Port :: u32
  um_ActiveRedirection :: bool
  um_ProxyThreads :: u32
  um_MigrationScanInterval :: u32
  um_MigrationScanCount :: u32
  um_MigrationLimit :: u32
  um_DisableFailover :: bool
  um_UndermoonImage :: string
  um_UndermoonImagePullPolicy :: string
  um_RedisImage :: string
  um_BrokerEnvVar :: "envVar list"
  um_CoordinatorEnvVar :: "envVar list"
  um_ProxyEnvVar :: "envVar list"
  um_RedisEnvVar :: "envVar list"
  um_BrokerResources :: resourceRequirements
  um_CoordinatorResources :: resourceRequirements
  um_ProxyResources :: resourceRequirements
  um_RedisResources :: resourceRequirements
  um_Affinity :: "affinity option"
  um_NodeSelector :: labels
  um_ImagePullSecrets :: "opaque list"
  um_SchedulerName :: string
  um_Tolerations :: "opaque list"
  um_StorageVolumes :: "opaque list"
  um_RedisVolumeMounts :: "opaque list"
  um_RedisVolumeDevices :: "opaque list"
  um_VolumeClaimTemplates :: "opaque list"

text \<open>\<open>metav1.Time\<close> is an absolute time, here in nanoseconds since the epoch.\<close>

record undermoonStatus =
  us_MasterBrokerAddress :: string
  us_ScaleState :: string
  us_ScaleDownWaitTimestamp :: int

record undermoon =
  um_Meta :: objectMeta
  um_Spec :: undermoonSpec
  um_Status :: undermoonStatus

abbreviation um_Name :: "undermoon \<Rightarrow> string" where
  "um_Name cr \<equiv> om_Name (um_Meta cr)"

abbreviation um_Namespace :: "undermoon \<Rightarrow> string" where
  "um_Namespace cr \<equiv> om_Namespace (um_Meta cr)"

text \<open>The zero values Go gives to the fields an object literal leaves out.\<close>

definition empty_status :: statefulSetStatus where
  "empty_status = \<lparr>st_Replicas = 0, st_ReadyReplicas = 0, st_CurrentReplicas = 0\<rparr>"

definition new_meta :: "string \<Rightarrow> string \<Rightarrow> labels \<Rightarrow> objectMeta" where
  "new_meta name ns ls = \<lparr>om_Name = name, om_Namespace = ns, om_Labels = ls,
     om_ResourceVersion = [], om_OwnerReferences = []\<rparr>"

definition value_env :: "string \<Rightarrow> string \<Rightarrow> envVar" where
  "value_env n v = \<lparr>ev_Name = n, ev_Value = v, ev_ValueFrom = None\<rparr>"

lemma new_meta_simps [simp]:
  "om_Name (new_meta name ns ls) = name"
  "om_Namespace (new_meta name ns ls) = ns"
  "om_Labels (new_meta name ns ls) = ls"
  "om_ResourceVersion (new_meta name ns ls) = []"
  by (simp_all add: new_meta_def)

lemma value_env_simps [simp]:
  "ev_Name (value_env n v) = n" "ev_Value (value_env n v) = v"
  "ev_ValueFrom (value_env n v) = None"
  by (simp_all add: value_env_def)

end
