(* ===== verification/Checker_Client.thy ===== *)
theory Checker_Client
  imports Kube_Types
begin

section \<open>The checker's cluster client (checker/pkg/client.go)\<close>

text \<open>
  A client that follows the redirections of a cluster. The Redis nodes and the library that
  talks to them are outside the repository: \<open>net\<close> answers a command sent to an address, given
  everything sent before. The state holds that trace and the pool of clients, which other
  states of the checker extend. An error comes with an address, as a value does.
\<close>

datatype redis_error = RedisNil | RedisErr string

text \<open>The values the library returns behind \<open>interface{}\<close>.\<close>

datatype reply = RNil | RString string | RInt int | RList "reply list"

datatype command =
    CGet string
  | CSet string string
  | CDel "string list"
  | CMGet "string list"
  | CMSet "string list"
  | CEval string "string list" "string list"
  | CUmctlInfo

datatype conn = Conn string

datatype sent = Sent string command "redis_error + reply"

type_synonym net = "sent list \<Rightarrow> string \<Rightarrow> command \<Rightarrow> redis_error + reply"

record client_state =
  cl_trace :: "sent list"
  cl_pool :: "string \<rightharpoonup> conn"

datatype client_error =
    FromRedis redis_error
  | InvalidMoved string
  | TooManyRedirections "string list" "reply list"
  | ClientPanic

subsection \<open>Redirections\<close>

definition redis_text :: "redis_error \<Rightarrow> string" where
  "redis_text e = (case e of RedisNil \<Rightarrow> ''redis: nil'' | RedisErr m \<Rightarrow> m)"

definition parseMoved :: "redis_error \<Rightarrow> client_error + string" where
  "parseMoved err =
    (let e = redis_text err in
     if \<not> contains_str ''MOVED'' e then Inl (FromRedis err)
     else let segs = split_all (CHR '' '') e in
       if length segs \<noteq> 3 then Inl (InvalidMoved e) else Inr (segs ! 2))"

definition getOrCreateClient :: "string \<Rightarrow> ('z client_state_scheme, 'e, conn) io" where
  "getOrCreateClient address w =
    (case cl_pool w address of
       Some c \<Rightarrow> (Inr c, w)
     | None \<Rightarrow> (Inr (Conn address), w\<lparr>cl_pool := (cl_pool w)(address \<mapsto> Conn address)\<rparr>))"

text \<open>One command sent with a client of the library.\<close>

fun process :: "net \<Rightarrow> command \<Rightarrow> conn \<Rightarrow> ('z client_state_scheme, redis_error, reply) io" where
  "process net cmd (Conn a) w =
    (net (cl_trace w) a cmd, w\<lparr>cl_trace := cl_trace w @ [Sent a cmd (net (cl_trace w) a cmd)]\<rparr>)"

definition sendUmctlInfo :: "net \<Rightarrow> conn \<Rightarrow> ('z client_state_scheme, redis_error, reply) io" where
  "sendUmctlInfo net c = process net CUmctlInfo c"

definition maxRetryTimes :: nat where
  "maxRetryTimes = 5"

text \<open>
  The loop of \<open>Exec\<close>, on the number of rounds left (\<open>maxRetryTimes - i\<close>). \<open>parseMoved\<close> assigns to
  the variable \<open>address\<close> also when it fails, so an error that is no redirection is returned with
  the empty address.
\<close>

fun execLoop :: "net \<Rightarrow> bool \<Rightarrow> (conn \<Rightarrow> ('z client_state_scheme, redis_error, reply) io) \<Rightarrow>
    nat \<Rightarrow> string list \<Rightarrow> reply list \<Rightarrow> string \<Rightarrow> conn \<Rightarrow>
    ('z client_state_scheme, client_error \<times> string, reply \<times> string) io" where
  "execLoop net debug sendFunc 0 tried infos address c =
    throwE (TooManyRedirections tried infos, address)"
| "execLoop net debug sendFunc (Suc left) tried infos address c =
    tryE (sendFunc c) (\<lambda>r. case r of
        Inr x \<Rightarrow> returnE (x, address)
      | Inl err \<Rightarrow>
          (case parseMoved err of
             Inl e \<Rightarrow> throwE (e, [])
           | Inr address' \<Rightarrow>
               bindE (if debug \<and> Suc left \<noteq> maxRetryTimes
                      then tryE (sendUmctlInfo net c) (\<lambda>q. case q of
                          Inl e \<Rightarrow> throwE (FromRedis e, address')
                        | Inr info \<Rightarrow> returnE (infos @ [info]))
                      else returnE infos) (\<lambda>infos'.
               if left = 0 then throwE (TooManyRedirections tried infos', address')
               else bindE (getOrCreateClient address') (\<lambda>c'.
                 execLoop net debug sendFunc left (tried @ [address']) infos' address' c'))))"

definition Exec :: "net \<Rightarrow> bool \<Rightarrow> string \<Rightarrow> (conn \<Rightarrow> ('z client_state_scheme, redis_error, reply) io) \<Rightarrow>
    ('z client_state_scheme, client_error \<times> string, reply \<times> string) io" where
  "Exec net debug startupNode sendFunc =
    bindE (getOrCreateClient startupNode) (\<lambda>c.
      execLoop net debug sendFunc maxRetryTimes [startupNode] [] startupNode c)"

subsection \<open>Commands\<close>

definition luaMSetScript :: string where
  \<open>luaMSetScript = concat
    [''for i, k in pairs(KEYS) do'', [CHR 0x0A], ''  redis.call('SET', k, ARGV[i])'', [CHR 0x0A],
     ''end'', [CHR 0x0A], ''return "OK"'']\<close>

definition luaMGetScript :: string where
  \<open>luaMGetScript = concat
    [''local values = {}'', [CHR 0x0A], ''for i, k in pairs(KEYS) do'', [CHR 0x0A],
     ''  values[i] = redis.call('GET', k)'', [CHR 0x0A], ''end'', [CHR 0x0A], ''return values'']\<close>

text \<open>\<open>v.(string)\<close> and \<open>vs.([]interface{})\<close> panic on values of another type.\<close>

fun string_values :: "reply list \<Rightarrow> string option list option" where
  "string_values [] = Some []"
| "string_values (RNil # vs) = map_option ((#) None) (string_values vs)"
| "string_values (RString s # vs) = map_option ((#) (Some s)) (string_values vs)"
| "string_values _ = None"

definition client_Get ::
  "net \<Rightarrow> bool \<Rightarrow> string \<Rightarrow> string \<Rightarrow> ('z client_state_scheme, client_error \<times> string, string option \<times> string) io" where
  "client_Get net debug startupNode key =
    tryE (Exec net debug startupNode (process net (CGet key))) (\<lambda>r. case r of
        Inl (e, address) \<Rightarrow> if e = FromRedis RedisNil then returnE (None, address) else throwE (e, address)
      | Inr (v, address) \<Rightarrow> (case v of RString s \<Rightarrow> returnE (Some s, address) | _ \<Rightarrow> throwE (ClientPanic, address)))"

definition client_Set ::
  "net \<Rightarrow> bool \<Rightarrow> string \<Rightarrow> string \<Rightarrow> string \<Rightarrow> ('z client_state_scheme, client_error \<times> string, string) io" where
  "client_Set net debug startupNode key v =
    bindE (Exec net debug startupNode (process net (CSet key v))) (\<lambda>(_, address). returnE address)"

definition client_Del ::
  "net \<Rightarrow> bool \<Rightarrow> string \<Rightarrow> string list \<Rightarrow> ('z client_state_scheme, client_error \<times> string, string) io" where
  "client_Del net debug startupNode keys =
    bindE (Exec net debug startupNode (process net (CDel keys))) (\<lambda>(_, address). returnE address)"

definition list_result :: "reply \<times> string \<Rightarrow>
    ('z client_state_scheme, client_error \<times> string, string option list \<times> string) io" where
  "list_result = (\<lambda>(v, address).
    case v of
      RList vals \<Rightarrow>
        (case string_values vals of
           None \<Rightarrow> throwE (ClientPanic, address)
         | Some values \<Rightarrow> returnE (values, address))
    | _ \<Rightarrow> throwE (ClientPanic, address))"

definition client_MGet ::
  "net \<Rightarrow> bool \<Rightarrow> string \<Rightarrow> string list \<Rightarrow>
    ('z client_state_scheme, client_error \<times> string, string option list \<times> string) io" where
  "client_MGet net debug startupNode keys =
    bindE (Exec net debug startupNode (process net (CMGet keys))) list_result"

definition client_MSet ::
  "net \<Rightarrow> bool \<Rightarrow> string \<Rightarrow> string list \<Rightarrow> ('z client_state_scheme, client_error \<times> string, string) io" where
  "client_MSet net debug startupNode keyValues =
    bindE (Exec net debug startupNode (process net (CMSet keyValues))) (\<lambda>(_, address). returnE address)"

definition client_LuaMGet ::
  "net \<Rightarrow> bool \<Rightarrow> string \<Rightarrow> string list \<Rightarrow>
    ('z client_state_scheme, client_error \<times> string, string option list \<times> string) io" where
  "client_LuaMGet net debug startupNode keys =
    bindE (Exec net debug startupNode (process net (CEval luaMGetScript keys []))) list_result"

definition client_luaMSet ::
  "net \<Rightarrow> bool \<Rightarrow> string \<Rightarrow> string list \<Rightarrow> string list \<Rightarrow>
    ('z client_state_scheme, client_error \<times> string, string) io" where
  "client_luaMSet net debug startupNode keys values =
    bindE (Exec net debug startupNode (process net (CEval luaMSetScript keys values)))
      (\<lambda>(_, address). returnE address)"

subsection \<open>Following redirections\<close>

text \<open>
  What \<open>Exec\<close> promises without the debug option, in terms of the commands it sends: they form a
  chain of redirections, and the result is what the last of them was answered.
\<close>

fun sent_address :: "sent \<Rightarrow> string" where
  "sent_address (Sent a cmd r) = a"

fun redirect_chain :: "command \<Rightarrow> string \<Rightarrow> sent list \<Rightarrow> bool" where
  "redirect_chain cmd a [] = False"
| "redirect_chain cmd a (Sent b c r # rest) =
    (b = a \<and> c = cmd \<and>
     (if rest = [] then True
      else case r of
          Inr _ \<Rightarrow> False
        | Inl e \<Rightarrow> (case parseMoved e of Inl _ \<Rightarrow> False | Inr a' \<Rightarrow> redirect_chain cmd a' rest)))"

text \<open>The answers are those of \<open>net\<close>, each to the trace sent before.\<close>

fun answered :: "net \<Rightarrow> sent list \<Rightarrow> sent list \<Rightarrow> bool" where
  "answered net tr [] = True"
| "answered net tr (Sent a c r # rest) = (r = net tr a c \<and> answered net (tr @ [Sent a c r]) rest)"

fun chain_result :: "string list \<Rightarrow> sent list \<Rightarrow> (client_error \<times> string) + (reply \<times> string)" where
  "chain_result tried [] = Inl (TooManyRedirections tried [], [])"
| "chain_result tried (Sent a c r # rest) =
    (if rest \<noteq> [] then chain_result (tried @ [sent_address (hd rest)]) rest
     else case r of
         Inr x \<Rightarrow> Inr (x, a)
       | Inl err \<Rightarrow>
           (case parseMoved err of
              Inl e \<Rightarrow> Inl (e, [])
            | Inr a' \<Rightarrow> Inl (TooManyRedirections tried [], a')))"

definition pool_ok :: "'z client_state_scheme \<Rightarrow> bool" where
  "pool_ok w \<longleftrightarrow> (\<forall>a c. cl_pool w a = Some c \<longrightarrow> c = Conn a)"

lemma getOrCreateClient_run:
  assumes "pool_ok w"
  shows "\<exists>p. getOrCreateClient a w = (Inr (Conn a), w\<lparr>cl_pool := p\<rparr>) \<and> pool_ok (w\<lparr>cl_pool := p\<rparr>)"
proof (cases "cl_pool w a")
  case None
  then show ?thesis using assms
    by (intro exI [of _ "(cl_pool w)(a \<mapsto> Conn a)"]) (simp add: getOrCreateClient_def pool_ok_def)
next
  case (Some c)
  then have "c = Conn a" using assms by (simp add: pool_ok_def)
  with Some assms show ?thesis
    by (intro exI [of _ "cl_pool w"]) (simp add: getOrCreateClient_def)
qed

declare execLoop.simps [simp del]

lemma execLoop_round:
  "execLoop net False (process net cmd) (Suc left) tried [] a (Conn a) w =
    (let r = net (cl_trace w) a cmd; t = w\<lparr>cl_trace := cl_trace w @ [Sent a cmd r]\<rparr> in
     case r of
       Inr x \<Rightarrow> (Inr (x, a), t)
     | Inl err \<Rightarrow>
         (case parseMoved err of
            Inl e \<Rightarrow> (Inl (e, []), t)
          | Inr a' \<Rightarrow>
              if left = 0 then (Inl (TooManyRedirections tried [], a'), t)
              else bindE (getOrCreateClient a') (\<lambda>c'.
                execLoop net False (process net cmd) left (tried @ [a']) [] a' c') t))"
  by (simp add: execLoop.simps tryE_def bindE_def split: sum.splits)

lemma execLoop_chain:
  assumes "pool_ok w"
    and "execLoop net False (process net cmd) (Suc left) tried [] a (Conn a) w = (res, w')"
  shows "\<exists>hops p. w' = w\<lparr>cl_trace := cl_trace w @ hops, cl_pool := p\<rparr> \<and> pool_ok w' \<and>
    redirect_chain cmd a hops \<and> answered net (cl_trace w) hops \<and> length hops \<le> Suc left \<and>
    res = chain_result tried hops \<and>
    (\<forall>b c e. last hops = Sent b c (Inl e) \<longrightarrow> (\<exists>a'. parseMoved e = Inr a') \<longrightarrow> length hops = Suc left)"
  using assms
proof (induction left arbitrary: tried a w)
  case 0
  let ?r = "net (cl_trace w) a cmd"
  have "w' = w\<lparr>cl_trace := cl_trace w @ [Sent a cmd ?r]\<rparr> \<and> res = chain_result tried [Sent a cmd ?r]"
    using "0.prems"(2) by (auto simp: execLoop_round Let_def split: sum.splits)
  then show ?case
    using "0.prems"(1)
    by (intro exI [of _ "[Sent a cmd ?r]"] exI [of _ "cl_pool w"]) (simp add: pool_ok_def)
next
  case (Suc left)
  let ?r = "net (cl_trace w) a cmd"
  let ?w = "w\<lparr>cl_trace := cl_trace w @ [Sent a cmd ?r]\<rparr>"
  have pool: "pool_ok ?w" using Suc.prems(1) by (simp add: pool_ok_def)
  show ?case
  proof (cases "\<exists>e a'. ?r = Inl e \<and> parseMoved e = Inr a'")
    case False
    then have "w' = ?w \<and> res = chain_result tried [Sent a cmd ?r]"
      using Suc.prems(2) by (auto simp: execLoop_round Let_def split: sum.splits)
    then show ?thesis
      using pool False by (intro exI [of _ "[Sent a cmd ?r]"] exI [of _ "cl_pool w"]) simp
  next
    case True
    then obtain e a' where r: "?r = Inl e" "parseMoved e = Inr a'" by blast
    obtain p where p: "getOrCreateClient a' ?w = (Inr (Conn a') :: client_error \<times> string + conn, ?w\<lparr>cl_pool := p\<rparr>)"
      "pool_ok (?w\<lparr>cl_pool := p\<rparr>)"
      using getOrCreateClient_run [OF pool] by blast
    have "execLoop net False (process net cmd) (Suc left) (tried @ [a']) [] a' (Conn a')
        (?w\<lparr>cl_pool := p\<rparr>) = (res, w')"
      using Suc.prems(2) r p(1) by (simp add: execLoop_round [of net cmd "Suc left"] bindE_def)
    from Suc.IH [OF p(2) this] obtain hops q where h:
      "w' = ?w\<lparr>cl_pool := p\<rparr>\<lparr>cl_trace := cl_trace (?w\<lparr>cl_pool := p\<rparr>) @ hops, cl_pool := q\<rparr>" "pool_ok w'"
      "redirect_chain cmd a' hops" "answered net (cl_trace ?w) hops" "length hops \<le> Suc left"
      "res = chain_result (tried @ [a']) hops"
      "\<forall>b c e. last hops = Sent b c (Inl e) \<longrightarrow> (\<exists>a'. parseMoved e = Inr a') \<longrightarrow> length hops = Suc left"
      by auto
    have ne: "hops \<noteq> []" using h(3) by auto
    have hd: "sent_address (hd hops) = a'"
      using h(3) by (cases hops; cases "hd hops") auto
    show ?thesis
      using h ne hd r by (intro exI [of _ "Sent a cmd ?r # hops"] exI [of _ q]) simp
  qed
qed

lemma chain_result_address:
  "chain_result tried hops = Inl (FromRedis e, a) \<Longrightarrow> a = []"
  by (induction tried hops rule: chain_result.induct)
    (auto simp: parseMoved_def Let_def split: sum.splits if_splits)

lemma parseMoved_error: "parseMoved err = Inl e \<Longrightarrow> e \<noteq> TooManyRedirections tried infos"
  by (auto simp: parseMoved_def Let_def split: if_splits)

lemma chain_result_gives_up:
  assumes "chain_result tried hops = Inl (TooManyRedirections ts infos, a)" and "hops \<noteq> []"
  shows "\<exists>b c e a'. last hops = Sent b c (Inl e) \<and> parseMoved e = Inr a'"
  using assms
  by (induction tried hops rule: chain_result.induct)
    (auto split: sum.splits if_splits dest: parseMoved_error)

lemma Exec_chain:
  assumes "pool_ok w" and "Exec net False startupNode (process net cmd) w = (res, w')"
  shows "\<exists>hops p. w' = w\<lparr>cl_trace := cl_trace w @ hops, cl_pool := p\<rparr> \<and> pool_ok w' \<and>
    redirect_chain cmd startupNode hops \<and> answered net (cl_trace w) hops \<and> length hops \<le> maxRetryTimes \<and>
    res = chain_result [startupNode] hops \<and>
    (\<forall>tried infos a. res = Inl (TooManyRedirections tried infos, a) \<longrightarrow> length hops = maxRetryTimes)"
proof -
  obtain q where q: "getOrCreateClient startupNode w =
      (Inr (Conn startupNode) :: client_error \<times> string + conn, w\<lparr>cl_pool := q\<rparr>)" "pool_ok (w\<lparr>cl_pool := q\<rparr>)"
    using getOrCreateClient_run [OF assms(1)] by blast
  have "execLoop net False (process net cmd) (Suc 4) [startupNode] [] startupNode (Conn startupNode)
      (w\<lparr>cl_pool := q\<rparr>) = (res, w')"
    using assms(2) q(1) by (simp add: Exec_def bindE_def maxRetryTimes_def)
  from execLoop_chain [OF q(2) this] obtain hops p where h:
    "w' = w\<lparr>cl_pool := q\<rparr>\<lparr>cl_trace := cl_trace (w\<lparr>cl_pool := q\<rparr>) @ hops, cl_pool := p\<rparr>" "pool_ok w'"
    "redirect_chain cmd startupNode hops" "answered net (cl_trace w) hops" "length hops \<le> Suc 4"
    "res = chain_result [startupNode] hops"
    "\<forall>b c e. last hops = Sent b c (Inl e) \<longrightarrow> (\<exists>a'. parseMoved e = Inr a') \<longrightarrow> length hops = Suc 4"
    by auto
  have "hops \<noteq> []" using h(3) by auto
  then have "\<forall>tried infos a. res = Inl (TooManyRedirections tried infos, a) \<longrightarrow> length hops = Suc 4"
    using h(6,7) by (metis chain_result_gives_up)
  then show ?thesis
    using h by (intro exI [of _ hops] exI [of _ p]) (simp add: maxRetryTimes_def)
qed

subsection \<open>Properties\<close>

text \<open>
  C32: A command goes to the startup node first and then to the node each \<open>MOVED\<close> answer names; the
  first other answer is the result, with the node that gave it for a value. The client gives up
  only after five redirections, and then reports the nodes it tried.
\<close>

theorem exec_follows_redirections:
  assumes "pool_ok w" and "Exec net False startupNode (process net cmd) w = (res, w')"
  shows "\<exists>hops. cl_trace w' = cl_trace w @ hops \<and> redirect_chain cmd startupNode hops \<and>
    answered net (cl_trace w) hops \<and> length hops \<le> maxRetryTimes \<and> res = chain_result [startupNode] hops \<and>
    (\<forall>tried infos a. res = Inl (TooManyRedirections tried infos, a) \<longrightarrow> length hops = 5)"
  using Exec_chain [OF assms] by (auto simp: maxRetryTimes_def)

text \<open>Two nodes: the first one has moved every slot to the second one.\<close>

definition moved_net :: net where
  "moved_net tr a cmd = (if a = ''a:1'' then Inl (RedisErr ''MOVED 7 b:1'')
     else case cmd of CGet k \<Rightarrow> Inr (RString ''v'') | _ \<Rightarrow> Inr RNil)"

definition fresh_client :: client_state where
  "fresh_client = \<lparr>cl_trace = [], cl_pool = Map.empty\<rparr>"

lemma fresh_client_pool: "pool_ok fresh_client"
  by (simp add: pool_ok_def fresh_client_def)

theorem exec_follows_redirections_witness:
  "\<exists>w' hops. Exec moved_net False ''a:1'' (process moved_net (CGet ''k'')) fresh_client =
      (Inr (RString ''v'', ''b:1''), w') \<and> cl_trace w' = hops \<and> redirect_chain (CGet ''k'') ''a:1'' hops"
proof -
  let ?m = "Exec moved_net False ''a:1'' (process moved_net (CGet ''k'')) fresh_client"
  have "fst ?m = Inr (RString ''v'', ''b:1'')"
    by (simp add: Exec_def bindE_def getOrCreateClient_def fresh_client_def maxRetryTimes_def eval_nat_numeral
        execLoop.simps tryE_def moved_net_def parseMoved_def redis_text_def)
  moreover have "\<exists>hops. cl_trace (snd ?m) = cl_trace fresh_client @ hops \<and> redirect_chain (CGet ''k'') ''a:1'' hops"
    using exec_follows_redirections [OF fresh_client_pool, of moved_net "''a:1''" "CGet ''k''" "fst ?m" "snd ?m"]
    by auto
  ultimately show ?thesis
    by (intro exI [of _ "snd ?m"]) (auto simp: fresh_client_def prod_eq_iff)
qed

text \<open>
  An answer that is an error but no redirection loses the node it came from: the address
  returned beside the error, and beside the missing value of a key, is empty.
\<close>

theorem failed_command_forgets_node:
  assumes "pool_ok w" and "client_Get net False startupNode key w = (r, w')"
  shows "(r = Inl (FromRedis e, a) \<longrightarrow> a = []) \<and> (r = Inr (None, a) \<longrightarrow> a = [])"
proof -
  obtain res v where ex: "Exec net False startupNode (process net (CGet key)) w = (res, v)" by fastforce
  obtain hops where res: "res = chain_result [startupNode] hops" using Exec_chain [OF assms(1) ex] by blast
  show ?thesis
    using assms(2) res chain_result_address [of "[startupNode]" hops]
    by (auto simp: client_Get_def tryE_def ex split: sum.splits if_splits reply.splits)
qed

theorem failed_command_forgets_node_witness:
  "\<exists>w'. client_Get (\<lambda>_ _ _. Inl RedisNil) False ''a:1'' ''k'' fresh_client = (Inr (None, []), w')"
proof -
  let ?m = "client_Get (\<lambda>_ _ _. Inl RedisNil) False ''a:1'' ''k'' fresh_client"
  obtain a where "fst ?m = Inr (None, a)"
    by (simp add: client_Get_def Exec_def bindE_def getOrCreateClient_def fresh_client_def maxRetryTimes_def
        eval_nat_numeral execLoop.simps tryE_def parseMoved_def redis_text_def)
  with failed_command_forgets_node [OF fresh_client_pool, of "\<lambda>_ _ _. Inl RedisNil" "''a:1''" "''k''" "fst ?m" "snd ?m"]
  show ?thesis by (metis prod.collapse)
qed

end
