(* ===== verification/Slot.thy ===== *)
theory Slot
  imports Prelude
begin

section \<open>Hash slots and hash tags (checker/pkg/slot.go)\<close>

text \<open>
  The chaos checker computes the Redis Cluster slot of a key itself, with a table-driven
  CRC16. The table and the loop are the code's; \<open>crc16_ref\<close> is the bit-by-bit
  definition of the same checksum (polynomial \<open>0x1021\<close>, initial value 0), and the two are
  shown to agree. The hash-tag rule then says which part of a key decides its slot.
\<close>

unbundle bit_operations_syntax

definition slotNumber :: nat where
  "slotNumber = 16384"

definition crc16tab :: "16 word list" where
  "crc16tab =
  [0x0000, 0x1021, 0x2042, 0x3063, 0x4084, 0x50a5, 0x60c6, 0x70e7,
   0x8108, 0x9129, 0xa14a, 0xb16b, 0xc18c, 0xd1ad, 0xe1ce, 0xf1ef,
   0x1231, 0x0210, 0x3273, 0x2252, 0x52b5, 0x4294, 0x72f7, 0x62d6,
   0x9339, 0x8318, 0xb37b, 0xa35a, 0xd3bd, 0xc39c, 0xf3ff, 0xe3de,
   0x2462, 0x3443, 0x0420, 0x1401, 0x64e6, 0x74c7, 0x44a4, 0x5485,
   0xa56a, 0xb54b, 0x8528, 0x9509, 0xe5ee, 0xf5cf, 0xc5ac, 0xd58d,
   0x3653, 0x2672, 0x1611, 0x0630, 0x76d7, 0x66f6, 0x5695, 0x46b4,
   0xb75b, 0xa77a, 0x9719, 0x8738, 0xf7df, 0xe7fe, 0xd79d, 0xc7bc,
   0x48c4, 0x58e5, 0x6886, 0x78a7, 0x0840, 0x1861, 0x2802, 0x3823,
   0xc9cc, 0xd9ed, 0xe98e, 0xf9af, 0x8948, 0x9969, 0xa90a, 0xb92b,
   0x5af5, 0x4ad4, 0x7ab7, 0x6a96, 0x1a71, 0x0a50, 0x3a33, 0x2a12,
   0xdbfd, 0xcbdc, 0xfbbf, 0xeb9e, 0x9b79, 0x8b58, 0xbb3b, 0xab1a,
   0x6ca6, 0x7c87, 0x4ce4, 0x5cc5, 0x2c22, 0x3c03, 0x0c60, 0x1c41,
   0xedae, 0xfd8f, 0xcdec, 0xddcd, 0xad2a, 0xbd0b, 0x8d68, 0x9d49,
   0x7e97, 0x6eb6, 0x5ed5, 0x4ef4, 0x3e13, 0x2e32, 0x1e51, 0x0e70,
   0xff9f, 0xefbe, 0xdfdd, 0xcffc, 0xbf1b, 0xaf3a, 0x9f59, 0x8f78,
   0x9188, 0x81a9, 0xb1ca, 0xa1eb, 0xd10c, 0xc12d, 0xf14e, 0xe16f,
   0x1080, 0x00a1, 0x30c2, 0x20e3, 0x5004, 0x4025, 0x7046, 0x6067,
   0x83b9, 0x9398, 0xa3fb, 0xb3da, 0xc33d, 0xd31c, 0xe37f, 0xf35e,
   0x02b1, 0x1290, 0x22f3, 0x32d2, 0x4235, 0x5214, 0x6277, 0x7256,
   0xb5ea, 0xa5cb, 0x95a8, 0x8589, 0xf56e, 0xe54f, 0xd52c, 0xc50d,
   0x34e2, 0x24c3, 0x14a0, 0x0481, 0x7466, 0x6447, 0x5424, 0x4405,
   0xa7db, 0xb7fa, 0x8799, 0x97b8, 0xe75f, 0xf77e, 0xc71d, 0xd73c,
   0x26d3, 0x36f2, 0x0691, 0x16b0, 0x6657, 0x7676, 0x4615, 0x5634,
   0xd94c, 0xc96d, 0xf90e, 0xe92f, 0x99c8, 0x89e9, 0xb98a, 0xa9ab,
   0x5844, 0x4865, 0x7806, 0x6827, 0x18c0, 0x08e1, 0x3882, 0x28a3,
   0xcb7d, 0xdb5c, 0xeb3f, 0xfb1e, 0x8bf9, 0x9bd8, 0xabbb, 0xbb9a,
   0x4a75, 0x5a54, 0x6a37, 0x7a16, 0x0af1, 0x1ad0, 0x2ab3, 0x3a92,
   0xfd2e, 0xed0f, 0xdd6c, 0xcd4d, 0xbdaa, 0xad8b, 0x9de8, 0x8dc9,
   0x7c26, 0x6c07, 0x5c64, 0x4c45, 0x3ca2, 0x2c83, 0x1ce0, 0x0cc1,
   0xef1f, 0xff3e, 0xcf5d, 0xdf7c, 0xaf9b, 0xbfba, 0x8fd9, 0x9ff8,
   0x6e17, 0x7e36, 0x4e55, 0x5e74, 0x2e93, 0x3eb2, 0x0ed1, 0x1ef0]"

definition byte_of :: "char \<Rightarrow> 8 word" where
  "byte_of c = of_char c"

text \<open>One round of the loop in \<open>crc16sum\<close>.\<close>

definition crc16_step :: "16 word \<Rightarrow> 8 word \<Rightarrow> 16 word" where
  "crc16_step crc b =
    (push_bit 8 crc) XOR crc16tab ! unat (((ucast (drop_bit 8 crc) :: 8 word) XOR b) AND 0xff)"

definition crc16sum :: "string \<Rightarrow> 16 word" where
  "crc16sum key = foldl (\<lambda>crc c. crc16_step crc (byte_of c)) 0 key"

text \<open>The hash tag of a key, or the key itself.\<close>

definition Key :: "string \<Rightarrow> string" where
  "Key key =
    (let s = index_byte (CHR ''{'') key in
     if s > - 1
     then (let e = index_byte (CHR ''}'') (drop (nat (s + 1)) key) in
           if e > 0 then take (nat e) (drop (nat (s + 1)) key) else key)
     else key)"

definition Slot :: "string \<Rightarrow> nat" where
  "Slot key = (if key = [] then 0 else unat (crc16sum (Key key)) mod slotNumber)"

subsection \<open>The checksum, bit by bit\<close>

definition crc16_bit :: "16 word \<Rightarrow> 16 word" where
  "crc16_bit crc = (if bit crc 15 then push_bit 1 crc XOR 0x1021 else push_bit 1 crc)"

definition crc16_byte :: "16 word \<Rightarrow> 16 word" where
  "crc16_byte crc = (crc16_bit ^^ 8) crc"

definition crc16_ref :: "string \<Rightarrow> 16 word" where
  "crc16_ref key = foldl (\<lambda>crc c. crc16_byte (crc XOR push_bit 8 (ucast (byte_of c)))) 0 key"

lemma crc16_bit_xor: "crc16_bit (a XOR b) = crc16_bit a XOR crc16_bit b"
  by (simp add: crc16_bit_def bit_xor_iff push_bit_xor ac_simps xor.left_commute)

lemma crc16_byte_xor: "crc16_byte (a XOR b) = crc16_byte a XOR crc16_byte b"
  by (simp add: crc16_byte_def eval_nat_numeral crc16_bit_xor)

lemma crc16_byte_unfold:
  "crc16_byte crc = crc16_bit (crc16_bit (crc16_bit (crc16_bit
     (crc16_bit (crc16_bit (crc16_bit (crc16_bit crc)))))))"
  by (simp add: crc16_byte_def eval_nat_numeral)

text \<open>Every table entry is the checksum of its index shifted into the high byte.\<close>

fun table_ok :: "16 word \<Rightarrow> 16 word list \<Rightarrow> bool" where
  "table_ok n [] = True"
| "table_ok n (t # ts) = (crc16_byte (push_bit 8 n) = t \<and> table_ok (n + 1) ts)"

lemma table_ok_nth:
  "table_ok n ts \<Longrightarrow> i < length ts \<Longrightarrow> ts ! i = crc16_byte (push_bit 8 (n + word_of_nat i))"
proof (induction ts arbitrary: n i)
  case Nil
  then show ?case by simp
next
  case (Cons t ts)
  then show ?case by (cases i) (auto simp: add.assoc)
qed

lemmas crc16_byte_numeral = crc16_byte_unfold [of "numeral k" for k] crc16_byte_unfold [of 0] crc16_byte_unfold [of 1]
lemmas crc16_bit_numeral = crc16_bit_def [of "numeral k" for k] crc16_bit_def [of 0] crc16_bit_def [of 1]

lemma crc16tab_ok: "table_ok 0 crc16tab"
  by (simp add: crc16tab_def crc16_byte_numeral crc16_bit_numeral)

lemma bit_ff: "bit (255 :: int) n \<longleftrightarrow> n < 8"
proof -
  have "(255 :: int) = mask 8" by (simp add: mask_eq_exp_minus_1)
  then show ?thesis by (simp only: bit_mask_iff) auto
qed

lemma length_crc16tab: "length crc16tab = 256"
  by (simp add: crc16tab_def)

lemma crc16tab_entry:
  fixes b :: "8 word"
  shows "crc16tab ! unat b = crc16_byte (push_bit 8 (ucast b))"
proof -
  have "unat b < length crc16tab"
    using unsigned_less [where 'b = 8 and 'a = nat and w = b] by (simp add: length_crc16tab)
  from table_ok_nth [OF crc16tab_ok this] show ?thesis by (simp add: unsigned_of_nat)
qed

text \<open>A value that fits into the low byte is only shifted: the top bit is never set.\<close>

lemma crc16_bit_iter_low:
  "k \<le> 8 \<Longrightarrow> (crc16_bit ^^ k) (w AND 0xff) = push_bit k (w AND 0xff)"
proof (induction k)
  case 0
  then show ?case by simp
next
  case (Suc k)
  have "\<not> bit (push_bit k (w AND 0xff)) 15"
  proof -
    have "\<not> bit (0xff :: 16 word) (15 - k)"
      using Suc.prems by (auto simp: bit_ff)
    then show ?thesis by (simp add: bit_push_bit_iff bit_and_iff)
  qed
  then show ?case using Suc by (simp add: crc16_bit_def)
qed

lemma crc16_byte_low: "crc16_byte (w AND 0xff) = push_bit 8 w"
proof -
  have "push_bit 8 (w AND 0xff) = push_bit 8 w"
    by (rule bit_word_eqI) (auto simp: bit_push_bit_iff bit_and_iff bit_ff simp del: push_bit_and)
  then show ?thesis by (simp add: crc16_byte_def crc16_bit_iter_low)
qed

lemma split_bytes:
  fixes crc :: "16 word" and b :: "8 word"
  shows "crc XOR push_bit 8 (ucast b) =
    push_bit 8 (ucast ((ucast (drop_bit 8 crc) :: 8 word) XOR b)) XOR (crc AND 0xff)"
  by (rule bit_word_eqI)
    (auto simp: bit_simps bit_ff dest: le_add_diff_inverse split: if_splits)

lemma crc16_step_ref: "crc16_step crc b = crc16_byte (crc XOR push_bit 8 (ucast b))"
proof -
  let ?i = "(ucast (drop_bit 8 crc) :: 8 word) XOR b"
  have "?i AND 0xff = ?i"
    by (rule bit_word_eqI) (auto simp: bit_simps bit_ff)
  then have "crc16_step crc b = push_bit 8 crc XOR crc16_byte (push_bit 8 (ucast ?i))"
    by (simp add: crc16_step_def crc16tab_entry)
  also have "\<dots> = crc16_byte (push_bit 8 (ucast ?i) XOR (crc AND 0xff))"
    by (simp only: crc16_byte_xor crc16_byte_low xor.commute)
  finally show ?thesis by (simp only: split_bytes)
qed

text \<open>
  C40: The table-driven checksum of \<open>crc16sum\<close> is the CRC16 with polynomial \<open>0x1021\<close> and initial
  value 0, computed bit by bit.
\<close>

theorem crc16sum_eq_ref: "crc16sum key = crc16_ref key"
  by (simp add: crc16sum_def crc16_ref_def crc16_step_ref)

subsection \<open>Slots and hash tags\<close>

lemma Slot_less: "Slot key < slotNumber"
  by (simp add: Slot_def slotNumber_def)

lemma Key_tagged:
  assumes "CHR ''{'' \<notin> set pre" and "CHR ''}'' \<notin> set tag" and "tag \<noteq> []"
  shows "Key (pre @ CHR ''{'' # tag @ CHR ''}'' # post) = tag"
proof -
  have "drop (nat (int (length pre) + 1)) (pre @ CHR ''{'' # tag @ CHR ''}'' # post) =
      tag @ CHR ''}'' # post"
    by (simp add: nat_add_distrib)
  then show ?thesis
    using assms by (simp add: Key_def index_byte_append)
qed

lemma Key_no_close:
  assumes "CHR ''}'' \<notin> set key"
  shows "Key key = key"
proof -
  have "\<And>n. CHR ''}'' \<notin> set (drop n key)"
    using assms by (blast dest: in_set_dropD)
  then show ?thesis by (simp add: Key_def Let_def index_byte_notin)
qed

text \<open>
  A key with a non-empty hash tag lives in the slot of the tag alone, whatever surrounds it.
\<close>

lemma Slot_tagged:
  assumes "CHR ''{'' \<notin> set pre" and "CHR ''}'' \<notin> set tag" and "tag \<noteq> []"
  shows "Slot (pre @ CHR ''{'' # tag @ CHR ''}'' # post) = Slot tag"
  using Key_tagged [OF assms] Key_no_close [OF assms(2)] assms(3) by (simp add: Slot_def)

text \<open>
  Every slot is below 16384, and a key whose first brace opens a non-empty hash tag lives
  in the slot of the tag alone, whatever surrounds the tag.
\<close>

theorem slot_of_tagged_key:
  assumes "CHR ''{'' \<notin> set pre" and "CHR ''}'' \<notin> set tag" and "tag \<noteq> []"
  shows "Slot (pre @ CHR ''{'' # tag @ CHR ''}'' # post) = Slot tag \<and> Slot tag < slotNumber"
  using Slot_tagged [OF assms] Slot_less by simp

theorem slot_of_tagged_key_witness:
  "Slot ''test:7:{ab}:1'' = Slot ''ab'' \<and> Slot ''ab'' < slotNumber"
  using slot_of_tagged_key [of "''test:7:''" "''ab''" "'':1''"] by simp

end
