(* ===== verification/Slot_Tags.thy ===== *)
theory Slot_Tags
  imports Slot
begin

section \<open>A hash tag for every slot (checker/pkg/utils.go)\<close>

text \<open>
  The checker puts a hash tag into every key so that the key lives in a slot it has chosen.
  \<open>newSlotTags\<close> finds the tags by drawing random UUIDs until every slot has one; \<open>uuid\<close> is the
  sequence of UUIDs the library returns and \<open>i\<close> the number drawn so far. A loop that draws
  at random may run forever, so the result is an option; it returns when every slot comes up.
\<close>

record slotTags =
  st_tags :: "string list"

definition getTag :: "slotTags \<Rightarrow> nat \<Rightarrow> string" where
  "getTag st slot = st_tags st ! slot"

partial_function (option) slotTagsLoop ::
  "(nat \<Rightarrow> string) \<Rightarrow> nat \<Rightarrow> string list \<Rightarrow> nat \<Rightarrow> (string list \<times> nat) option" where
  "slotTagsLoop uuid n tags i =
    (if n = slotNumber then Some (tags, i)
     else let tag = take 6 (uuid i); slot = Slot tag in
       if length (tags ! slot) \<noteq> 0 then slotTagsLoop uuid n tags (Suc i)
       else slotTagsLoop uuid (Suc n) (tags[slot := tag]) (Suc i))"

definition newSlotTags :: "(nat \<Rightarrow> string) \<Rightarrow> nat \<Rightarrow> (slotTags \<times> nat) option" where
  "newSlotTags uuid i =
    map_option (\<lambda>(tags, j). (\<lparr>st_tags = tags\<rparr>, j)) (slotTagsLoop uuid 0 (replicate slotNumber []) i)"

subsection \<open>The loop returns, and the tags fit\<close>

text \<open>The text format of a UUID: 36 characters, hexadecimal digits and hyphens.\<close>

definition uuid_format :: "string \<Rightarrow> bool" where
  "uuid_format u \<longleftrightarrow> length u = 36 \<and> set u \<subseteq> set ''0123456789abcdef-''"

definition tags_ok :: "slotTags \<Rightarrow> bool" where
  "tags_ok st \<longleftrightarrow> length (st_tags st) = slotNumber \<and>
    (\<forall>s < slotNumber. getTag st s \<noteq> [] \<and> CHR ''}'' \<notin> set (getTag st s) \<and> Slot (getTag st s) = s)"

definition tags_inv :: "nat \<Rightarrow> string list \<Rightarrow> bool" where
  "tags_inv n tags \<longleftrightarrow> length tags = slotNumber \<and> n = card {s. s < slotNumber \<and> tags ! s \<noteq> []} \<and>
    (\<forall>s < slotNumber. tags ! s \<noteq> [] \<longrightarrow> CHR ''}'' \<notin> set (tags ! s) \<and> Slot (tags ! s) = s)"

lemma tags_inv_start: "tags_inv 0 (replicate slotNumber [])"
  by (simp add: tags_inv_def)

lemma tags_inv_step:
  assumes "tags_inv n tags" and "tags ! Slot tag = []" and "tag \<noteq> []" and "CHR ''}'' \<notin> set tag"
  shows "tags_inv (Suc n) (tags[Slot tag := tag])"
proof -
  let ?filled = "\<lambda>ts. {s. s < slotNumber \<and> ts ! s \<noteq> []}"
  have len: "length tags = slotNumber" using assms(1) by (simp add: tags_inv_def)
  have nth: "tags[Slot tag := tag] ! s = (if s = Slot tag then tag else tags ! s)" for s
    using len Slot_less [of tag] by (simp add: nth_list_update)
  have "?filled (tags[Slot tag := tag]) = insert (Slot tag) (?filled tags)"
    using assms(3) Slot_less [of tag] by (auto simp: nth)
  moreover have "Slot tag \<notin> ?filled tags" using assms(2) by simp
  ultimately have "Suc n = card (?filled (tags[Slot tag := tag]))"
    using assms(1) by (simp add: tags_inv_def)
  then show ?thesis
    using assms len by (simp add: tags_inv_def nth)
qed

lemma tags_inv_full:
  assumes "tags_inv slotNumber tags" and "s < slotNumber"
  shows "tags ! s \<noteq> []"
proof -
  have "card {s. s < slotNumber \<and> tags ! s \<noteq> []} = card {..<slotNumber}"
    using assms(1) by (simp add: tags_inv_def)
  then have "{s. s < slotNumber \<and> tags ! s \<noteq> []} = {..<slotNumber}"
    by (intro card_subset_eq) auto
  with assms(2) show ?thesis by blast
qed

lemma tags_inv_gap:
  assumes "tags_inv n tags" and "n \<noteq> slotNumber"
  shows "\<exists>s < slotNumber. tags ! s = []"
proof (rule ccontr)
  assume "\<not> ?thesis"
  then have "{s. s < slotNumber \<and> tags ! s \<noteq> []} = {..<slotNumber}" by auto
  with assms show False by (simp add: tags_inv_def)
qed

lemma uuid_format_tag:
  assumes "uuid_format u"
  shows "take 6 u \<noteq> []" and "CHR ''}'' \<notin> set (take 6 u)"
  using assms set_take_subset [of 6 u] by (auto simp: uuid_format_def)

text \<open>
  As long as a slot is empty its tag is still to come, before the \<open>N\<close>-th draw: what shrinks is
  the distance to \<open>N\<close>.
\<close>

lemma slotTagsLoop_returns:
  assumes "\<And>j. uuid_format (uuid j)" and "tags_inv n tags"
    and "\<And>s. s < slotNumber \<Longrightarrow> tags ! s = [] \<Longrightarrow> \<exists>j \<ge> i. j < N \<and> Slot (take 6 (uuid j)) = s"
  shows "\<exists>tags' i'. slotTagsLoop uuid n tags i = Some (tags', i') \<and> tags_inv slotNumber tags'"
  using assms(2,3)
proof (induction "N - i" arbitrary: n tags i)
  case 0
  then have "\<forall>s < slotNumber. tags ! s \<noteq> []" by fastforce
  then have "n = slotNumber" using tags_inv_gap [OF "0.prems"(1)] by blast
  then show ?case using "0.prems"(1) by (simp add: slotTagsLoop.simps)
next
  case (Suc d)
  let ?tag = "take 6 (uuid i)"
  note tag = uuid_format_tag [OF assms(1), of i]
  have d: "d = N - Suc i" using Suc.hyps(2) by simp
  consider "n = slotNumber" | "n \<noteq> slotNumber" "tags ! Slot ?tag = []" | "n \<noteq> slotNumber" "tags ! Slot ?tag \<noteq> []"
    by blast
  then show ?case
  proof cases
    case 1
    then show ?thesis using Suc.prems(1) by (simp add: slotTagsLoop.simps)
  next
    case 2
    have len: "length tags = slotNumber" using Suc.prems(1) by (simp add: tags_inv_def)
    have "\<exists>j \<ge> Suc i. j < N \<and> Slot (take 6 (uuid j)) = s"
      if "s < slotNumber" "tags[Slot ?tag := ?tag] ! s = []" for s
    proof -
      have "s \<noteq> Slot ?tag" using that tag(1) len by auto
      then show ?thesis using Suc.prems(2) [of s] that by (metis le_eq_less_or_eq Suc_le_eq nth_list_update_neq)
    qed
    then show ?thesis
      using 2 Suc.hyps(1) [OF d tags_inv_step [OF Suc.prems(1) 2(2) tag]]
      by (simp add: slotTagsLoop.simps [of uuid n tags i] Let_def)
  next
    case 3
    have "\<exists>j \<ge> Suc i. j < N \<and> Slot (take 6 (uuid j)) = s" if "s < slotNumber" "tags ! s = []" for s
      using Suc.prems(2) [OF that] 3(2) that by (metis le_eq_less_or_eq Suc_le_eq)
    then show ?thesis
      using 3 Suc.hyps(1) [OF d Suc.prems(1)] by (simp add: slotTagsLoop.simps [of uuid n tags i] Let_def)
  qed
qed

lemma newSlotTags_ok:
  assumes "\<And>j. uuid_format (uuid j)" and "\<And>s. s < slotNumber \<Longrightarrow> \<exists>j \<ge> i. Slot (take 6 (uuid j)) = s"
  shows "\<exists>st i'. newSlotTags uuid i = Some (st, i') \<and> tags_ok st"
proof -
  obtain f where f: "\<And>s. s < slotNumber \<Longrightarrow> f s \<ge> i \<and> Slot (take 6 (uuid (f s))) = s"
    using assms(2) by metis
  define N where "N = Suc (Max (f ` {..<slotNumber}))"
  have "f s < N" if "s < slotNumber" for s
    using that by (simp add: N_def le_imp_less_Suc)
  then have "\<exists>j \<ge> i. j < N \<and> Slot (take 6 (uuid j)) = s" if "s < slotNumber" for s
    using f that by blast
  from slotTagsLoop_returns [OF assms(1) tags_inv_start this]
  obtain tags i' where r: "slotTagsLoop uuid 0 (replicate slotNumber []) i = Some (tags, i')"
    and inv: "tags_inv slotNumber tags" by blast
  have "tags_ok \<lparr>st_tags = tags\<rparr>"
    using inv tags_inv_full [OF inv] by (simp add: tags_ok_def tags_inv_def getTag_def)
  with r show ?thesis by (simp add: newSlotTags_def)
qed

subsection \<open>Every slot has a tag of six digits\<close>

text \<open>
  The checksum is linear: the bytes of \<open>tag_bytes w\<close> are the six digits \<open>0\<close>, with the row of
  \<open>tag_rows\<close> added for each bit of \<open>w\<close>, and row \<open>k\<close> changes bit \<open>k\<close> of the slot and no other.
\<close>

unbundle bit_operations_syntax

definition crc_bytes :: "8 word list \<Rightarrow> 16 word" where
  "crc_bytes bs = foldl crc16_step 0 bs"

lemma crc16_step_xor: "crc16_step (x XOR y) (a XOR b) = crc16_step x a XOR crc16_step y b"
proof -
  have "push_bit 8 (ucast (a XOR b)) = (push_bit 8 (ucast a) XOR push_bit 8 (ucast b) :: 16 word)"
    by (rule bit_word_eqI) (auto simp: bit_simps)
  then have args: "(x XOR y) XOR push_bit 8 (ucast (a XOR b)) =
      (x XOR push_bit 8 (ucast a)) XOR (y XOR push_bit 8 (ucast b))"
    by (simp only: ac_simps xor.left_commute)
  show ?thesis unfolding crc16_step_ref args by (rule crc16_byte_xor)
qed

lemma foldl_crc16_xor:
  "length as = length bs \<Longrightarrow>
    foldl crc16_step (x XOR y) (map2 (XOR) as bs) = foldl crc16_step x as XOR foldl crc16_step y bs"
  by (induction as bs arbitrary: x y rule: list_induct2) (simp_all add: crc16_step_xor)

lemma crc_bytes_xor:
  "length as = length bs \<Longrightarrow> crc_bytes (map2 (XOR) as bs) = crc_bytes as XOR crc_bytes bs"
  using foldl_crc16_xor [of as bs 0 0] by (simp add: crc_bytes_def)

definition tag_rows :: "8 word list list" where
  "tag_rows =
    [[5, 5, 4, 0, 6, 0],
     [1, 7, 1, 6, 2, 0],
     [6, 5, 1, 6, 6, 0],
     [0, 5, 6, 2, 6, 0],
     [2, 1, 4, 5, 0, 0],
     [3, 1, 4, 2, 0, 0],
     [3, 2, 5, 4, 6, 0],
     [0, 4, 1, 3, 2, 0],
     [6, 1, 1, 4, 4, 0],
     [6, 4, 5, 4, 2, 0],
     [4, 4, 4, 5, 6, 0],
     [1, 7, 1, 4, 0, 0],
     [6, 5, 1, 2, 2, 0],
     [3, 4, 1, 1, 2, 0]]"

fun add_rows :: "16 word \<Rightarrow> nat \<Rightarrow> 8 word list list \<Rightarrow> 8 word list \<Rightarrow> 8 word list" where
  "add_rows w k [] acc = acc"
| "add_rows w k (v # vs) acc = add_rows w (Suc k) vs (if bit w k then map2 (XOR) v acc else acc)"

definition tag_bytes :: "16 word \<Rightarrow> 8 word list" where
  "tag_bytes w = add_rows w 0 tag_rows (replicate 6 0x30)"

lemma crc_add_rows:
  assumes "\<forall>v \<in> set vs. length v = length acc" and "n < 14"
  shows "bit (crc_bytes (add_rows w k vs acc)) n =
    (bit (crc_bytes acc) n \<noteq> odd (length (filter (\<lambda>i. bit w (k + i) \<and> bit (crc_bytes (vs ! i)) n) [0..<length vs])))"
  using assms(1)
proof (induction vs arbitrary: k acc)
  case Nil
  then show ?case by simp
next
  case (Cons v vs)
  let ?acc = "if bit w k then map2 (XOR) v acc else acc"
  have len: "length ?acc = length acc" using Cons.prems by simp
  have acc: "bit (crc_bytes ?acc) n = (bit (crc_bytes acc) n \<noteq> (bit w k \<and> bit (crc_bytes v) n))"
    using Cons.prems by (auto simp: crc_bytes_xor bit_xor_iff)
  have upt: "[0..<length (v # vs)] = 0 # map Suc [0..<length vs]"
    by (simp add: upt_conv_Cons map_Suc_upt del: upt_Suc)
  have "filter (\<lambda>i. bit w (k + i) \<and> bit (crc_bytes ((v # vs) ! i)) n) [0..<length (v # vs)] =
      (if bit w k \<and> bit (crc_bytes v) n then [0] else []) @
      map Suc (filter (\<lambda>i. bit w (Suc k + i) \<and> bit (crc_bytes (vs ! i)) n) [0..<length vs])"
    unfolding upt by (simp add: filter_map o_def)
  moreover have "\<forall>v \<in> set vs. length v = length ?acc" using Cons.prems len by simp
  note Cons.IH [OF this, of "Suc k"]
  ultimately show ?case by (auto simp: acc)
qed

lemma crc_tag_rows:
  "map crc_bytes tag_rows = [0x1, 0x8002, 0xc004, 0xc008, 0x10, 0xc020, 0x4040, 0xc080, 0x4100, 0x200, 0x400, 0x8800, 0xd000, 0x6000]"
  by (simp add: tag_rows_def crc_bytes_def crc16_step_ref crc16_byte_numeral crc16_bit_numeral)

lemma crc_zeros: "crc_bytes (replicate 6 0x30) = 0xf9e8"
  by (simp add: eval_nat_numeral)
    (simp add: crc_bytes_def crc16_step_ref crc16_byte_numeral crc16_bit_numeral)

lemma nat_less_14: "n < 14 \<Longrightarrow> n \<in> {0, 1, 2, 3, 4, 5, 6, 7, 8, 9, 10, 11, 12, 13 :: nat}"
  by (auto simp: eval_nat_numeral less_Suc_eq)

lemma length_tag_rows: "length tag_rows = 14"
  by (simp add: tag_rows_def)

lemma bit_tag_row:
  assumes "i < 14" and "n < 14"
  shows "bit (crc_bytes (tag_rows ! i)) n \<longleftrightarrow> i = n"
proof -
  have "crc_bytes (tag_rows ! i) = map crc_bytes tag_rows ! i"
    using assms(1) by (simp add: length_tag_rows)
  then show ?thesis
    unfolding crc_tag_rows
    using nat_less_14 [OF assms(1)] nat_less_14 [OF assms(2)] by (elim insertE) simp_all
qed

lemma filter_eq_nat: "filter (\<lambda>i. P i \<and> i = n) [0..<m] = (if n < m \<and> P n then [n] else [])"
  by (induction m) (auto simp: less_Suc_eq)

lemma bit_tag_bytes:
  assumes "n < 14"
  shows "bit (crc_bytes (tag_bytes w)) n \<longleftrightarrow> bit (0xf9e8 :: 16 word) n \<noteq> bit w n"
proof -
  have rows: "\<forall>v \<in> set tag_rows. length v = length (replicate 6 (0x30 :: 8 word))"
    by (simp add: tag_rows_def)
  have "filter (\<lambda>i. bit w (0 + i) \<and> bit (crc_bytes (tag_rows ! i)) n) [0..<length tag_rows] =
      filter (\<lambda>i. bit w i \<and> i = n) [0..<length tag_rows]"
    by (rule filter_cong) (use assms in \<open>auto simp: length_tag_rows bit_tag_row\<close>)
  then show ?thesis
    using assms crc_add_rows [OF rows assms, of w 0]
    by (simp add: tag_bytes_def crc_zeros filter_eq_nat length_tag_rows)
qed

text \<open>The tag of slot \<open>s\<close>: digits whose checksum has the bits of \<open>s\<close>.\<close>

definition tag_of_slot :: "nat \<Rightarrow> string" where
  "tag_of_slot s = map (\<lambda>b. char_of (unat b)) (tag_bytes (word_of_nat s XOR 0xf9e8))"

lemma crc_tag_of_slot:
  assumes "n < 14"
  shows "bit (crc_bytes (tag_bytes (word_of_nat s XOR 0xf9e8))) n \<longleftrightarrow> bit s n"
  using assms by (auto simp: bit_tag_bytes bit_xor_iff bit_of_nat_iff bit_nat_iff)

definition digit_byte :: "8 word \<Rightarrow> bool" where
  "digit_byte b \<longleftrightarrow> drop_bit 3 b = 6"

lemma digit_byte_char: "digit_byte b \<Longrightarrow> char_of (unat b) \<in> set ''01234567''"
proof -
  assume "digit_byte b"
  then have "unat (drop_bit 3 b) = 6" by (simp add: digit_byte_def)
  then have "unat b div 8 = 6" by (simp add: unat_drop_bit_eq drop_bit_eq_div [where 'a = nat] del: drop_bit_eq_div)
  then have "unat b \<in> {48, 49, 50, 51, 52, 53, 54, 55}" by auto
  then show "char_of (unat b) \<in> set ''01234567''"
    by (elim insertE) (simp_all add: char_of_def bit_Suc_0_iff)
qed

lemma add_rows_digits:
  assumes "\<forall>v \<in> set vs. length v = length acc \<and> (\<forall>b \<in> set v. drop_bit 3 b = 0)" and "\<forall>b \<in> set acc. digit_byte b"
  shows "length (add_rows w k vs acc) = length acc \<and> (\<forall>b \<in> set (add_rows w k vs acc). digit_byte b)"
  using assms
proof (induction vs arbitrary: k acc)
  case Nil
  then show ?case by simp
next
  case (Cons v vs)
  have "digit_byte (a XOR b)" if "drop_bit 3 a = 0" "digit_byte b" for a b
    using that by (simp add: digit_byte_def drop_bit_xor)
  then have "\<forall>b \<in> set (map2 (XOR) v acc). digit_byte b"
    using Cons.prems(1,2) by (clarsimp simp del: drop_bit_eq_div) (meson set_zip_leftD set_zip_rightD)
  moreover define acc' where "acc' = (if bit w k then map2 (XOR) v acc else acc)"
  ultimately have "\<forall>b \<in> set acc'. digit_byte b" and len: "length acc' = length acc"
    using Cons.prems by simp_all
  with Cons.IH [where acc = acc' and k = "Suc k"] Cons.prems(1) show ?case
    by (simp add: acc'_def [symmetric])
qed

lemma tag_bytes_digits: "length (tag_bytes w) = 6 \<and> (\<forall>b \<in> set (tag_bytes w). digit_byte b)"
proof -
  have rows: "\<forall>v \<in> set tag_rows. length v = length (replicate 6 (0x30 :: 8 word)) \<and> (\<forall>b \<in> set v. drop_bit 3 b = 0)"
    by (simp add: tag_rows_def)
  show ?thesis
    using add_rows_digits [OF rows, of w 0] by (simp add: tag_bytes_def digit_byte_def)
qed

lemma tag_of_slot_digits: "length (tag_of_slot s) = 6" "set (tag_of_slot s) \<subseteq> set ''01234567''"
  using tag_bytes_digits digit_byte_char by (auto simp: tag_of_slot_def simp del: list.set)

lemma Slot_tag_of_slot:
  assumes "s < slotNumber"
  shows "Slot (tag_of_slot s) = s"
proof -
  let ?bs = "tag_bytes (word_of_nat s XOR 0xf9e8)"
  have "byte_of (char_of (unat b)) = b" for b
  proof -
    have "byte_of (char_of (unat b)) = of_nat (of_char (char_of (unat b)))"
      by (simp only: byte_of_def of_nat_of_char)
    also have "\<dots> = of_nat (unat b mod 256)" by (simp only: of_char_of)
    also have "unat b mod 256 = unat b" using unsigned_less [where 'a = nat and w = b] by simp
    finally show ?thesis by simp
  qed
  then have "crc16sum (tag_of_slot s) = crc_bytes ?bs"
    by (simp add: crc16sum_def crc_bytes_def tag_of_slot_def foldl_map)
  moreover have "CHR ''}'' \<notin> set (tag_of_slot s)" using tag_of_slot_digits(2) [of s] by auto
  moreover have "tag_of_slot s \<noteq> []" using tag_of_slot_digits(1) [of s] by auto
  moreover have "unat (crc_bytes ?bs) mod 2 ^ 14 = s mod 2 ^ 14"
    unfolding take_bit_eq_mod [symmetric]
    by (rule bit_eqI) (simp add: bit_take_bit_iff bit_unsigned_iff conj_left_commute crc_tag_of_slot cong: conj_cong)
  ultimately show ?thesis
    using assms by (simp add: Slot_def Key_no_close slotNumber_def)
qed

subsection \<open>Properties\<close>

text \<open>
  C33: Drawing tags ends as soon as every slot has come up among the UUIDs drawn, and then every
  slot has a non-empty tag whose keys live in that slot.
\<close>

theorem newSlotTags_returns:
  assumes "\<And>j. uuid_format (uuid j)" and "\<And>s. s < slotNumber \<Longrightarrow> \<exists>j \<ge> i. Slot (take 6 (uuid j)) = s"
  shows "\<exists>st i'. newSlotTags uuid i = Some (st, i') \<and> tags_ok st"
  using newSlotTags_ok [OF assms] by blast

text \<open>A stream of UUIDs in which every slot comes up.\<close>

definition uuid_stream :: "nat \<Rightarrow> string" where
  "uuid_stream i = tag_of_slot (i mod slotNumber) @ replicate 30 (CHR ''0'')"

lemma uuid_stream_format: "uuid_format (uuid_stream i)"
proof -
  let ?tag = "tag_of_slot (i mod slotNumber)"
  have "set ''01234567'' \<subseteq> set ''0123456789abcdef-''" by simp
  with tag_of_slot_digits(2) have "set ?tag \<subseteq> set ''0123456789abcdef-''" by (rule subset_trans)
  moreover have "length ?tag = 6" by (rule tag_of_slot_digits(1))
  ultimately show ?thesis unfolding uuid_format_def uuid_stream_def set_append by simp
qed

lemma uuid_stream_slot:
  assumes "s < slotNumber"
  shows "Slot (take 6 (uuid_stream s)) = s"
  using assms tag_of_slot_digits(1) [of s] by (simp add: uuid_stream_def Slot_tag_of_slot)

theorem newSlotTags_returns_witness:
  "\<exists>st i'. newSlotTags uuid_stream 0 = Some (st, i') \<and> tags_ok st"
  by (rule newSlotTags_returns) (use uuid_stream_format uuid_stream_slot in auto)

end
