(* ===== verification/Kv_Checker.thy ===== *)
theory Kv_Checker
  imports Checker_Client Slot_Tags
begin

section \<open>The key-value checker (checker/pkg/kv.go, utils.go)\<close>

text \<open>
  A checker writes, deletes and reads random keys of its own and compares what it reads with what
  it wrote: \<open>kv_keys\<close> holds the last value of every key, by slot, and \<open>kv_luaValue\<close> the one value
  it last wrote to all keys of \<open>kv_luaKeys\<close>. Its choices are parameters: the random numbers, the
  order in which \<open>range\<close> visits a map, the clock, the UUIDs and the rate limiter, each a function
  of the number of choices made before (\<open>kv_tick\<close>). The normal distribution is behind \<open>ke_norm\<close>,
  the integer that \<open>chooseSlotFromNormDist\<close> computes in floating point before it clamps it.
\<close>

record kv_env =
  ke_net :: net
  ke_rand :: "nat \<Rightarrow> nat"
  ke_norm :: "nat \<Rightarrow> int"
  ke_order :: "nat \<Rightarrow> string go_map \<Rightarrow> string go_map"
  ke_nano :: "nat \<Rightarrow> int"
  ke_second :: "nat \<Rightarrow> nat"
  ke_uuid :: "nat \<Rightarrow> string"
  ke_wait :: "nat \<Rightarrow> nat \<Rightarrow> string option"
  ke_done :: "nat \<Rightarrow> bool"

record kv_state = client_state +
  kv_startupNode :: string
  kv_keys :: "nat \<Rightarrow> string go_map"
  kv_luaKeys :: "string list"
  kv_luaValue :: string
  kv_tick :: nat

datatype kv_error =
    ErrExit
  | LimiterErr string
  | ClientErr client_error
  | Inconsistent string string string string
  | InconsistentLua string string string
  | InvalidLen nat nat
  | KvPanic

type_synonym 'a kv = "(kv_state, kv_error, 'a) io"

definition maxKeysNum :: nat where
  "maxKeysNum = slotNumber * 8"

subsection \<open>Choices\<close>

definition choice :: "(nat \<Rightarrow> 'a) \<Rightarrow> 'a kv" where
  "choice f w = (Inr (f (kv_tick w)), w\<lparr>kv_tick := Suc (kv_tick w)\<rparr>)"

text \<open>\<open>for k, v := range m\<close>: the entries in the order visited.\<close>

definition ranged :: "kv_env \<Rightarrow> string go_map \<Rightarrow> string go_map kv" where
  "ranged E m = choice (\<lambda>n. ke_order E n m)"

definition waitN :: "kv_env \<Rightarrow> nat \<Rightarrow> unit kv" where
  "waitN E n = bindE (choice (\<lambda>t. ke_wait E t n)) (\<lambda>r. case r of
      None \<Rightarrow> returnE () | Some e \<Rightarrow> throwE (LimiterErr e))"

definition chooseSlotFromNormDist :: "kv_env \<Rightarrow> nat kv" where
  "chooseSlotFromNormDist E = bindE (choice (ke_norm E)) (\<lambda>slot.
     returnE (if slot < 0 then 0 else if slot \<ge> int slotNumber then slotNumber - 1 else nat slot))"

text \<open>The remainder by the size of an empty map panics.\<close>

definition randomGetKey :: "kv_env \<Rightarrow> string go_map \<Rightarrow> (string \<times> string) kv" where
  "randomGetKey E m = bindE (choice (ke_rand E)) (\<lambda>n.
     if m = [] then throwE KvPanic
     else let r = n mod length m in
       bindE (ranged E m) (\<lambda>visited.
         if r < length visited then returnE (visited ! r) else throwE KvPanic))"

definition nil2Empty :: "string option \<Rightarrow> string" where
  "nil2Empty v = (case v of None \<Rightarrow> [] | Some s \<Rightarrow> s)"

definition getKeys :: "kv_env \<Rightarrow> string go_map \<Rightarrow> string list kv" where
  "getKeys E m =
    (if m = [] then returnE [] else bindE (ranged E m) (\<lambda>visited. returnE (map fst visited)))"

fun chooseSameSlotLoop :: "nat \<Rightarrow> string go_map \<Rightarrow> string go_map \<Rightarrow> string go_map" where
  "chooseSameSlotLoop n keys [] = keys"
| "chooseSameSlotLoop n keys ((k, v) # rest) =
    (let keys' = AList.update k v keys in
     if length keys' = n then keys' else chooseSameSlotLoop n keys' rest)"

definition randomChooseKeysInSameSlot :: "kv_env \<Rightarrow> nat \<Rightarrow> (nat \<times> string go_map) kv" where
  "randomChooseKeysInSameSlot E n =
    (if n = 0 then returnE (0, [])
     else bindE (chooseSlotFromNormDist E) (\<lambda>slot.
       bindE (getsE (\<lambda>w. kv_keys w slot)) (\<lambda>m.
       bindE (ranged E m) (\<lambda>visited. returnE (slot, chooseSameSlotLoop n [] visited)))))"

fun chooseKeysLoop :: "kv_env \<Rightarrow> nat \<Rightarrow> string go_map \<Rightarrow> string go_map kv" where
  "chooseKeysLoop E 0 keys = returnE keys"
| "chooseKeysLoop E (Suc n) keys =
    bindE (chooseSlotFromNormDist E) (\<lambda>slot.
    bindE (getsE (\<lambda>w. kv_keys w slot)) (\<lambda>m.
    bindE (randomGetKey E m) (\<lambda>(k, v). chooseKeysLoop E n (AList.update k v keys))))"

definition randomChooseKeys :: "kv_env \<Rightarrow> nat \<Rightarrow> string go_map kv" where
  "randomChooseKeys E n = (if n = 0 then returnE [] else chooseKeysLoop E n [])"

subsection \<open>Keys and values\<close>

definition genKey :: "int \<Rightarrow> int \<Rightarrow> nat \<Rightarrow> nat \<Rightarrow> string \<Rightarrow> string" where
  "genKey t ckID slot keyID tag =
    ''test:'' @ show_int t @ '':'' @ show_int ckID @ '':'' @ show_nat slot @ '':{'' @ tag @ ''}:'' @ show_nat keyID"

definition genLuaKey :: "kv_env \<Rightarrow> int \<Rightarrow> int \<Rightarrow> nat \<Rightarrow> string kv" where
  "genLuaKey E t ckID keyID = bindE (choice (ke_second E)) (\<lambda>s.
     returnE (''test:'' @ show_int t @ '':lua:'' @ show_int ckID @ '':{tag}:'' @ show_nat keyID @ '':'' @ show_nat s))"

definition genNewValue :: "kv_env \<Rightarrow> string \<Rightarrow> string kv" where
  "genNewValue E key = bindE (choice (ke_nano E)) (\<lambda>t. returnE (key @ '':'' @ show_int t))"

text \<open>\<open>ck.keys[slot][k] = v\<close>\<close>

definition setKey :: "nat \<Rightarrow> string \<Rightarrow> string \<Rightarrow> unit kv" where
  "setKey slot k v = modifyE (\<lambda>w. w\<lparr>kv_keys := (kv_keys w)(slot := AList.update k v (kv_keys w slot))\<rparr>)"

fun fillKeys :: "int \<Rightarrow> int \<Rightarrow> slotTags \<Rightarrow> nat list \<Rightarrow> (nat \<Rightarrow> string go_map) \<Rightarrow> (nat \<Rightarrow> string go_map)" where
  "fillKeys t ckID st [] keys = keys"
| "fillKeys t ckID st (i # is) keys =
    (let s = i mod slotNumber; k = genKey t ckID s i (getTag st s) in
     fillKeys t ckID st is (keys(s := AList.update k [] (keys s))))"

fun genLuaKeys :: "kv_env \<Rightarrow> int \<Rightarrow> int \<Rightarrow> nat list \<Rightarrow> string list kv" where
  "genLuaKeys E t ckID [] = returnE []"
| "genLuaKeys E t ckID (i # is) =
    bindE (genLuaKey E t ckID i) (\<lambda>k. bindE (genLuaKeys E t ckID is) (\<lambda>ks. returnE (k # ks)))"

text \<open>The state of a new checker; its client, and so the trace and the pool, is a given one.\<close>

definition newKVChecker :: "kv_env \<Rightarrow> int \<Rightarrow> slotTags \<Rightarrow> unit kv" where
  "newKVChecker E ckID st =
    bindE (choice (ke_nano E)) (\<lambda>t.
    bindE (genLuaKeys E t ckID [0..<10]) (\<lambda>luaKeys.
    modifyE (\<lambda>w. w\<lparr>kv_keys := fillKeys t ckID st [0..<maxKeysNum] (\<lambda>_. []),
      kv_luaKeys := luaKeys, kv_luaValue := []\<rparr>)))"

subsection \<open>The checks\<close>

text \<open>A command of the client, sent without the debug option.\<close>

definition onClient :: "(net \<Rightarrow> bool \<Rightarrow> string \<Rightarrow> (kv_state, client_error \<times> string, 'a) io) \<Rightarrow> kv_env \<Rightarrow> 'a kv" where
  "onClient cmd E w = tryE (cmd (ke_net E) False (kv_startupNode w)) (\<lambda>r. case r of
      Inl (e, address) \<Rightarrow> throwE (ClientErr e) | Inr x \<Rightarrow> returnE x) w"

definition checkSet :: "kv_env \<Rightarrow> unit kv" where
  "checkSet E =
    bindE (waitN E 10) (\<lambda>_.
    bindE (randomChooseKeys E 10) (\<lambda>kvs.
    bindE (ranged E kvs) (\<lambda>visited.
    foreachE (\<lambda>(k, _).
      bindE (genNewValue E k) (\<lambda>v.
      bindE (onClient (\<lambda>net debug node. client_Set net debug node k v) E) (\<lambda>_.
      setKey (Slot k) k v))) visited)))"

text \<open>\<open>v := genNewValue(k)\<close> for every key visited; \<open>args\<close> and the changed \<open>kvs\<close> follow from it.\<close>

fun newValues :: "kv_env \<Rightarrow> string go_map \<Rightarrow> string go_map kv" where
  "newValues E [] = returnE []"
| "newValues E ((k, _) # rest) =
    bindE (genNewValue E k) (\<lambda>v. bindE (newValues E rest) (\<lambda>kvs. returnE ((k, v) # kvs)))"

definition checkMSet :: "kv_env \<Rightarrow> unit kv" where
  "checkMSet E =
    bindE (waitN E 10) (\<lambda>_.
    bindE (randomChooseKeysInSameSlot E 10) (\<lambda>(slot, kvs).
    bindE (ranged E kvs) (\<lambda>visited.
    bindE (newValues E visited) (\<lambda>new.
    let args = concat (map (\<lambda>(k, v). [k, v]) new);
        kvs' = foldl (\<lambda>m (k, v). AList.update k v m) kvs new in
    bindE (onClient (\<lambda>net debug node. client_MSet net debug node args) E) (\<lambda>_.
    bindE (ranged E kvs') (\<lambda>visited'.
    foreachE (\<lambda>(k, v). setKey slot k v) visited'))))))"

definition checkGet :: "kv_env \<Rightarrow> unit kv" where
  "checkGet E =
    bindE (waitN E 10) (\<lambda>_.
    bindE (randomChooseKeys E 10) (\<lambda>kvs.
    bindE (ranged E kvs) (\<lambda>visited.
    foreachE (\<lambda>(key, expected).
      bindE (onClient (\<lambda>net debug node. client_Get net debug node key) E) (\<lambda>(v, address).
        let s = nil2Empty v in
        if s \<noteq> expected then throwE (Inconsistent key s expected address) else returnE ())) visited)))"

text \<open>The loops over the values keep the last mismatch and go on.\<close>

fun mgetLoop :: "string go_map \<Rightarrow> string \<Rightarrow> string list \<Rightarrow> string option list \<Rightarrow> kv_error option \<Rightarrow> unit kv" where
  "mgetLoop kvs address (k # ks) (v # vs) err =
    (let s = nil2Empty v; expected = nil2Empty (map_of kvs k) in
     if s = expected then mgetLoop kvs address ks vs err
     else mgetLoop kvs address ks vs (Some (Inconsistent k s expected address)))"
| "mgetLoop kvs address _ _ err = (case err of None \<Rightarrow> returnE () | Some e \<Rightarrow> throwE e)"

definition checkMGet :: "kv_env \<Rightarrow> unit kv" where
  "checkMGet E =
    bindE (randomChooseKeysInSameSlot E 10) (\<lambda>(_, kvs).
    if length kvs = 0 then returnE ()
    else
    bindE (waitN E 10) (\<lambda>_.
    bindE (getKeys E kvs) (\<lambda>keys.
    bindE (onClient (\<lambda>net debug node. client_MGet net debug node keys) E) (\<lambda>(values, address).
    if length keys \<noteq> length values then throwE (InvalidLen (length keys) (length values))
    else mgetLoop kvs address keys values None))))"

definition checkDel :: "kv_env \<Rightarrow> unit kv" where
  "checkDel E =
    bindE (randomChooseKeysInSameSlot E 10) (\<lambda>(slot, kvs).
    if length kvs = 0 then returnE ()
    else
    bindE (waitN E 10) (\<lambda>_.
    bindE (getKeys E kvs) (\<lambda>keys.
    bindE (onClient (\<lambda>net debug node. client_Del net debug node keys) E) (\<lambda>_.
    foreachE (\<lambda>k. setKey slot k []) keys))))"

text \<open>The nanoseconds within the second, and a UUID.\<close>

definition checkLuaMSet :: "kv_env \<Rightarrow> unit kv" where
  "checkLuaMSet E =
    bindE (getsE kv_luaKeys) (\<lambda>keys.
    bindE (waitN E (length keys)) (\<lambda>_.
    bindE (choice (\<lambda>n. ke_nano E n mod 1000000000)) (\<lambda>t.
    bindE (choice (ke_uuid E)) (\<lambda>uuid.
    let val = show_int t @ '':'' @ uuid in
    bindE (onClient (\<lambda>net debug node. client_luaMSet net debug node keys (replicate (length keys) val)) E) (\<lambda>_.
    modifyE (\<lambda>w. w\<lparr>kv_luaValue := val\<rparr>))))))"

text \<open>\<open>values[i]\<close> panics when the reply is too short.\<close>

fun luaMGetLoop :: "string \<Rightarrow> string list \<Rightarrow> string option list \<Rightarrow> kv_error option \<Rightarrow> unit kv" where
  "luaMGetLoop luaValue [] vs err = (case err of None \<Rightarrow> returnE () | Some e \<Rightarrow> throwE e)"
| "luaMGetLoop luaValue (k # ks) [] err = throwE KvPanic"
| "luaMGetLoop luaValue (k # ks) (v # vs) err =
    (let s = nil2Empty v in
     if s = luaValue then luaMGetLoop luaValue ks vs err
     else luaMGetLoop luaValue ks vs (Some (InconsistentLua k s luaValue)))"

definition checkLuaMGet :: "kv_env \<Rightarrow> unit kv" where
  "checkLuaMGet E =
    bindE (getsE kv_luaKeys) (\<lambda>keys.
    bindE (waitN E (length keys)) (\<lambda>_.
    bindE (onClient (\<lambda>net debug node. client_LuaMGet net debug node keys) E) (\<lambda>(values, _).
    bindE (getsE kv_luaValue) (\<lambda>luaValue.
    luaMGetLoop luaValue keys values None))))"

definition checkKeyValue :: "kv_env \<Rightarrow> unit kv" where
  "checkKeyValue E =
    bindE (choice (ke_rand E)) (\<lambda>r.
      let n = r mod 7 in
      if n = 0 then checkSet E else if n = 1 then checkMSet E else if n = 2 then checkLuaMSet E
      else if n = 3 then checkGet E else if n = 4 then checkMGet E else if n = 5 then checkLuaMGet E
      else if n = 6 then checkDel E else returnE ())"

text \<open>The loop ends only with an error; \<open>None\<close> is a loop that goes on forever.\<close>

partial_function (option) loopCheck :: "kv_env \<Rightarrow> kv_state \<Rightarrow> ((kv_error + unit) \<times> kv_state) option" where
  "loopCheck E w =
    (case choice (ke_done E) w of
       (Inl e, t) \<Rightarrow> Some (Inl e, t)
     | (Inr ended, t) \<Rightarrow>
         if ended then Some (Inl ErrExit, t)
         else case checkKeyValue E t of
             (Inl e, u) \<Rightarrow> Some (Inl e, u)
           | (Inr _, u) \<Rightarrow> loopCheck E u)"

text \<open>One of the goroutines of \<open>RunKvCheckerService\<close>: a new checker whenever the loop returns without an error.\<close>

partial_function (option) checkerService ::
  "kv_env \<Rightarrow> int \<Rightarrow> slotTags \<Rightarrow> kv_state \<Rightarrow> ((kv_error + unit) \<times> kv_state) option" where
  "checkerService E ckID st w =
    (case newKVChecker E ckID st w of
       (Inl e, t) \<Rightarrow> Some (Inl e, t)
     | (Inr _, t) \<Rightarrow>
         (case loopCheck E t of
            None \<Rightarrow> None
          | Some (r, u) \<Rightarrow> (case r of Inl e \<Rightarrow> Some (Inl e, u) | Inr _ \<Rightarrow> checkerService E ckID st u)))"

end
