(* ===== verification/Kv_Store.thy ===== *)
theory Kv_Store
  imports Checker_Client
begin

section \<open>What a correct cluster answers\<close>

text \<open>
  The checker takes a cluster for a map from keys to values. Here that map is read off the trace
  of a client (\<open>store_of\<close>): a command that succeeded has its effect, a redirection and any other
  error has none. A cluster is \<open>honest\<close> for a set of keys, those nobody else writes, if every
  read of such keys that succeeds returns what is stored. Which node a key lives on, and whether a command fails, is left open.
\<close>

type_synonym store = "string \<rightharpoonup> string"

fun apply_pairs :: "string list \<Rightarrow> store \<Rightarrow> store" where
  "apply_pairs (k # v # rest) st = apply_pairs rest (st(k \<mapsto> v))"
| "apply_pairs _ st = st"

fun apply_cmd :: "command \<Rightarrow> store \<Rightarrow> store" where
  "apply_cmd (CSet k v) st = st(k \<mapsto> v)"
| "apply_cmd (CDel ks) st = st |` (- set ks)"
| "apply_cmd (CMSet kvs) st = apply_pairs kvs st"
| "apply_cmd (CEval script ks vs) st = (if script = luaMSetScript then st ++ map_of (rev (zip ks vs)) else st)"
| "apply_cmd _ st = st"

definition store_of :: "sent list \<Rightarrow> store" where
  "store_of tr = foldl (\<lambda>st s. case s of Sent a c r \<Rightarrow> (case r of Inr _ \<Rightarrow> apply_cmd c st | Inl _ \<Rightarrow> st)) Map.empty tr"

fun reply_of :: "string option \<Rightarrow> reply" where
  "reply_of None = RNil"
| "reply_of (Some s) = RString s"

fun keys_read :: "command \<Rightarrow> string list" where
  "keys_read (CGet k) = [k]"
| "keys_read (CMGet ks) = ks"
| "keys_read (CEval script ks vs) = (if script = luaMGetScript then ks else [])"
| "keys_read _ = []"

fun answer_ok :: "store \<Rightarrow> command \<Rightarrow> redis_error + reply \<Rightarrow> bool" where
  "answer_ok st (CGet k) (Inr v) = (\<exists>s. st k = Some s \<and> v = RString s)"
| "answer_ok st (CGet k) (Inl RedisNil) = (st k = None)"
| "answer_ok st (CMGet ks) (Inr v) = (v = RList (map (\<lambda>k. reply_of (st k)) ks))"
| "answer_ok st (CEval script ks vs) (Inr v) =
    (script = luaMGetScript \<longrightarrow> v = RList (map (\<lambda>k. reply_of (st k)) ks))"
| "answer_ok st _ _ = True"

definition honest :: "net \<Rightarrow> string set \<Rightarrow> bool" where
  "honest net K \<longleftrightarrow>
    (\<forall>tr a cmd. set (keys_read cmd) \<subseteq> K \<longrightarrow> answer_ok (store_of tr) cmd (net tr a cmd))"

lemma honestD: "honest net K \<Longrightarrow> set (keys_read cmd) \<subseteq> K \<Longrightarrow> answer_ok (store_of tr) cmd (net tr a cmd)"
  by (simp add: honest_def)

lemma store_of_Nil [simp]: "store_of [] = Map.empty"
  by (simp add: store_of_def)

lemma store_of_snoc [simp]:
  "store_of (tr @ [Sent a c (Inr v)]) = apply_cmd c (store_of tr)"
  "store_of (tr @ [Sent a c (Inl e)]) = store_of tr"
  by (simp_all add: store_of_def)

lemma apply_pairs_concat:
  "apply_pairs (concat (map (\<lambda>(k, v). [k, v]) kvs)) st = st ++ map_of (rev kvs)"
  by (induction kvs arbitrary: st) (auto simp: map_add_def fun_eq_iff split: option.splits)

lemma lua_scripts_differ: "luaMGetScript \<noteq> luaMSetScript"
  by (simp add: luaMGetScript_def luaMSetScript_def)

subsection \<open>Commands sent with redirections\<close>

text \<open>
  However many redirections there were, a command that succeeds has its effect once, and its
  result is an answer to the store it met.
\<close>

lemma chain_store:
  assumes "redirect_chain cmd a hops" and "answered net tr hops" and "chain_result tried hops = Inr (v, b)"
  shows "store_of (tr @ hops) = apply_cmd cmd (store_of tr) \<and>
    (\<exists>tr'. store_of tr' = store_of tr \<and> net tr' b cmd = Inr v)"
  using assms
proof (induction hops arbitrary: tr a tried)
  case Nil
  then show ?case by simp
next
  case (Cons h rest)
  obtain b' c r where h: "h = Sent b' c r" by (cases h)
  show ?case
  proof (cases rest)
    case Nil
    then show ?thesis using Cons.prems h by (auto split: sum.splits)
  next
    case (Cons h' rest')
    then obtain e a' where r: "r = Inl e" "redirect_chain cmd a' rest"
      using Cons.prems(1) h by (auto split: sum.splits)
    have "chain_result (tried @ [sent_address (hd rest)]) rest = Inr (v, b)"
      using Cons.prems(3) h Cons by simp
    from Cons.IH [OF r(2) _ this, of "tr @ [h]"] show ?thesis
      using Cons.prems(2) h r(1) by auto
  qed
qed

lemma chain_store_nil:
  assumes "redirect_chain cmd a hops" and "answered net tr hops"
    and "chain_result tried hops = Inl (FromRedis RedisNil, b)"
  shows "store_of (tr @ hops) = store_of tr \<and>
    (\<exists>tr' a'. store_of tr' = store_of tr \<and> net tr' a' cmd = Inl RedisNil)"
  using assms
proof (induction hops arbitrary: tr a tried)
  case Nil
  then show ?case by simp
next
  case (Cons h rest)
  obtain b' c r where h: "h = Sent b' c r" by (cases h)
  show ?case
  proof (cases rest)
    case Nil
    then obtain e where "r = Inl e" "parseMoved e = Inl (FromRedis RedisNil)"
      using Cons.prems h by (auto split: sum.splits)
    moreover from this(2) have "e = RedisNil"
      by (auto simp: parseMoved_def Let_def split: if_splits)
    moreover have "r = net tr a cmd" "b' = a" "c = cmd" using Cons.prems(1,2) h by simp_all
    ultimately show ?thesis using Nil h store_of_snoc(2) [of tr a cmd RedisNil] by (intro conjI exI) simp_all
  next
    case (Cons h' rest')
    then obtain e a' where r: "r = Inl e" "redirect_chain cmd a' rest"
      using Cons.prems(1) h by (auto split: sum.splits)
    have "chain_result (tried @ [sent_address (hd rest)]) rest = Inl (FromRedis RedisNil, b)"
      using Cons.prems(3) h Cons by simp
    from Cons.IH [OF r(2) _ this, of "tr @ [h]"] show ?thesis
      using Cons.prems(2) h r(1) by auto
  qed
qed

lemma chain_no_panic: "chain_result tried hops \<noteq> Inl (ClientPanic, b)"
  by (induction tried hops rule: chain_result.induct)
    (auto simp: parseMoved_def Let_def split: sum.splits if_splits)

text \<open>\<open>sent_from w f w'\<close>: commands were sent from \<open>w\<close> to \<open>w'\<close> and changed the store by \<open>f\<close>.\<close>

definition sent_from :: "'z client_state_scheme \<Rightarrow> (store \<Rightarrow> store) \<Rightarrow> 'z client_state_scheme \<Rightarrow> bool" where
  "sent_from w f w' \<longleftrightarrow> (\<exists>tr p. w' = w\<lparr>cl_trace := tr, cl_pool := p\<rparr> \<and> pool_ok w' \<and>
    store_of tr = f (store_of (cl_trace w)))"

lemma Exec_store:
  assumes "pool_ok w" and "honest net K" and "set (keys_read cmd) \<subseteq> K"
    and "Exec net False node (process net cmd) w = (res, w')"
  shows "case res of
      Inr (v, b) \<Rightarrow> sent_from w (apply_cmd cmd) w' \<and> answer_ok (store_of (cl_trace w)) cmd (Inr v)
    | Inl (e, b) \<Rightarrow> e \<noteq> ClientPanic \<and>
        (e = FromRedis RedisNil \<longrightarrow> sent_from w id w' \<and> answer_ok (store_of (cl_trace w)) cmd (Inl RedisNil))"
proof -
  obtain hops p where h: "w' = w\<lparr>cl_trace := cl_trace w @ hops, cl_pool := p\<rparr>" "pool_ok w'"
    "redirect_chain cmd node hops" "answered net (cl_trace w) hops" "res = chain_result [node] hops"
    using Exec_chain [OF assms(1,4)] by blast
  show ?thesis
  proof (cases res)
    case (Inr y)
    obtain v b where y: "y = (v, b)" by (cases y)
    obtain tr' where "store_of (cl_trace w @ hops) = apply_cmd cmd (store_of (cl_trace w))"
      "store_of tr' = store_of (cl_trace w)" "net tr' b cmd = Inr v"
      using chain_store [OF h(3,4)] h(5) Inr y by metis
    with honestD [OF assms(2,3), of tr' b] show ?thesis
      using h(1,2) Inr y by (auto simp: sent_from_def)
  next
    case (Inl y)
    obtain e b where y: "y = (e, b)" by (cases y)
    have "sent_from w id w' \<and> answer_ok (store_of (cl_trace w)) cmd (Inl RedisNil)" if "e = FromRedis RedisNil"
    proof -
      have "chain_result [node] hops = Inl (FromRedis RedisNil, b)" using h(5) Inl y that by simp
      from chain_store_nil [OF h(3,4) this]
      obtain tr' a' where "store_of (cl_trace w @ hops) = store_of (cl_trace w)"
        "store_of tr' = store_of (cl_trace w)" "net tr' a' cmd = Inl RedisNil"
        by blast
      with honestD [OF assms(2,3), of tr' a'] show ?thesis
        using h(1,2) by (auto simp: sent_from_def)
    qed
    moreover have "e \<noteq> ClientPanic" using chain_no_panic [of "[node]" hops b] h(5) Inl y by auto
    ultimately show ?thesis using Inl y by simp
  qed
qed

subsection \<open>The operations of the client\<close>

text \<open>
  What a call of the client promises at a state: a condition on its result and the state it
  leaves, or an error that is no panic.
\<close>

definition call_ok ::
  "('z client_state_scheme, client_error \<times> string, 'a) io \<Rightarrow> 'z client_state_scheme \<Rightarrow>
    ('a \<Rightarrow> 'z client_state_scheme \<Rightarrow> bool) \<Rightarrow> bool" where
  "call_ok m w Q \<longleftrightarrow> (case m w of (Inr x, w') \<Rightarrow> Q x w' | (Inl (e, b), w') \<Rightarrow> e \<noteq> ClientPanic)"

lemma string_values_reply: "string_values (map (\<lambda>k. reply_of (f k)) ks) = Some (map f ks)"
proof (induction ks)
  case (Cons k ks)
  then show ?case by (cases "f k") simp_all
qed simp

lemma write_ok:
  assumes "pool_ok w" and "honest net K" and "keys_read cmd = []" and "apply_cmd cmd = f"
  shows "call_ok (bindE (Exec net False node (process net cmd)) (\<lambda>(_, address). returnE address)) w
    (\<lambda>_. sent_from w f)"
proof -
  obtain res w' where ex: "Exec net False node (process net cmd) w = (res, w')" by fastforce
  from Exec_store [OF assms(1,2) _ ex] assms(3,4) show ?thesis
    by (auto simp: call_ok_def bindE_def ex split: sum.splits)
qed

lemma read_ok:
  assumes "pool_ok w" and "honest net K" and "set ks \<subseteq> K" and "keys_read cmd = ks" and "apply_cmd cmd = id"
    and "\<And>st v. answer_ok st cmd (Inr v) \<Longrightarrow> v = RList (map (\<lambda>k. reply_of (st k)) ks)"
  shows "call_ok (bindE (Exec net False node (process net cmd)) list_result) w
    (\<lambda>(vs, _) w'. sent_from w id w' \<and> vs = map (store_of (cl_trace w)) ks)"
proof -
  obtain res w' where ex: "Exec net False node (process net cmd) w = (res, w')" by fastforce
  from Exec_store [OF assms(1,2) _ ex] assms(3-5) show ?thesis
    by (auto simp: call_ok_def bindE_def ex list_result_def string_values_reply
        split: sum.splits dest!: assms(6))
qed

lemma client_Set_ok:
  assumes "pool_ok w" and "honest net K"
  shows "call_ok (client_Set net False node k v) w (\<lambda>_. sent_from w (\<lambda>st. st(k \<mapsto> v)))"
  unfolding client_Set_def by (rule write_ok [OF assms]) (simp_all add: fun_eq_iff)

lemma client_Del_ok:
  assumes "pool_ok w" and "honest net K"
  shows "call_ok (client_Del net False node ks) w (\<lambda>_. sent_from w (\<lambda>st. st |` (- set ks)))"
  unfolding client_Del_def by (rule write_ok [OF assms]) (simp_all add: fun_eq_iff)

lemma client_MSet_ok:
  assumes "pool_ok w" and "honest net K"
  shows "call_ok (client_MSet net False node kvs) w (\<lambda>_. sent_from w (apply_pairs kvs))"
  unfolding client_MSet_def by (rule write_ok [OF assms]) (simp_all add: fun_eq_iff)

lemma client_luaMSet_ok:
  assumes "pool_ok w" and "honest net K"
  shows "call_ok (client_luaMSet net False node ks vs) w (\<lambda>_. sent_from w (\<lambda>st. st ++ map_of (rev (zip ks vs))))"
  unfolding client_luaMSet_def
  by (rule write_ok [OF assms]) (use lua_scripts_differ in \<open>auto simp: fun_eq_iff\<close>)

lemma client_MGet_ok:
  assumes "pool_ok w" and "honest net K" and "set ks \<subseteq> K"
  shows "call_ok (client_MGet net False node ks) w
    (\<lambda>(vs, _) w'. sent_from w id w' \<and> vs = map (store_of (cl_trace w)) ks)"
  unfolding client_MGet_def by (rule read_ok [OF assms]) (simp_all add: fun_eq_iff)

lemma client_LuaMGet_ok:
  assumes "pool_ok w" and "honest net K" and "set ks \<subseteq> K"
  shows "call_ok (client_LuaMGet net False node ks) w
    (\<lambda>(vs, _) w'. sent_from w id w' \<and> vs = map (store_of (cl_trace w)) ks)"
  unfolding client_LuaMGet_def by (rule read_ok [OF assms]) (simp_all add: fun_eq_iff lua_scripts_differ)

lemma client_Get_ok:
  assumes "pool_ok w" and "honest net K" and "k \<in> K"
  shows "call_ok (client_Get net False node k) w (\<lambda>(v, _) w'. sent_from w id w' \<and> v = store_of (cl_trace w) k)"
proof -
  obtain res w' where ex: "Exec net False node (process net (CGet k)) w = (res, w')" by fastforce
  have "apply_cmd (CGet k) = id" by (simp add: fun_eq_iff)
  with Exec_store [OF assms(1,2) _ ex] assms(3) show ?thesis
    by (auto simp: call_ok_def client_Get_def tryE_def ex split: sum.splits reply.splits)
qed

subsection \<open>An honest cluster\<close>

text \<open>Two nodes; the first one redirects every command to the second one, which answers.\<close>

fun store_answer :: "store \<Rightarrow> command \<Rightarrow> redis_error + reply" where
  "store_answer st (CGet k) = (case st k of None \<Rightarrow> Inl RedisNil | Some s \<Rightarrow> Inr (RString s))"
| "store_answer st (CMGet ks) = Inr (RList (map (\<lambda>k. reply_of (st k)) ks))"
| "store_answer st (CEval script ks vs) =
    Inr (if script = luaMGetScript then RList (map (\<lambda>k. reply_of (st k)) ks) else RString ''OK'')"
| "store_answer st _ = Inr (RString ''OK'')"

definition store_net :: net where
  "store_net tr a cmd =
    (if a = ''a:1'' then Inl (RedisErr ''MOVED 7 b:1'') else store_answer (store_of tr) cmd)"

lemma store_net_honest: "honest store_net K"
proof -
  have "answer_ok st cmd (store_answer st cmd)" for st cmd
    by (cases cmd) (auto split: option.splits)
  moreover have "answer_ok st cmd (Inl (RedisErr e))" for st cmd e
    by (cases cmd) simp_all
  ultimately show ?thesis by (simp add: honest_def store_net_def)
qed

end
