(* ===== verification/Kv_Loop.thy ===== *)
theory Kv_Loop
  imports Kv_Checker Kv_Store
begin

section \<open>The checker's loop ends\<close>

text \<open>
  Every operation makes finitely many choices and only ever counts them up, so the loop sees the
  end of its context after finitely many rounds, whatever the cluster answers.
\<close>

definition client_frame :: "('z client_state_scheme, 'e, 'a) io \<Rightarrow> bool" where
  "client_frame m \<longleftrightarrow> (\<forall>w. \<exists>tr p. snd (m w) = w\<lparr>cl_trace := tr, cl_pool := p\<rparr>)"

lemma frame_bind:
  assumes "client_frame m" and "\<And>x. client_frame (f x)"
  shows "client_frame (bindE m f)"
  unfolding client_frame_def
proof
  fix w
  obtain r t where m: "m w = (r, t)" by fastforce
  obtain tr p where t: "t = w\<lparr>cl_trace := tr, cl_pool := p\<rparr>"
    using assms(1) m unfolding client_frame_def by (metis snd_conv)
  show "\<exists>tr p. snd (bindE m f w) = w\<lparr>cl_trace := tr, cl_pool := p\<rparr>"
  proof (cases r)
    case (Inl e)
    then show ?thesis using m t by (auto simp: bindE_def)
  next
    case (Inr x)
    obtain tr' p' where "snd (f x t) = t\<lparr>cl_trace := tr', cl_pool := p'\<rparr>"
      using assms(2) [of x] unfolding client_frame_def by blast
    then show ?thesis using m t Inr by (auto simp: bindE_def)
  qed
qed

lemma frame_try:
  assumes "client_frame m" and "\<And>x. client_frame (f x)"
  shows "client_frame (tryE m f)"
  unfolding client_frame_def
proof
  fix w
  obtain r t where m: "m w = (r, t)" by fastforce
  obtain tr p where t: "t = w\<lparr>cl_trace := tr, cl_pool := p\<rparr>"
    using assms(1) m unfolding client_frame_def by (metis snd_conv)
  obtain tr' p' where "snd (f r t) = t\<lparr>cl_trace := tr', cl_pool := p'\<rparr>"
    using assms(2) [of r] unfolding client_frame_def by blast
  then show "\<exists>tr p. snd (tryE m f w) = w\<lparr>cl_trace := tr, cl_pool := p\<rparr>"
    using m t by (auto simp: tryE_def)
qed

lemma frame_same:
  assumes "\<And>w. snd (m w) = w"
  shows "client_frame m"
  unfolding client_frame_def
proof
  fix w
  have "snd (m w) = w\<lparr>cl_trace := cl_trace w, cl_pool := cl_pool w\<rparr>" using assms by simp
  then show "\<exists>tr p. snd (m w) = w\<lparr>cl_trace := tr, cl_pool := p\<rparr>" by blast
qed

lemma frame_return: "client_frame (returnE x)"
  by (rule frame_same) simp

lemma frame_throw: "client_frame (throwE e)"
  by (rule frame_same) simp

lemma frame_process: "client_frame (process net cmd c)"
  unfolding client_frame_def
proof
  fix w :: "'a client_state_scheme"
  obtain a where c: "c = Conn a" by (cases c)
  have "snd (process net cmd c w) = w\<lparr>cl_trace := cl_trace w @ [Sent a cmd (net (cl_trace w) a cmd)], cl_pool := cl_pool w\<rparr>"
    by (simp add: c)
  then show "\<exists>tr p. snd (process net cmd c w) = w\<lparr>cl_trace := tr, cl_pool := p\<rparr>" by blast
qed

lemma frame_getOrCreateClient: "client_frame (getOrCreateClient a)"
  unfolding client_frame_def
proof
  fix w :: "'a client_state_scheme"
  have "\<exists>p. snd (getOrCreateClient a w) = w\<lparr>cl_trace := cl_trace w, cl_pool := p\<rparr>"
  proof (cases "cl_pool w a")
    case None
    then show ?thesis by (intro exI [of _ "(cl_pool w)(a \<mapsto> Conn a)"]) (simp add: getOrCreateClient_def)
  next
    case (Some c)
    then show ?thesis by (intro exI [of _ "cl_pool w"]) (simp add: getOrCreateClient_def)
  qed
  then show "\<exists>tr p. snd (getOrCreateClient a w) = w\<lparr>cl_trace := tr, cl_pool := p\<rparr>" by blast
qed

lemma frame_cases:
  "\<And>x f g. (\<And>a. client_frame (f a)) \<Longrightarrow> (\<And>b. client_frame (g b)) \<Longrightarrow> client_frame (case x of Inl a \<Rightarrow> f a | Inr b \<Rightarrow> g b)"
  "\<And>x f. (\<And>a b. client_frame (h a b)) \<Longrightarrow> client_frame (case y of (a, b) \<Rightarrow> h a b)"
  "\<And>b m n. client_frame m \<Longrightarrow> client_frame n \<Longrightarrow> client_frame (if b then m else n)"
  by (auto split: sum.splits prod.splits)

lemmas frame_intros = frame_bind frame_try frame_return frame_throw frame_process frame_getOrCreateClient frame_cases

lemma frame_execLoop: "client_frame (execLoop net debug (process net cmd) left tried infos a c)"
proof (induction left arbitrary: tried infos a c)
  case 0
  then show ?case unfolding execLoop.simps by (rule frame_throw)
next
  case (Suc left)
  show ?case unfolding execLoop.simps sendUmctlInfo_def by (intro frame_intros Suc.IH)
qed

lemma frame_Exec: "client_frame (Exec net debug node (process net cmd))"
  unfolding Exec_def by (intro frame_intros frame_execLoop)

lemma frame_list_result: "client_frame (list_result x)"
  unfolding list_result_def
  by (auto intro!: frame_intros split: prod.splits reply.splits option.splits simp del: returnE_run throwE_run)

lemma frame_commands:
  "client_frame (client_Get net debug node k)"
  "client_frame (client_Set net debug node k v)"
  "client_frame (client_Del net debug node ks)"
  "client_frame (client_MGet net debug node ks)"
  "client_frame (client_MSet net debug node kvs)"
  "client_frame (client_LuaMGet net debug node ks)"
  "client_frame (client_luaMSet net debug node ks vs)"
  unfolding client_Get_def client_Set_def client_Del_def client_MGet_def client_MSet_def client_LuaMGet_def client_luaMSet_def
  by (auto intro!: frame_bind frame_try frame_return frame_throw frame_Exec frame_list_result
      split: prod.splits sum.splits reply.splits simp del: returnE_run throwE_run)

subsection \<open>Counting choices\<close>

definition counts_up :: "'a kv \<Rightarrow> bool" where
  "counts_up m \<longleftrightarrow> (\<forall>w. kv_tick w \<le> kv_tick (snd (m w)))"

named_theorems counts_up "operations that never count down"

lemma counts_up_bind [counts_up]:
  assumes "counts_up m" and "\<And>x. counts_up (f x)"
  shows "counts_up (bindE m f)"
  unfolding counts_up_def
proof
  fix w
  obtain r t where m: "m w = (r, t)" by fastforce
  then have "kv_tick w \<le> kv_tick t" using assms(1) unfolding counts_up_def by (metis snd_conv)
  moreover have "kv_tick t \<le> kv_tick (snd (f x t))" for x using assms(2) unfolding counts_up_def by blast
  ultimately show "kv_tick w \<le> kv_tick (snd (bindE m f w))"
    using m by (cases r) (auto simp: bindE_def intro: order_trans)
qed

lemma counts_up_simple [counts_up]:
  "counts_up (returnE x)" "counts_up (throwE e)" "counts_up (getsE g)" "counts_up (choice h)"
  by (simp_all add: counts_up_def choice_def)

lemma counts_up_modify [counts_up]: "(\<And>w. kv_tick (g w) = kv_tick w) \<Longrightarrow> counts_up (modifyE g)"
  by (simp add: counts_up_def)

lemma counts_up_if [counts_up]: "counts_up m \<Longrightarrow> counts_up n \<Longrightarrow> counts_up (if b then m else n)"
  by simp

lemma counts_up_prod [counts_up]: "(\<And>a b. counts_up (f a b)) \<Longrightarrow> counts_up (case x of (a, b) \<Rightarrow> f a b)"
  by (cases x) simp

lemma counts_up_option [counts_up]:
  "counts_up m \<Longrightarrow> (\<And>x. counts_up (f x)) \<Longrightarrow> counts_up (case v of None \<Rightarrow> m | Some x \<Rightarrow> f x)"
  by (cases v) simp_all

lemma counts_up_foreach [counts_up]: "(\<And>x. counts_up (f x)) \<Longrightarrow> counts_up (foreachE f xs)"
  by (induction xs) (auto intro: counts_up simp del: returnE_run)

lemma counts_up_onClient [counts_up]:
  assumes "\<And>net node. client_frame (cmd net False node)"
  shows "counts_up (onClient cmd E)"
  unfolding counts_up_def
proof
  fix w
  obtain r t where m: "cmd (ke_net E) False (kv_startupNode w) w = (r, t)" by fastforce
  obtain tr p where "snd (cmd (ke_net E) False (kv_startupNode w) w) = w\<lparr>cl_trace := tr, cl_pool := p\<rparr>"
    using assms [of "ke_net E" "kv_startupNode w"] unfolding client_frame_def by blast
  then have "kv_tick t = kv_tick w" using m by simp
  then show "kv_tick w \<le> kv_tick (snd (onClient cmd E w))"
    using m by (auto simp: onClient_def tryE_def split: sum.splits)
qed

lemma counts_up_loops [counts_up]:
  "counts_up (waitN E n)" "counts_up (chooseSlotFromNormDist E)" "counts_up (ranged E m)"
  "counts_up (randomGetKey E m)" "counts_up (getKeys E m)" "counts_up (genNewValue E k)" "counts_up (setKey slot k v)"
  unfolding waitN_def chooseSlotFromNormDist_def randomGetKey_def getKeys_def genNewValue_def setKey_def ranged_def Let_def
  by (intro counts_up; simp)+

lemma counts_up_randomChooseKeysInSameSlot [counts_up]: "counts_up (randomChooseKeysInSameSlot E n)"
  unfolding randomChooseKeysInSameSlot_def by (intro counts_up)

lemma counts_up_chooseKeysLoop [counts_up]: "counts_up (chooseKeysLoop E n keys)"
proof (induction n arbitrary: keys)
  case 0
  then show ?case unfolding chooseKeysLoop.simps by (intro counts_up)
next
  case (Suc n)
  show ?case unfolding chooseKeysLoop.simps by (intro counts_up Suc.IH)
qed

lemma counts_up_randomChooseKeys [counts_up]: "counts_up (randomChooseKeys E n)"
  unfolding randomChooseKeys_def by (intro counts_up)

lemma counts_up_newValues [counts_up]: "counts_up (newValues E m)"
proof (induction m)
  case Nil
  then show ?case unfolding newValues.simps by (intro counts_up)
next
  case (Cons kv m)
  then show ?case by (cases kv) (auto intro!: counts_up simp del: returnE_run)
qed

lemma counts_up_mgetLoop [counts_up]: "counts_up (mgetLoop kvs address ks vs err)"
  by (induction kvs address ks vs err rule: mgetLoop.induct)
    (auto simp: Let_def counts_up simp del: returnE_run throwE_run split: option.splits)

lemma counts_up_luaMGetLoop [counts_up]: "counts_up (luaMGetLoop v ks vs err)"
  by (induction v ks vs err rule: luaMGetLoop.induct)
    (auto simp: Let_def counts_up simp del: returnE_run throwE_run split: option.splits)

lemma counts_up_checkKeyValue: "counts_up (checkKeyValue E)"
  unfolding checkKeyValue_def checkSet_def checkMSet_def checkGet_def checkMGet_def checkDel_def checkLuaMSet_def
    checkLuaMGet_def Let_def
  by (intro counts_up frame_commands) simp

subsection \<open>The loop\<close>

lemma loopCheck_returns:
  assumes "\<And>n. n \<ge> N \<Longrightarrow> ke_done E n"
  shows "\<exists>e w'. loopCheck E w = Some (Inl e, w')"
proof (induction "N - kv_tick w" arbitrary: w rule: less_induct)
  case less
  let ?t = "w\<lparr>kv_tick := Suc (kv_tick w)\<rparr>"
  obtain q u where run: "checkKeyValue E ?t = (q, u)" by (cases "checkKeyValue E ?t")
  show ?case
  proof (cases "ke_done E (kv_tick w)")
    case True
    then show ?thesis by (simp add: loopCheck.simps choice_def)
  next
    case False
    then have "kv_tick w < N" using assms by (meson not_less)
    moreover have "Suc (kv_tick w) \<le> kv_tick u"
      using counts_up_checkKeyValue [of E, unfolded counts_up_def, rule_format, of ?t] run by simp
    ultimately have "N - kv_tick u < N - kv_tick w" by simp
    from less [OF this] show ?thesis
      using False run by (cases q) (auto simp: loopCheck.simps [of E w] choice_def)
  qed
qed

lemma loopCheck_error:
  assumes "loopCheck E w = Some y"
  shows "\<exists>e. fst y = Inl e"
  using assms
proof (induction rule: loopCheck.raw_induct [rotated -1, consumes 1, case_names step])
  case (step loop E w y)
  then show ?case by (cases y) (auto simp: choice_def split: prod.splits sum.splits if_splits)
qed

text \<open>
  C34: The goroutine of a checker runs the loop of one checker: it returns when that loop returns,
  always with an error, so a checker is never renewed; and it does return once its context stays
  done, whatever the cluster answers and whatever was chosen.
\<close>

theorem checkerService_ends:
  assumes "newKVChecker E ckID st w = (Inr (), w0)"
  shows "checkerService E ckID st w = loopCheck E w0 \<and>
    (\<forall>r w'. loopCheck E w0 = Some (r, w') \<longrightarrow> (\<exists>e. r = Inl e)) \<and>
    ((\<exists>N. \<forall>n \<ge> N. ke_done E n) \<longrightarrow> (\<exists>e w'. loopCheck E w0 = Some (Inl e, w')))"
proof -
  have error: "\<exists>e. r = Inl e" if "loopCheck E w0 = Some (r, w')" for r w'
    using loopCheck_error [OF that] by simp
  then have "checkerService E ckID st w = loopCheck E w0"
    using assms by (cases "loopCheck E w0") (fastforce simp: checkerService.simps [of E ckID st w])+
  with error loopCheck_returns [of _ E w0] show ?thesis by blast
qed

text \<open>A checker that runs against \<open>store_net\<close> until a thousand choices are made.\<close>

definition kv_sample_env :: kv_env where
  "kv_sample_env = \<lparr>ke_net = store_net, ke_rand = (\<lambda>n. n), ke_norm = int, ke_order = (\<lambda>n m. m),
     ke_nano = int, ke_second = (\<lambda>n. n mod 60), ke_uuid = (\<lambda>n. show_nat n),
     ke_wait = (\<lambda>t n. None), ke_done = (\<lambda>n. n > 1000)\<rparr>"

definition kv_start :: kv_state where
  "kv_start = \<lparr>cl_trace = [], cl_pool = Map.empty, kv_startupNode = ''a:1'', kv_keys = (\<lambda>_. []),
     kv_luaKeys = [], kv_luaValue = [], kv_tick = 0\<rparr>"

lemma genLuaKeys_returns: "\<exists>ks u. genLuaKeys E t ckID is w = (Inr ks, u)"
proof (induction "is" arbitrary: w)
  case (Cons i "is")
  from Cons.IH [of "w\<lparr>kv_tick := Suc (kv_tick w)\<rparr>"] show ?case
    by (auto simp: bindE_def genLuaKey_def choice_def)
qed simp

lemma newKVChecker_returns: "\<exists>w0. newKVChecker E ckID st w = (Inr (), w0)"
proof -
  obtain ks u where "genLuaKeys E (ke_nano E (kv_tick w)) ckID [0..<10] (w\<lparr>kv_tick := Suc (kv_tick w)\<rparr>) = (Inr ks, u)"
    using genLuaKeys_returns by blast
  then show ?thesis by (simp add: newKVChecker_def bindE_def choice_def del: upt_rec_numeral)
qed

theorem checkerService_ends_witness:
  "\<forall>st. \<exists>w0 e w'. newKVChecker kv_sample_env 1 st kv_start = (Inr (), w0) \<and>
    checkerService kv_sample_env 1 st kv_start = Some (Inl e, w')"
proof
  fix st
  obtain w0 where w0: "newKVChecker kv_sample_env 1 st kv_start = (Inr (), w0)"
    using newKVChecker_returns by blast
  have "\<exists>N. \<forall>n \<ge> N. ke_done kv_sample_env n"
    by (rule exI [of _ 1001]) (simp add: kv_sample_env_def)
  with checkerService_ends [OF w0] w0
  show "\<exists>w0 e w'. newKVChecker kv_sample_env 1 st kv_start = (Inr (), w0) \<and>
      checkerService kv_sample_env 1 st kv_start = Some (Inl e, w')" by metis
qed

end
