(* ===== verification/Kv_Safety.thy ===== *)
theory Kv_Safety
  imports Kv_Loop "HOL-Library.Multiset"
begin

section \<open>The checker raises no false alarm\<close>

text \<open>
  A Hoare logic for the checker's operations: \<open>kvt P m Q\<close> says that from a state with \<open>P\<close> a
  run of \<open>m\<close> that returns ends in \<open>Q\<close>, and that an error it ends with is no false alarm. The
  conditions are on the state without the count of choices, so that choices keep them. The
  invariant says that the values the checker expects are those of the store.
\<close>

fun false_alarm :: "kv_error \<Rightarrow> bool" where
  "false_alarm (Inconsistent k s expected address) = True"
| "false_alarm (InconsistentLua k s expected) = True"
| "false_alarm (InvalidLen m n) = True"
| "false_alarm KvPanic = True"
| "false_alarm (ClientErr e) = (e = ClientPanic)"
| "false_alarm _ = False"

definition core :: "kv_state \<Rightarrow> kv_state" where
  "core w = w\<lparr>kv_tick := 0\<rparr>"

lemma core_simps [simp]:
  "core (w\<lparr>kv_tick := n\<rparr>) = core w"
  "cl_trace (core w) = cl_trace w" "cl_pool (core w) = cl_pool w" "kv_keys (core w) = kv_keys w"
  "kv_luaKeys (core w) = kv_luaKeys w" "kv_luaValue (core w) = kv_luaValue w"
  by (simp_all add: core_def)

definition kvt :: "(kv_state \<Rightarrow> bool) \<Rightarrow> 'a kv \<Rightarrow> ('a \<Rightarrow> kv_state \<Rightarrow> bool) \<Rightarrow> bool" where
  "kvt P m Q \<longleftrightarrow> (\<forall>w. P (core w) \<longrightarrow>
    (case m w of (Inr x, w') \<Rightarrow> Q x (core w') | (Inl e, w') \<Rightarrow> \<not> false_alarm e))"

lemma kvt_bind:
  assumes "kvt P m R" and "\<And>x. kvt (R x) (f x) Q"
  shows "kvt P (bindE m f) Q"
  unfolding kvt_def
proof (intro allI impI)
  fix w assume P: "P (core w)"
  obtain r w' where m: "m w = (r, w')" by (cases "m w")
  show "case bindE m f w of (Inr x, w') \<Rightarrow> Q x (core w') | (Inl e, w') \<Rightarrow> \<not> false_alarm e"
  proof (cases r)
    case (Inl e)
    then show ?thesis using assms(1) [unfolded kvt_def, rule_format, OF P] m by (simp add: bindE_def)
  next
    case (Inr x)
    then have "R x (core w')" using assms(1) [unfolded kvt_def, rule_format, OF P] m by simp
    from assms(2) [unfolded kvt_def, rule_format, OF this] show ?thesis
      using m Inr by (simp add: bindE_def)
  qed
qed

lemma kvt_pre: "kvt P' m Q \<Longrightarrow> (\<And>w. P w \<Longrightarrow> P' w) \<Longrightarrow> kvt P m Q"
  by (auto simp: kvt_def)

lemma kvt_post: "kvt P m Q' \<Longrightarrow> (\<And>x w. Q' x w \<Longrightarrow> Q x w) \<Longrightarrow> kvt P m Q"
  unfolding kvt_def by (fastforce split: prod.splits sum.splits)

lemma kvt_each: "(\<And>c. P c \<Longrightarrow> kvt (\<lambda>w. w = c) m Q) \<Longrightarrow> kvt P m Q"
  by (simp add: kvt_def)

lemma kvt_case_prod: "(\<And>a b. kvt (P a b) (f a b) Q) \<Longrightarrow> kvt (case x of (a, b) \<Rightarrow> P a b) (case x of (a, b) \<Rightarrow> f a b) Q"
  by (cases x) simp

lemma kvt_if: "(b \<Longrightarrow> kvt P m Q) \<Longrightarrow> (\<not> b \<Longrightarrow> kvt P n Q) \<Longrightarrow> kvt P (if b then m else n) Q"
  by simp

lemma kvt_return: "(\<And>w. P w \<Longrightarrow> Q x w) \<Longrightarrow> kvt P (returnE x) Q"
  by (simp add: kvt_def)

lemma kvt_throw: "\<not> false_alarm e \<Longrightarrow> kvt P (throwE e) Q"
  by (simp add: kvt_def)

lemma kvt_never: "(\<And>w. \<not> P w) \<Longrightarrow> kvt P m Q"
  by (simp add: kvt_def)

lemma kvt_gets: "(\<And>w. f (core w) = f w) \<Longrightarrow> kvt P (getsE f) (\<lambda>x w. P w \<and> x = f w)"
  by (simp add: kvt_def)

lemma kvt_at:
  assumes "\<And>w. P w \<Longrightarrow> w = c \<and> F" and "F \<Longrightarrow> kvt (\<lambda>w. w = c) m Q"
  shows "kvt P m Q"
proof (rule kvt_each)
  fix c' assume "P c'"
  from assms(1) [OF this] assms(2) show "kvt (\<lambda>w. w = c') m Q" by simp
qed

lemma kvt_bind_gets:
  assumes "\<And>w. f (core w) = f w" and "\<And>x. kvt (\<lambda>w. P w \<and> x = f w) (m x) Q"
  shows "kvt P (bindE (getsE f) m) Q"
  by (rule kvt_bind, rule kvt_gets) (rule assms)+

lemma kvt_gets_at:
  assumes "\<And>w. f (core w) = f w" and "kvt (\<lambda>w. w = c) (m (f c)) Q"
  shows "kvt (\<lambda>w. w = c) (bindE (getsE f) m) Q"
proof (rule kvt_bind_gets)
  fix x show "kvt (\<lambda>w. w = c \<and> x = f w) (m x) Q"
    by (rule kvt_at [where c = c and F = "x = f c"]) (use assms(2) in auto)
qed (rule assms(1))

lemma kvt_modify:
  "(\<And>w. core (f w) = f (core w)) \<Longrightarrow> (\<And>w. P w \<Longrightarrow> Q () (f w)) \<Longrightarrow> kvt P (modifyE f) Q"
  by (simp add: kvt_def)

lemma kvt_choice: "kvt P (choice f) (\<lambda>_. P)"
  by (simp add: kvt_def choice_def)

lemma kvt_foreach:
  "(\<And>x. x \<in> set xs \<Longrightarrow> kvt I (f x) (\<lambda>_. I)) \<Longrightarrow> kvt I (foreachE f xs) (\<lambda>_. I)"
  by (induction xs) (auto intro: kvt_return kvt_bind)

lemma kvt_wait: "kvt P (waitN E n) (\<lambda>_. P)"
  unfolding waitN_def
  by (rule kvt_bind, rule kvt_choice) (auto intro: kvt_return kvt_throw split: option.splits)

text \<open>The order in which a map is visited is some order of its entries.\<close>

definition order_law :: "kv_env \<Rightarrow> bool" where
  "order_law E \<longleftrightarrow> (\<forall>n m. mset (ke_order E n m) = mset m)"

lemma kvt_ranged: "order_law E \<Longrightarrow> kvt P (ranged E m) (\<lambda>v w. P w \<and> mset v = mset m)"
  by (simp add: kvt_def ranged_def choice_def order_law_def)

lemma mset_entries:
  assumes "mset v = mset m" and "wf_map m"
  shows "wf_map v" and "set v = set m" and "map_of v = map_of m"
proof -
  have "mset (map fst v) = mset (map fst m)" using assms(1) by simp
  then show wf: "wf_map v" using assms(2) unfolding wf_map_def by (metis mset_eq_imp_distinct_iff)
  show set: "set v = set m" using assms(1) by (rule mset_eq_setD)
  show "map_of v = map_of m"
    using wf set assms(2) by (simp add: wf_map_def map_of_inject_set)
qed

subsection \<open>The invariant\<close>

definition expects :: "kv_state \<Rightarrow> store" where
  "expects w k = map_of (kv_keys w (Slot k)) k"

definition shape :: "string set \<Rightarrow> kv_state \<Rightarrow> bool" where
  "shape K w \<longleftrightarrow> set (kv_luaKeys w) \<subseteq> K \<and>
    (\<forall>s < slotNumber. wf_map (kv_keys w s) \<and> kv_keys w s \<noteq> [] \<and>
      (\<forall>k \<in> dom (map_of (kv_keys w s)). Slot k = s \<and> k \<in> K \<and> k \<notin> set (kv_luaKeys w)))"

text \<open>The values expected, those of \<open>ov\<close> in place of the checker's, are stored.\<close>

definition agrees :: "store \<Rightarrow> store \<Rightarrow> kv_state \<Rightarrow> bool" where
  "agrees st ov w \<longleftrightarrow> (\<forall>k v. (expects w ++ ov) k = Some v \<longrightarrow> nil2Empty (st k) = v) \<and>
    (\<forall>k \<in> set (kv_luaKeys w). nil2Empty (st k) = kv_luaValue w)"

definition kv_inv :: "string set \<Rightarrow> store \<Rightarrow> kv_state \<Rightarrow> bool" where
  "kv_inv K ov w \<longleftrightarrow> shape K w \<and> pool_ok w \<and> agrees (store_of (cl_trace w)) ov w"

lemma nil2Empty_Some [simp]: "nil2Empty (Some v) = v" "nil2Empty None = []"
  by (simp_all add: nil2Empty_def)

lemma expects_shape:
  assumes "shape K w" and "expects w k = Some v"
  shows "k \<in> K" and "k \<notin> set (kv_luaKeys w)"
  using assms Slot_less [of k] by (auto simp: shape_def expects_def)

lemma slot_entry:
  assumes "shape K w" and "(k, v) \<in> set (kv_keys w s)" and "s < slotNumber"
  shows "Slot k = s" and "expects w k = Some v"
proof -
  have m: "map_of (kv_keys w s) k = Some v"
    using assms by (simp add: shape_def wf_map_def)
  then show s: "Slot k = s" using assms(1,3) by (auto simp: shape_def)
  show "expects w k = Some v" using m s by (simp add: expects_def)
qed

lemma core_expects [simp]: "expects (core w) = expects w"
  by (rule ext) (simp add: expects_def)

lemma expects_lua [simp]: "expects (w\<lparr>kv_luaValue := v\<rparr>) = expects w"
  by (rule ext) (simp add: expects_def)

lemma core_inv [simp]: "kv_inv K ov (core w) = kv_inv K ov w"
  by (simp add: kv_inv_def shape_def agrees_def pool_ok_def)

text \<open>Setting the value expected of a key.\<close>

definition with_key :: "string \<Rightarrow> string \<Rightarrow> kv_state \<Rightarrow> kv_state" where
  "with_key k v w = w\<lparr>kv_keys := (kv_keys w)(Slot k := AList.update k v (kv_keys w (Slot k)))\<rparr>"

lemma setKey_run: "Slot k = slot \<Longrightarrow> setKey slot k v w = (Inr (), with_key k v w)"
  by (simp add: setKey_def with_key_def)

lemma core_with_key: "core (with_key k v w) = with_key k v (core w)"
  by (simp add: core_def with_key_def)

lemma expects_with_key: "expects (with_key k v w) = (expects w)(k \<mapsto> v)"
  by (auto simp: expects_def with_key_def fun_eq_iff update_conv)

lemma shape_with_key:
  assumes "shape K w" and "expects w k \<noteq> None"
  shows "shape K (with_key k v w)"
proof -
  have "AList.update k v m \<noteq> []" for m :: "string go_map"
    by (cases m) auto
  then show ?thesis
    using assms by (auto simp: shape_def with_key_def wf_map_def distinct_update update_conv' expects_def)
qed

lemma inv_with_key:
  assumes "kv_inv K (ov(k \<mapsto> v)) w" and "expects w k \<noteq> None" and "k \<notin> dom ov"
  shows "kv_inv K ov (with_key k v w)"
proof -
  have "(expects w)(k \<mapsto> v) ++ ov = expects w ++ ov(k \<mapsto> v)"
    using assms(3) by (auto simp: map_add_def fun_eq_iff domIff split: option.splits)
  then show ?thesis
    using assms(1) shape_with_key [OF _ assms(2)]
    by (simp add: kv_inv_def agrees_def expects_with_key) (simp add: with_key_def pool_ok_def)
qed

lemma sent_fields:
  assumes "sent_from w f w'"
  shows "expects w' = expects w" and "kv_luaKeys w' = kv_luaKeys w" and "kv_luaValue w' = kv_luaValue w"
    and "shape K w' = shape K w" and "pool_ok w'" and "store_of (cl_trace w') = f (store_of (cl_trace w))"
proof -
  obtain tr p where w': "w' = w\<lparr>cl_trace := tr, cl_pool := p\<rparr>" "pool_ok w'" "store_of tr = f (store_of (cl_trace w))"
    using assms by (auto simp: sent_from_def)
  show "expects w' = expects w" by (rule ext) (simp add: w'(1) expects_def)
  show "kv_luaKeys w' = kv_luaKeys w" "kv_luaValue w' = kv_luaValue w" "shape K w' = shape K w"
    "store_of (cl_trace w') = f (store_of (cl_trace w))"
    using w'(3) by (simp_all add: w'(1) shape_def)
  show "pool_ok w'" by (rule w'(2))
qed

lemma inv_sent:
  assumes "kv_inv K ov w" and "sent_from w f w'" and "agrees (f (store_of (cl_trace w))) ov' w"
  shows "kv_inv K ov' w'"
  using assms(1,3) by (simp add: kv_inv_def agrees_def sent_fields [OF assms(2)])

subsection \<open>Keys chosen\<close>

text \<open>Entries of the checker's maps, with the values they have now.\<close>

definition chosen :: "kv_state \<Rightarrow> string go_map \<Rightarrow> bool" where
  "chosen c kvs \<longleftrightarrow> wf_map kvs \<and> (\<forall>k v. map_of kvs k = Some v \<longrightarrow> expects c k = Some v)"

lemma chosen_Nil [simp]: "chosen c []"
  by (simp add: chosen_def wf_map_def)

lemma wf_map_update: "wf_map m \<Longrightarrow> wf_map (AList.update k v m)"
  by (simp add: wf_map_def distinct_update)

lemma chosen_update: "chosen c kvs \<Longrightarrow> expects c k = Some v \<Longrightarrow> chosen c (AList.update k v kvs)"
  by (auto simp: chosen_def wf_map_update update_conv')

lemma chosen_tracked: "chosen c kvs \<Longrightarrow> k \<in> dom (map_of kvs) \<Longrightarrow> expects c k \<noteq> None"
  by (auto simp: chosen_def)

lemma chosen_mset: "chosen c kvs \<Longrightarrow> mset v = mset kvs \<Longrightarrow> chosen c v"
  using mset_entries [of v kvs] by (auto simp: chosen_def)

lemma chosen_entry: "chosen c kvs \<Longrightarrow> (k, v) \<in> set kvs \<Longrightarrow> expects c k = Some v"
  by (simp add: chosen_def wf_map_def)

lemma kvt_chooseSlot:
  "kvt (\<lambda>w. w = c) (chooseSlotFromNormDist E) (\<lambda>slot w. w = c \<and> slot < slotNumber)"
  unfolding chooseSlotFromNormDist_def
  by (rule kvt_bind, rule kvt_choice, rule kvt_return) (auto simp: slotNumber_def)

lemma kvt_returns:
  assumes "\<And>w. P w \<Longrightarrow> F" and "F \<Longrightarrow> m = returnE x" and "\<And>w. P w \<Longrightarrow> Q x w"
  shows "kvt P m Q"
  by (cases F) (use assms in \<open>auto intro: kvt_return kvt_never simp del: returnE_run\<close>)

lemma kvt_randomGetKey:
  assumes "order_law E" and "m \<noteq> []"
  shows "kvt (\<lambda>w. w = c) (randomGetKey E m) (\<lambda>kv w. w = c \<and> kv \<in> set m)"
  unfolding randomGetKey_def
proof (rule kvt_bind, rule kvt_choice)
  fix n
  let ?r = "n mod length m"
  have hit: "?r < length v \<and> v ! ?r \<in> set m" if "mset v = mset m" for v
  proof -
    have "?r < length v" using assms(2) mset_eq_length [OF that] by simp
    with mset_eq_setD [OF that] show ?thesis by (metis nth_mem)
  qed
  have "kvt (\<lambda>w. w = c \<and> mset v = mset m)
      (if ?r < length v then returnE (v ! ?r) else throwE KvPanic) (\<lambda>kv w. w = c \<and> kv \<in> set m)" for v
    by (cases "mset v = mset m") (use hit [of v] in \<open>simp_all add: kvt_def\<close>)
  then show "kvt (\<lambda>w. w = c) (if m = [] then throwE KvPanic
     else let r = ?r in
       bindE (ranged E m) (\<lambda>visited.
         if r < length visited then returnE (visited ! r) else throwE KvPanic)) (\<lambda>kv w. w = c \<and> kv \<in> set m)"
    unfolding Let_def if_not_P [OF assms(2)] by (rule kvt_bind [OF kvt_ranged [OF assms(1)]])
qed

lemma kvt_chooseKeysLoop:
  assumes "order_law E" and "shape K c"
  shows "chosen c kvs \<Longrightarrow> kvt (\<lambda>w. w = c) (chooseKeysLoop E n kvs) (\<lambda>kvs w. w = c \<and> chosen c kvs)"
proof (induction n arbitrary: kvs)
  case 0
  then show ?case unfolding chooseKeysLoop.simps by (intro kvt_return) simp
next
  case (Suc n)
  show ?case unfolding chooseKeysLoop.simps
  proof (rule kvt_bind, rule kvt_chooseSlot, rule kvt_bind, rule kvt_gets)
    fix slot m
    show "kvt (\<lambda>w. (w = c \<and> slot < slotNumber) \<and> m = kv_keys w slot)
      (bindE (randomGetKey E m) (\<lambda>(k, v). chooseKeysLoop E n (AList.update k v kvs)))
      (\<lambda>kvs w. w = c \<and> chosen c kvs)"
    proof (rule kvt_at [where c = c and F = "slot < slotNumber \<and> m = kv_keys c slot"])
      assume F: "slot < slotNumber \<and> m = kv_keys c slot"
      with assms(2) have "m \<noteq> []" by (simp add: shape_def)
      show "kvt (\<lambda>w. w = c)
        (bindE (randomGetKey E m) (\<lambda>(k, v). chooseKeysLoop E n (AList.update k v kvs)))
        (\<lambda>kvs w. w = c \<and> chosen c kvs)"
      proof (rule kvt_bind, rule kvt_randomGetKey [OF assms(1) \<open>m \<noteq> []\<close>])
        fix kv :: "string \<times> string"
        obtain k v where kv: "kv = (k, v)" by (cases kv)
        show "kvt (\<lambda>w. w = c \<and> kv \<in> set m) (case kv of (k, v) \<Rightarrow> chooseKeysLoop E n (AList.update k v kvs))
          (\<lambda>kvs w. w = c \<and> chosen c kvs)"
          unfolding kv prod.case
          by (rule kvt_at [where c = c and F = "(k, v) \<in> set m"])
            (use F slot_entry(2) [OF assms(2)] Suc.IH chosen_update [OF Suc.prems] in auto)
      qed
    qed auto
  qed simp
qed

lemma kvt_randomChooseKeys:
  assumes "order_law E" and "shape K c"
  shows "kvt (\<lambda>w. w = c) (randomChooseKeys E n) (\<lambda>kvs w. w = c \<and> chosen c kvs)"
  unfolding randomChooseKeys_def
  by (cases "n = 0") (simp_all only: if_True if_False refl kvt_return chosen_Nil kvt_chooseKeysLoop [OF assms])

text \<open>Keys of one slot.\<close>

definition same_slot :: "nat \<Rightarrow> string go_map \<Rightarrow> bool" where
  "same_slot slot kvs \<longleftrightarrow> (\<forall>k \<in> dom (map_of kvs). Slot k = slot)"

lemma chooseSameSlotLoop_chosen:
  assumes "chosen c kvs" and "same_slot slot kvs"
    and "\<And>k v. (k, v) \<in> set visited \<Longrightarrow> expects c k = Some v \<and> Slot k = slot"
  shows "chosen c (chooseSameSlotLoop n kvs visited) \<and> same_slot slot (chooseSameSlotLoop n kvs visited)"
  using assms
proof (induction n kvs visited rule: chooseSameSlotLoop.induct)
  case (2 n kvs k v rest)
  have "chosen c (AList.update k v kvs)" "same_slot slot (AList.update k v kvs)"
    using "2.prems" by (auto simp: chosen_update same_slot_def update_conv')
  moreover have "expects c k' = Some v' \<and> Slot k' = slot" if "(k', v') \<in> set rest" for k' v'
    using "2.prems"(3) [of k' v'] that by simp
  ultimately show ?case
    using "2.IH" [OF refl] by (cases "length (AList.update k v kvs) = n") (simp_all add: Let_def)
qed simp

lemma kvt_randomChooseKeysInSameSlot:
  assumes "order_law E" and "shape K c"
  shows "kvt (\<lambda>w. w = c) (randomChooseKeysInSameSlot E n)
    (\<lambda>(slot, kvs) w. w = c \<and> chosen c kvs \<and> same_slot slot kvs)"
proof (cases "n = 0")
  case True
  then show ?thesis
    unfolding randomChooseKeysInSameSlot_def if_P [OF True] by (intro kvt_return) (simp add: same_slot_def)
next
  case False
  have loop: "chosen c (chooseSameSlotLoop n [] v) \<and> same_slot slot (chooseSameSlotLoop n [] v)"
    if "slot < slotNumber" "mset v = mset (kv_keys c slot)" for slot v
    using mset_eq_setD [OF that(2)] slot_entry [OF assms(2) _ that(1)]
    by (intro chooseSameSlotLoop_chosen) (auto simp: same_slot_def)
  show ?thesis
    unfolding randomChooseKeysInSameSlot_def if_not_P [OF False]
    by (rule kvt_bind, rule kvt_chooseSlot, rule kvt_bind, rule kvt_gets, simp,
        rule kvt_bind, rule kvt_ranged [OF assms(1)], rule kvt_return) (use loop in auto)
qed

lemma kvt_getKeys:
  assumes "order_law E"
  shows "kvt (\<lambda>w. w = c) (getKeys E m) (\<lambda>ks w. w = c \<and> mset ks = mset (map fst m))"
proof (cases "m = []")
  case True
  then show ?thesis unfolding getKeys_def if_P [OF True] by (intro kvt_return) simp
next
  case False
  show ?thesis unfolding getKeys_def if_not_P [OF False]
    by (rule kvt_bind, rule kvt_ranged [OF assms], rule kvt_return) (simp add: mset_map)
qed

subsection \<open>The checks\<close>

lemma sent_core: "sent_from w f w' \<Longrightarrow> sent_from (core w) f (core w')"
proof -
  assume "sent_from w f w'"
  then obtain tr p where w': "w' = w\<lparr>cl_trace := tr, cl_pool := p\<rparr>" "pool_ok w'" "store_of tr = f (store_of (cl_trace w))"
    by (auto simp: sent_from_def)
  have "core w' = (core w)\<lparr>cl_trace := tr, cl_pool := p\<rparr>" by (simp add: w'(1) core_def)
  moreover have "pool_ok (core w')" using w'(2) by (simp add: pool_ok_def)
  ultimately show ?thesis using w'(3) unfolding sent_from_def by (intro exI [of _ tr] exI [of _ p]) simp
qed

lemma kvt_call:
  assumes "\<And>w node. core w = c \<Longrightarrow> call_ok (cmd (ke_net E) False node) w (\<lambda>x w'. sent_from w f w' \<and> R x)"
  shows "kvt (\<lambda>w. w = c) (onClient cmd E) (\<lambda>x w. sent_from c f w \<and> R x)"
  unfolding kvt_def
proof (intro allI impI)
  fix w assume c: "core w = c"
  obtain r w' where run: "cmd (ke_net E) False (kv_startupNode w) w = (r, w')"
    by (cases "cmd (ke_net E) False (kv_startupNode w) w")
  have ok: "call_ok (cmd (ke_net E) False (kv_startupNode w)) w (\<lambda>x w'. sent_from w f w' \<and> R x)"
    by (rule assms [OF c])
  show "case onClient cmd E w of (Inr x, w') \<Rightarrow> sent_from c f (core w') \<and> R x | (Inl e, w') \<Rightarrow> \<not> false_alarm e"
  proof (cases r)
    case (Inl e)
    then show ?thesis using ok run by (cases e) (simp add: call_ok_def onClient_def tryE_def)
  next
    case (Inr x)
    then have "sent_from w f w' \<and> R x" using ok run by (simp add: call_ok_def)
    then show ?thesis using sent_core [of w f w'] c run Inr by (simp add: onClient_def tryE_def)
  qed
qed

lemma core_eq: "core w = c \<Longrightarrow> cl_trace w = cl_trace c" "core w = c \<Longrightarrow> pool_ok c \<Longrightarrow> pool_ok w"
  by (auto simp: pool_ok_def)

text \<open>The invariant between two commands, and the fact that choices and reads keep it.\<close>

lemma inv_agrees: "kv_inv K ov c \<Longrightarrow> expects c k = Some v \<Longrightarrow> ov k = None \<Longrightarrow> nil2Empty (store_of (cl_trace c) k) = v"
  by (simp add: kv_inv_def agrees_def map_add_Some_iff)

lemma inv_shape: "kv_inv K ov c \<Longrightarrow> shape K c"
  by (simp add: kv_inv_def)

lemma inv_pool: "kv_inv K ov c \<Longrightarrow> pool_ok c"
  by (simp add: kv_inv_def)

lemma inv_read: "kv_inv K ov c \<Longrightarrow> sent_from c id w \<Longrightarrow> kv_inv K ov w"
  using inv_sent [of K ov c id w ov] by (simp add: kv_inv_def)

lemma chosen_cong: "expects w = expects c \<Longrightarrow> chosen w kvs = chosen c kvs"
  by (simp add: chosen_def)

lemma call_ok_post: "call_ok m w Q \<Longrightarrow> (\<And>x w'. Q x w' \<Longrightarrow> Q' x w') \<Longrightarrow> call_ok m w Q'"
  unfolding call_ok_def by (fastforce split: prod.splits sum.splits)

lemma kvt_Get:
  assumes "pool_ok c" and "honest (ke_net E) K" and "key \<in> K"
  shows "kvt (\<lambda>w. w = c) (onClient (\<lambda>net debug node. client_Get net debug node key) E)
    (\<lambda>x w. sent_from c id w \<and> fst x = store_of (cl_trace c) key)"
proof (rule kvt_call)
  fix w node assume c: "core w = c"
  show "call_ok (client_Get (ke_net E) False node key) w (\<lambda>x w'. sent_from w id w' \<and> fst x = store_of (cl_trace c) key)"
    by (rule call_ok_post, rule client_Get_ok [OF core_eq(2) [OF c assms(1)] assms(2,3)])
      (simp add: core_eq(1) [OF c] case_prod_beta)
qed

lemma kvt_read:
  assumes "\<And>w node. pool_ok w \<Longrightarrow> call_ok (cmd (ke_net E) False node) w
      (\<lambda>(vs, _) w'. sent_from w id w' \<and> vs = map (store_of (cl_trace w)) ks)"
    and "pool_ok c"
  shows "kvt (\<lambda>w. w = c) (onClient cmd E)
    (\<lambda>x w. sent_from c id w \<and> fst x = map (store_of (cl_trace c)) ks)"
proof (rule kvt_call)
  fix w node assume c: "core w = c"
  show "call_ok (cmd (ke_net E) False node) w (\<lambda>x w'. sent_from w id w' \<and> fst x = map (store_of (cl_trace c)) ks)"
    by (rule call_ok_post, rule assms(1) [OF core_eq(2) [OF c assms(2)]])
      (simp add: core_eq(1) [OF c] case_prod_beta)
qed

lemma kvt_write:
  assumes "\<And>w node. pool_ok w \<Longrightarrow> call_ok (cmd (ke_net E) False node) w (\<lambda>_. sent_from w f)"
    and "pool_ok c"
  shows "kvt (\<lambda>w. w = c) (onClient cmd E) (\<lambda>_. sent_from c f)"
proof -
  have "kvt (\<lambda>w. w = c) (onClient cmd E) (\<lambda>x w. sent_from c f w \<and> True)"
    by (rule kvt_call) (use assms(1) core_eq(2) [OF _ assms(2)] in simp)
  then show ?thesis by simp
qed

text \<open>Every key read is expected to have the value it is stored with.\<close>

lemma kvt_checkGet:
  assumes "order_law E" and "honest (ke_net E) K"
  shows "kvt (kv_inv K Map.empty) (checkGet E) (\<lambda>_. kv_inv K Map.empty)"
proof (rule kvt_each)
  fix c assume inv: "kv_inv K Map.empty c"
  let ?I = "\<lambda>visited w. kv_inv K Map.empty w \<and> chosen w visited"
  let ?body = "\<lambda>(key, expected). bindE (onClient (\<lambda>net debug node. client_Get net debug node key) E)
      (\<lambda>(v, address). let s = nil2Empty v in
        if s \<noteq> expected then throwE (Inconsistent key s expected address) else returnE ())"
  have body: "kvt (?I visited) (?body kv) (\<lambda>_. ?I visited)" if "kv \<in> set visited" for kv visited
  proof (rule kvt_each)
    fix c assume I: "?I visited c"
    obtain key expected where kv: "kv = (key, expected)" by (cases kv)
    have exp: "expects c key = Some expected" using I that kv by (blast intro: chosen_entry)
    have key: "key \<in> K" using I exp inv_shape expects_shape(1) by blast
    have I': "?I visited w" if "sent_from c id w" for w
      using I inv_read [OF _ that] chosen_cong [OF sent_fields(1) [OF that]] by simp
    have val: "nil2Empty (store_of (cl_trace c) key) = expected" using inv_agrees [OF conjunct1 [OF I] exp] by simp
    have ok: "kvt (\<lambda>w. sent_from c id w \<and> fst x = store_of (cl_trace c) key)
      (case x of (v, address) \<Rightarrow> let s = nil2Empty v in
        if s \<noteq> expected then throwE (Inconsistent key s expected address) else returnE ()) (\<lambda>_. ?I visited)" for x
      by (rule kvt_returns [where F = "fst x = store_of (cl_trace c) key"]) (use I' val in \<open>auto simp: case_prod_beta Let_def\<close>)
    show "kvt (\<lambda>w. w = c) (?body kv) (\<lambda>_. ?I visited)"
      unfolding kv prod.case
      by (rule kvt_bind [OF kvt_Get [OF inv_pool [OF conjunct1 [OF I]] assms(2) key] ok])
  qed
  show "kvt (\<lambda>w. w = c) (checkGet E) (\<lambda>_. kv_inv K Map.empty)"
    unfolding checkGet_def
  proof (rule kvt_bind [OF kvt_wait], rule kvt_bind [OF kvt_randomChooseKeys [OF assms(1) inv_shape [OF inv]]],
      rule kvt_bind [OF kvt_ranged [OF assms(1)]])
    fix kvs visited
    show "kvt (\<lambda>w. (w = c \<and> chosen c kvs) \<and> mset visited = mset kvs) (foreachE ?body visited)
      (\<lambda>_. kv_inv K Map.empty)"
      by (rule kvt_post [OF kvt_pre [OF kvt_foreach [where I = "?I visited"]]])
        (use body inv chosen_mset in auto)
  qed
qed

lemma kvt_commands:
  assumes "pool_ok c" and "honest (ke_net E) K"
  shows "kvt (\<lambda>w. w = c) (onClient (\<lambda>net debug node. client_Set net debug node k v) E)
      (\<lambda>_. sent_from c (\<lambda>st. st(k \<mapsto> v)))"
    and "kvt (\<lambda>w. w = c) (onClient (\<lambda>net debug node. client_Del net debug node ks) E)
      (\<lambda>_. sent_from c (\<lambda>st. st |` (- set ks)))"
    and "kvt (\<lambda>w. w = c) (onClient (\<lambda>net debug node. client_MSet net debug node kvs) E)
      (\<lambda>_. sent_from c (apply_pairs kvs))"
    and "kvt (\<lambda>w. w = c) (onClient (\<lambda>net debug node. client_luaMSet net debug node ks vs) E)
      (\<lambda>_. sent_from c (\<lambda>st. st ++ map_of (rev (zip ks vs))))"
    and "set ks \<subseteq> K \<Longrightarrow> kvt (\<lambda>w. w = c) (onClient (\<lambda>net debug node. client_MGet net debug node ks) E)
      (\<lambda>x w. sent_from c id w \<and> fst x = map (store_of (cl_trace c)) ks)"
    and "set ks \<subseteq> K \<Longrightarrow> kvt (\<lambda>w. w = c) (onClient (\<lambda>net debug node. client_LuaMGet net debug node ks) E)
      (\<lambda>x w. sent_from c id w \<and> fst x = map (store_of (cl_trace c)) ks)"
  by (rule kvt_write kvt_read; use assms in \<open>simp add: client_Set_ok client_Del_ok client_MSet_ok
    client_luaMSet_ok client_MGet_ok client_LuaMGet_ok\<close>)+

subsection \<open>Writes\<close>

lemma kvt_genNewValue: "kvt P (genNewValue E k) (\<lambda>_. P)"
  unfolding genNewValue_def by (rule kvt_bind, rule kvt_choice, rule kvt_return)

lemma kvt_setKey:
  assumes "Slot k = slot" and "\<And>w. P w \<Longrightarrow> Q () (with_key k v w)"
  shows "kvt P (setKey slot k v) Q"
  using assms by (simp add: kvt_def setKey_run core_with_key)

text \<open>A write that makes the values of \<open>m\<close> those stored, and leaves the others.\<close>

lemma inv_write:
  assumes "kv_inv K Map.empty c" and "sent_from c f w"
    and "\<And>k v. m k = Some v \<Longrightarrow> nil2Empty (f (store_of (cl_trace c)) k) = v \<and> k \<notin> set (kv_luaKeys c)"
    and "\<And>k. m k = None \<Longrightarrow> f (store_of (cl_trace c)) k = store_of (cl_trace c) k"
  shows "kv_inv K m w"
proof (rule inv_sent [OF assms(1,2)])
  let ?st = "store_of (cl_trace c)"
  have "nil2Empty (f ?st k) = v" if "(expects c ++ m) k = Some v" for k v
    using that assms(3,4) [of k] inv_agrees [OF assms(1)] by (cases "m k") (auto simp: map_add_Some_iff)
  moreover have "nil2Empty (f ?st k) = kv_luaValue c" if "k \<in> set (kv_luaKeys c)" for k
  proof -
    have "m k = None" using assms(3) that by (cases "m k") auto
    then show ?thesis using assms(1,4) that by (simp add: kv_inv_def agrees_def)
  qed
  ultimately show "agrees (f ?st) m c" unfolding agrees_def by blast
qed

lemma kvt_setKeys:
  assumes "wf_map kvs" and "same_slot slot kvs"
  shows "kvt (\<lambda>w. kv_inv K (map_of kvs) w \<and> (\<forall>k \<in> dom (map_of kvs). expects w k \<noteq> None))
    (foreachE (\<lambda>(k, v). setKey slot k v) kvs) (\<lambda>_. kv_inv K Map.empty)"
  using assms
proof (induction kvs)
  case Nil
  then show ?case unfolding foreachE.simps by (intro kvt_return) simp
next
  case (Cons kv kvs)
  obtain k v where kv: "kv = (k, v)" by (cases kv)
  have wf: "wf_map kvs" "k \<notin> dom (map_of kvs)" and slot: "Slot k = slot" "same_slot slot kvs"
    using Cons.prems by (auto simp: kv wf_map_def same_slot_def dom_map_of_conv_image_fst)
  show ?case
    unfolding kv foreachE.simps prod.case
  proof (rule kvt_bind, rule kvt_setKey [OF slot(1)])
    fix w assume w: "kv_inv K (map_of ((k, v) # kvs)) w \<and> (\<forall>k \<in> dom (map_of ((k, v) # kvs)). expects w k \<noteq> None)"
    then have "kv_inv K (map_of kvs) (with_key k v w)"
      using inv_with_key [OF _ _ wf(2), of K v w] by auto
    with w show "kv_inv K (map_of kvs) (with_key k v w) \<and> (\<forall>k' \<in> dom (map_of kvs). expects (with_key k v w) k' \<noteq> None)"
      by (auto simp: expects_with_key)
  qed (rule Cons.IH [OF wf(1) slot(2)])
qed

lemma kvt_checkSet:
  assumes "order_law E" and "honest (ke_net E) K"
  shows "kvt (kv_inv K Map.empty) (checkSet E) (\<lambda>_. kv_inv K Map.empty)"
proof (rule kvt_each)
  fix c assume inv: "kv_inv K Map.empty c"
  let ?I = "\<lambda>visited w. kv_inv K Map.empty w \<and> (\<forall>k \<in> dom (map_of visited). expects w k \<noteq> None)"
  let ?body = "\<lambda>(k, _ :: string). bindE (genNewValue E k) (\<lambda>v.
      bindE (onClient (\<lambda>net debug node. client_Set net debug node k v) E) (\<lambda>_. setKey (Slot k) k v))"
  have body: "kvt (?I visited) (?body kv) (\<lambda>_. ?I visited)" if "kv \<in> set visited" for kv visited
  proof (rule kvt_each)
    fix c assume I: "?I visited c"
    obtain k old where kv: "kv = (k, old)" by (cases kv)
    have "k \<in> dom (map_of visited)" using weak_map_of_SomeI [of k old visited] that kv by auto
    then obtain u where u: "expects c k = Some u" using I by blast
    have lua: "k \<notin> set (kv_luaKeys c)" using I u inv_shape expects_shape(2) by blast
    show "kvt (\<lambda>w. w = c) (?body kv) (\<lambda>_. ?I visited)"
      unfolding kv prod.case
    proof (rule kvt_bind [OF kvt_genNewValue],
        rule kvt_bind [OF kvt_commands(1) [OF inv_pool [OF conjunct1 [OF I]] assms(2)]])
      fix v
      show "kvt (sent_from c (\<lambda>st. st(k \<mapsto> v))) (setKey (Slot k) k v) (\<lambda>_. ?I visited)"
      proof (rule kvt_setKey [OF refl])
        fix w assume w: "sent_from c (\<lambda>st. st(k \<mapsto> v)) w"
        have "kv_inv K [k \<mapsto> v] w"
          using lua by (intro inv_write [OF conjunct1 [OF I] w]) (auto split: if_splits)
        then show "?I visited (with_key k v w)"
          using I u by (auto intro: inv_with_key simp: sent_fields(1) [OF w] expects_with_key)
      qed
    qed
  qed
  show "kvt (\<lambda>w. w = c) (checkSet E) (\<lambda>_. kv_inv K Map.empty)"
    unfolding checkSet_def
  proof (rule kvt_bind [OF kvt_wait], rule kvt_bind [OF kvt_randomChooseKeys [OF assms(1) inv_shape [OF inv]]],
      rule kvt_bind [OF kvt_ranged [OF assms(1)]])
    fix kvs visited
    show "kvt (\<lambda>w. (w = c \<and> chosen c kvs) \<and> mset visited = mset kvs) (foreachE ?body visited)
      (\<lambda>_. kv_inv K Map.empty)"
    proof (rule kvt_post [OF kvt_pre [OF kvt_foreach [where I = "?I visited"]]], erule body)
      fix w assume w: "(w = c \<and> chosen c kvs) \<and> mset visited = mset kvs"
      then have "chosen c visited" using chosen_mset by blast
      with w inv show "?I visited w" using chosen_tracked by blast
    qed simp
  qed
qed

lemma kvt_newValues:
  "kvt (\<lambda>w. w = c) (newValues E visited) (\<lambda>new w. w = c \<and> map fst new = map fst visited)"
proof (induction visited)
  case Nil
  then show ?case unfolding newValues.simps by (intro kvt_return) simp
next
  case (Cons kv visited)
  obtain k old where kv: "kv = (k, old)" by (cases kv)
  show ?case unfolding kv newValues.simps
    by (rule kvt_bind [OF kvt_genNewValue], rule kvt_bind [OF Cons.IH], rule kvt_return) simp
qed

lemma update_entries:
  "wf_map kvs \<Longrightarrow> wf_map (foldl (\<lambda>m (k, v). AList.update k v m) kvs new) \<and>
    map_of (foldl (\<lambda>m (k, v). AList.update k v m) kvs new) = map_of kvs ++ map_of (rev new)"
proof (induction new arbitrary: kvs)
  case (Cons kv new)
  from Cons.IH [OF wf_map_update [OF Cons.prems]] show ?case
    by (cases kv) (auto simp: update_conv' map_add_def fun_eq_iff split: option.splits)
qed simp

text \<open>The map after \<open>kvs[k] = v\<close> for every key of it, and the pairs sent, say the same.\<close>

lemma replaced_entries:
  assumes "wf_map kvs" and "wf_map new" and "fst ` set new = fst ` set kvs"
    and "mset v = mset (foldl (\<lambda>m (k, v). AList.update k v m) kvs new)"
  shows "wf_map v" and "map_of v = map_of new" and "map_of (rev new) = map_of new"
proof -
  show rev: "map_of (rev new) = map_of new"
    using mset_entries(3) [of "rev new" new] assms(2) by simp
  have "dom (map_of kvs) = dom (map_of new)" using assms(3) by (simp add: dom_map_of_conv_image_fst)
  then have "map_of kvs k = None" if "map_of new k = None" for k using that by (metis domIff)
  then have "map_of kvs ++ map_of new = map_of new"
    by (auto simp: map_add_def fun_eq_iff split: option.splits)
  then show "wf_map v" "map_of v = map_of new"
    using update_entries [OF assms(1), of new] mset_entries [OF assms(4)] rev by simp_all
qed

lemma kvt_checkMSet:
  assumes "order_law E" and "honest (ke_net E) K"
  shows "kvt (kv_inv K Map.empty) (checkMSet E) (\<lambda>_. kv_inv K Map.empty)"
proof (rule kvt_each)
  fix c assume inv: "kv_inv K Map.empty c"
  show "kvt (\<lambda>w. w = c) (checkMSet E) (\<lambda>_. kv_inv K Map.empty)"
    unfolding checkMSet_def
  proof (rule kvt_bind [OF kvt_wait],
      rule kvt_bind [OF kvt_randomChooseKeysInSameSlot [OF assms(1) inv_shape [OF inv]]], rule kvt_case_prod)
    fix slot kvs
    let ?after = "\<lambda>visited. bindE (newValues E visited) (\<lambda>new.
      let args = concat (map (\<lambda>(k, v). [k, v]) new);
          kvs' = foldl (\<lambda>m (k, v). AList.update k v m) kvs new in
      bindE (onClient (\<lambda>net debug node. client_MSet net debug node args) E) (\<lambda>_.
      bindE (ranged E kvs') (\<lambda>visited'. foreachE (\<lambda>(k, v). setKey slot k v) visited')))"
    have after: "kvt (\<lambda>w. w = c) (?after visited) (\<lambda>_. kv_inv K Map.empty)"
      if ch: "chosen c kvs" and slot: "same_slot slot kvs" and vis: "mset visited = mset kvs" for visited
    proof (rule kvt_bind [OF kvt_newValues], rule kvt_at [where c = c])
      fix new :: "string go_map"
      assume fst: "map fst new = map fst visited"
      have wf: "wf_map kvs" using ch by (simp add: chosen_def)
      have new: "wf_map new" "fst ` set new = fst ` set kvs"
        using fst mset_entries(1,2) [OF vis wf] by (simp add: wf_map_def, metis list.set_map)
      have dom: "dom (map_of new) = dom (map_of kvs)" using new(2) by (simp add: dom_map_of_conv_image_fst)
      have rev: "map_of (rev new) = map_of new" by (rule replaced_entries(3) [OF wf new refl])
      have keep: "kv_inv K (map_of new) w" if w: "sent_from c (apply_pairs (concat (map (\<lambda>(k, v). [k, v]) new))) w" for w
      proof (rule inv_write [OF inv w])
        fix k v assume k: "map_of new k = Some v"
        then have "k \<in> dom (map_of kvs)" using dom by auto
        then obtain u where "expects c k = Some u" using ch by (auto simp: chosen_def)
        then show "nil2Empty (apply_pairs (concat (map (\<lambda>(k, v). [k, v]) new)) (store_of (cl_trace c)) k) = v \<and>
            k \<notin> set (kv_luaKeys c)"
          using k rev expects_shape(2) [OF inv_shape [OF inv]] by (simp add: apply_pairs_concat map_add_def)
      qed (simp add: apply_pairs_concat map_add_def rev)
      show "kvt (\<lambda>w. w = c) (let args = concat (map (\<lambda>(k, v). [k, v]) new);
          kvs' = foldl (\<lambda>m (k, v). AList.update k v m) kvs new in
        bindE (onClient (\<lambda>net debug node. client_MSet net debug node args) E) (\<lambda>_.
        bindE (ranged E kvs') (\<lambda>visited'. foreachE (\<lambda>(k, v). setKey slot k v) visited')))
        (\<lambda>_. kv_inv K Map.empty)"
        unfolding Let_def
      proof (rule kvt_bind [OF kvt_commands(3) [OF inv_pool [OF inv] assms(2)]],
          rule kvt_bind [OF kvt_ranged [OF assms(1)]], rule kvt_each)
        fix visited' w
        assume w: "sent_from c (apply_pairs (concat (map (\<lambda>(k, v). [k, v]) new))) w \<and>
          mset visited' = mset (foldl (\<lambda>m (k, v). AList.update k v m) kvs new)"
        note ent = replaced_entries(1,2) [OF wf new conjunct2 [OF w]]
        have "same_slot slot visited'" using slot by (simp add: same_slot_def ent(2) dom)
        then show "kvt (\<lambda>w'. w' = w) (foreachE (\<lambda>(k, v). setKey slot k v) visited') (\<lambda>_. kv_inv K Map.empty)"
          using w keep chosen_tracked [OF ch]
          by (intro kvt_pre [OF kvt_setKeys [OF ent(1)]]) (auto simp: ent(2) dom sent_fields(1) [OF conjunct1 [OF w]])
      qed
    qed auto
    show "kvt (\<lambda>w. w = c \<and> chosen c kvs \<and> same_slot slot kvs) (bindE (ranged E kvs) ?after) (\<lambda>_. kv_inv K Map.empty)"
    proof (rule kvt_bind [OF kvt_ranged [OF assms(1)]])
      fix visited
      show "kvt (\<lambda>w. (w = c \<and> chosen c kvs \<and> same_slot slot kvs) \<and> mset visited = mset kvs) (?after visited)
        (\<lambda>_. kv_inv K Map.empty)"
        by (rule kvt_at [where c = c and F = "chosen c kvs \<and> same_slot slot kvs \<and> mset visited = mset kvs"])
          (simp, rule after, simp_all)
    qed
  qed
qed

lemma foreachE_map: "foreachE f (map g xs) = foreachE (f \<circ> g) xs"
  by (induction xs) simp_all

lemma kvt_checkDel:
  assumes "order_law E" and "honest (ke_net E) K"
  shows "kvt (kv_inv K Map.empty) (checkDel E) (\<lambda>_. kv_inv K Map.empty)"
proof (rule kvt_each)
  fix c assume inv: "kv_inv K Map.empty c"
  have del: "kvt (\<lambda>w. w = c) (bindE (onClient (\<lambda>net debug node. client_Del net debug node keys) E)
      (\<lambda>_. foreachE (\<lambda>k. setKey slot k []) keys)) (\<lambda>_. kv_inv K Map.empty)"
    if ch: "chosen c kvs" and slot: "same_slot slot kvs" and keys: "mset keys = mset (map fst kvs)" for slot kvs keys
  proof (rule kvt_bind [OF kvt_commands(2) [OF inv_pool [OF inv] assms(2)]])
    let ?m = "map (\<lambda>k. (k, [] :: string)) keys"
    have dom: "dom (map_of ?m) = dom (map_of kvs)"
      using mset_eq_setD [OF keys] by (simp add: dom_map_of_conv_image_fst image_image)
    have m: "map_of ?m k = (if k \<in> set keys then Some [] else None)" for k
      by (simp add: map_of_map_restrict)
    have wf: "wf_map ?m"
      using ch mset_eq_imp_distinct_iff [OF keys] by (simp add: chosen_def wf_map_def comp_def)
    have lua: "k \<notin> set (kv_luaKeys c)" if "k \<in> set keys" for k
    proof -
      have "k \<in> dom (map_of kvs)" using that dom m by (auto split: if_splits)
      then obtain u where "expects c k = Some u" using ch by (auto simp: chosen_def)
      then show ?thesis using expects_shape(2) [OF inv_shape [OF inv]] by blast
    qed
    have "same_slot slot ?m" using slot by (simp add: same_slot_def dom)
    from kvt_setKeys [OF wf this, of K]
    have "kvt (\<lambda>w. kv_inv K (map_of ?m) w \<and> (\<forall>k \<in> dom (map_of ?m). expects w k \<noteq> None))
      (foreachE (\<lambda>k. setKey slot k []) keys) (\<lambda>_. kv_inv K Map.empty)"
      by (simp add: foreachE_map comp_def)
    then show "kvt (sent_from c (\<lambda>st. st |` (- set keys))) (foreachE (\<lambda>k. setKey slot k []) keys) (\<lambda>_. kv_inv K Map.empty)"
    proof (rule kvt_pre)
      fix w assume w: "sent_from c (\<lambda>st. st |` (- set keys)) w"
      have "kv_inv K (map_of ?m) w"
        by (rule inv_write [OF inv w]) (use lua in \<open>auto simp: m restrict_map_def split: if_splits\<close>)
      then show "kv_inv K (map_of ?m) w \<and> (\<forall>k \<in> dom (map_of ?m). expects w k \<noteq> None)"
        using chosen_tracked [OF ch] by (simp only: dom sent_fields(1) [OF w]) blast
    qed
  qed
  show "kvt (\<lambda>w. w = c) (checkDel E) (\<lambda>_. kv_inv K Map.empty)"
    unfolding checkDel_def
  proof (rule kvt_bind [OF kvt_randomChooseKeysInSameSlot [OF assms(1) inv_shape [OF inv]]], rule kvt_case_prod,
      rule kvt_at [where c = c])
    fix slot kvs assume ch: "chosen c kvs \<and> same_slot slot kvs"
    have "kvt (\<lambda>w. w = c) (bindE (waitN E 10) (\<lambda>_. bindE (getKeys E kvs) (\<lambda>keys.
        bindE (onClient (\<lambda>net debug node. client_Del net debug node keys) E)
          (\<lambda>_. foreachE (\<lambda>k. setKey slot k []) keys)))) (\<lambda>_. kv_inv K Map.empty)"
      by (rule kvt_bind [OF kvt_wait], rule kvt_bind [OF kvt_getKeys [OF assms(1)]], rule kvt_at [where c = c], assumption)
        (use del ch in blast)
    then show "kvt (\<lambda>w. w = c) (if length kvs = 0 then returnE () else bindE (waitN E 10) (\<lambda>_. bindE (getKeys E kvs) (\<lambda>keys.
        bindE (onClient (\<lambda>net debug node. client_Del net debug node keys) E)
          (\<lambda>_. foreachE (\<lambda>k. setKey slot k []) keys)))) (\<lambda>_. kv_inv K Map.empty)"
      using inv by (intro kvt_if kvt_return) simp_all
  qed auto
qed

subsection \<open>Reads of several keys\<close>

lemma mgetLoop_match:
  assumes "\<forall>k \<in> set keys. nil2Empty (st k) = nil2Empty (map_of kvs k)"
  shows "mgetLoop kvs address keys (map st keys) None = returnE ()"
  using assms by (induction keys) simp_all

lemma luaMGetLoop_match:
  assumes "\<forall>k \<in> set keys. nil2Empty (st k) = luaValue"
  shows "luaMGetLoop luaValue keys (map st keys) None = returnE ()"
  using assms by (induction keys) simp_all

lemma kvt_checkMGet:
  assumes "order_law E" and "honest (ke_net E) K"
  shows "kvt (kv_inv K Map.empty) (checkMGet E) (\<lambda>_. kv_inv K Map.empty)"
proof (rule kvt_each)
  fix c assume inv: "kv_inv K Map.empty c"
  let ?read = "\<lambda>kvs keys. bindE (onClient (\<lambda>net debug node. client_MGet net debug node keys) E) (\<lambda>(values, address).
      if length keys \<noteq> length values then throwE (InvalidLen (length keys) (length values))
      else mgetLoop kvs address keys values None)"
  have read: "kvt (\<lambda>w. w = c) (?read kvs keys) (\<lambda>_. kv_inv K Map.empty)"
    if ch: "chosen c kvs" and keys: "mset keys = mset (map fst kvs)" for kvs keys
  proof -
    have key: "k \<in> K \<and> nil2Empty (store_of (cl_trace c) k) = nil2Empty (map_of kvs k)" if "k \<in> set keys" for k
    proof -
      have "k \<in> dom (map_of kvs)" using that mset_eq_setD [OF keys] by (simp add: dom_map_of_conv_image_fst)
      then obtain u where u: "map_of kvs k = Some u" "expects c k = Some u" using ch by (auto simp: chosen_def)
      then show ?thesis using inv_agrees [OF inv u(2)] expects_shape(1) [OF inv_shape [OF inv] u(2)] by simp
    qed
    have K: "set keys \<subseteq> K" using key by blast
    show ?thesis
    proof (rule kvt_bind [OF kvt_commands(5) [OF inv_pool [OF inv] assms(2) K]])
      fix x :: "string option list \<times> string"
      show "kvt (\<lambda>w. sent_from c id w \<and> fst x = map (store_of (cl_trace c)) keys)
        (case x of (values, address) \<Rightarrow>
          if length keys \<noteq> length values then throwE (InvalidLen (length keys) (length values))
          else mgetLoop kvs address keys values None) (\<lambda>_. kv_inv K Map.empty)"
        by (rule kvt_returns [where F = "fst x = map (store_of (cl_trace c)) keys"])
          (use key inv_read [OF inv] mgetLoop_match [of keys "store_of (cl_trace c)"] in \<open>auto simp: case_prod_beta\<close>)
    qed
  qed
  show "kvt (\<lambda>w. w = c) (checkMGet E) (\<lambda>_. kv_inv K Map.empty)"
    unfolding checkMGet_def
  proof (rule kvt_bind [OF kvt_randomChooseKeysInSameSlot [OF assms(1) inv_shape [OF inv]]], rule kvt_case_prod,
      rule kvt_at [where c = c])
    fix slot kvs assume ch: "chosen c kvs \<and> same_slot slot kvs"
    have "kvt (\<lambda>w. w = c) (bindE (waitN E 10) (\<lambda>_. bindE (getKeys E kvs) (?read kvs))) (\<lambda>_. kv_inv K Map.empty)"
      by (rule kvt_bind [OF kvt_wait], rule kvt_bind [OF kvt_getKeys [OF assms(1)]], rule kvt_at [where c = c], assumption)
        (use read ch in blast)
    then show "kvt (\<lambda>w. w = c) (if length kvs = 0 then returnE () else
        bindE (waitN E 10) (\<lambda>_. bindE (getKeys E kvs) (?read kvs))) (\<lambda>_. kv_inv K Map.empty)"
      using inv by (intro kvt_if kvt_return) simp_all
  qed auto
qed

lemma kvt_checkLuaMSet:
  assumes "honest (ke_net E) K"
  shows "kvt (kv_inv K Map.empty) (checkLuaMSet E) (\<lambda>_. kv_inv K Map.empty)"
proof (rule kvt_each)
  fix c assume inv: "kv_inv K Map.empty c"
  have luaMSet: "kvt (\<lambda>w. w = c) (bindE (onClient (\<lambda>net debug node. client_luaMSet net debug node (kv_luaKeys c)
        (replicate (length (kv_luaKeys c)) val)) E)
      (\<lambda>_. modifyE (\<lambda>w. w\<lparr>kv_luaValue := val\<rparr>))) (\<lambda>_. kv_inv K Map.empty)" for val
  proof (rule kvt_bind [OF kvt_commands(4) [OF inv_pool [OF inv] assms]])
    let ?f = "\<lambda>st. st ++ map_of (rev (zip (kv_luaKeys c) (replicate (length (kv_luaKeys c)) val)))"
    have m: "map_of (rev (zip ks (replicate (length ks) val))) k = (if k \<in> set ks then Some val else None)"
      for ks and k :: string
      by (induction ks) (auto simp: map_add_def split: option.splits)
    have "kv_inv K Map.empty (w\<lparr>kv_luaValue := val\<rparr>)" if w: "sent_from c ?f w" for w
    proof -
      have "nil2Empty (?f (store_of (cl_trace c)) k) = v" if "expects c k = Some v" for k v
        using that inv_agrees [OF inv that] expects_shape(2) [OF inv_shape [OF inv] that]
        by (simp add: map_add_def m)
      then show ?thesis
        using inv sent_fields(4) [OF w, of K]
        by (simp add: kv_inv_def agrees_def shape_def pool_ok_def map_add_def m expects_lua sent_fields [OF w, unfolded pool_ok_def])
    qed
    then show "kvt (sent_from c ?f) (modifyE (\<lambda>w. w\<lparr>kv_luaValue := val\<rparr>)) (\<lambda>_. kv_inv K Map.empty)"
      by (intro kvt_modify) (simp_all add: core_def)
  qed
  show "kvt (\<lambda>w. w = c) (checkLuaMSet E) (\<lambda>_. kv_inv K Map.empty)"
    unfolding checkLuaMSet_def Let_def
    by (rule kvt_gets_at, simp, rule kvt_bind [OF kvt_wait], rule kvt_bind [OF kvt_choice], rule kvt_bind [OF kvt_choice], rule luaMSet)
qed

lemma kvt_checkLuaMGet:
  assumes "honest (ke_net E) K"
  shows "kvt (kv_inv K Map.empty) (checkLuaMGet E) (\<lambda>_. kv_inv K Map.empty)"
proof (rule kvt_each)
  fix c assume inv: "kv_inv K Map.empty c"
  have K: "set (kv_luaKeys c) \<subseteq> K" using inv by (simp add: kv_inv_def shape_def)
  have val: "\<forall>k \<in> set (kv_luaKeys c). nil2Empty (store_of (cl_trace c) k) = kv_luaValue c"
    using inv by (simp add: kv_inv_def agrees_def)
  have "kvt (\<lambda>w. w = c) (bindE (onClient (\<lambda>net debug node. client_LuaMGet net debug node (kv_luaKeys c)) E)
      (\<lambda>(values, _). bindE (getsE kv_luaValue) (\<lambda>luaValue. luaMGetLoop luaValue (kv_luaKeys c) values None)))
      (\<lambda>_. kv_inv K Map.empty)"
  proof (rule kvt_bind [OF kvt_commands(6) [OF inv_pool [OF inv] assms K]])
    fix x :: "string option list \<times> string"
    have "kvt (\<lambda>w. (sent_from c id w \<and> fst x = map (store_of (cl_trace c)) (kv_luaKeys c)) \<and> luaValue = kv_luaValue w)
      (luaMGetLoop luaValue (kv_luaKeys c) (fst x) None) (\<lambda>_. kv_inv K Map.empty)" for luaValue
      by (rule kvt_returns [where F = "fst x = map (store_of (cl_trace c)) (kv_luaKeys c) \<and> luaValue = kv_luaValue c"])
        (use sent_fields(3) [of c id] inv_read [OF inv] luaMGetLoop_match [OF val] in auto)
    then show "kvt (\<lambda>w. sent_from c id w \<and> fst x = map (store_of (cl_trace c)) (kv_luaKeys c))
      (case x of (values, _) \<Rightarrow> bindE (getsE kv_luaValue) (\<lambda>luaValue. luaMGetLoop luaValue (kv_luaKeys c) values None))
      (\<lambda>_. kv_inv K Map.empty)"
      unfolding case_prod_beta by (intro kvt_bind_gets) simp_all
  qed
  then show "kvt (\<lambda>w. w = c) (checkLuaMGet E) (\<lambda>_. kv_inv K Map.empty)"
    unfolding checkLuaMGet_def
    by (intro kvt_gets_at, simp, intro kvt_bind [OF kvt_wait])
qed

subsection \<open>The loop\<close>

lemma kvt_checkKeyValue:
  assumes "order_law E" and "honest (ke_net E) K"
  shows "kvt (kv_inv K Map.empty) (checkKeyValue E) (\<lambda>_. kv_inv K Map.empty)"
  unfolding checkKeyValue_def Let_def
  by (rule kvt_bind [OF kvt_choice])
    (intro kvt_if kvt_checkSet kvt_checkMSet kvt_checkLuaMSet kvt_checkGet kvt_checkMGet kvt_checkLuaMGet
      kvt_checkDel kvt_return assms; assumption)

lemma loopCheck_no_false_alarm:
  assumes "loopCheck E w = Some y" and "order_law E" and "honest (ke_net E) K" and "kv_inv K Map.empty w"
  shows "\<exists>e. fst y = Inl e \<and> \<not> false_alarm e"
  using assms
proof (induction rule: loopCheck.raw_induct [rotated -1, consumes 1, case_names step])
  case (step loop E w y)
  let ?t = "w\<lparr>kv_tick := Suc (kv_tick w)\<rparr>"
  have inv: "kv_inv K Map.empty (core ?t)" using step.prems(3) by simp
  obtain q u where run: "checkKeyValue E ?t = (q, u)" by (cases "checkKeyValue E ?t")
  have round: "case q of Inr x \<Rightarrow> kv_inv K Map.empty u | Inl e \<Rightarrow> \<not> false_alarm e"
    using kvt_checkKeyValue [OF step.prems(1,2), unfolded kvt_def, rule_format, OF inv] run
    by (simp split: sum.splits)
  show ?case
    using step.hyps step.IH [of E u y] step.prems round run
    by (cases q; cases "ke_done E (kv_tick w)") (auto simp: choice_def)
qed

subsection \<open>A new checker\<close>

text \<open>The keys a checker uses; no other client writes them.\<close>

definition own_keys :: "kv_state \<Rightarrow> string set" where
  "own_keys w = (\<Union>s \<in> {..<slotNumber}. dom (map_of (kv_keys w s))) \<union> set (kv_luaKeys w)"

lemma show_int_hd: "\<exists>c cs. show_int i = c # cs \<and> c \<noteq> CHR ''l''"
proof -
  have "\<exists>c cs. show_nat n = c # cs \<and> c \<noteq> CHR ''l''" for n
  proof -
    obtain c cs where n: "show_nat n = c # cs" by (cases "show_nat n") auto
    then show ?thesis using show_nat_digits [of c n] by (auto simp: digit_value.simps)
  qed
  then show ?thesis by (auto simp: show_int_def)
qed

lemma show_int_brace: "CHR ''{'' \<notin> set (show_int i)"
  by (simp add: show_int_def)

lemma Slot_genKey:
  assumes "tags_ok st" and "s < slotNumber"
  shows "Slot (genKey t ckID s i (getTag st s)) = s"
proof -
  have "Slot ((''test:'' @ show_int t @ '':'' @ show_int ckID @ '':'' @ show_nat s @ '':'') @
      CHR ''{'' # getTag st s @ CHR ''}'' # ('':'' @ show_nat i)) = Slot (getTag st s)"
    using assms by (intro Slot_tagged) (auto simp: tags_ok_def show_int_brace)
  then show ?thesis using assms by (simp add: genKey_def tags_ok_def)
qed

definition lua_form :: "int \<Rightarrow> string \<Rightarrow> bool" where
  "lua_form t k \<longleftrightarrow> has_prefix (''test:'' @ show_int t @ '':l'') k"

lemma has_prefix_append: "has_prefix (p @ q) (p @ r) = has_prefix q r"
  by (induction p) simp_all

lemma genKey_not_lua: "\<not> lua_form t (genKey t ckID s i tag)"
proof -
  obtain c cs where "show_int ckID = c # cs" "c \<noteq> CHR ''l''" using show_int_hd by blast
  then show ?thesis
    using has_prefix_append [of "''test:'' @ show_int t @ '':''" "''l''"]
    by (simp add: lua_form_def genKey_def)
qed

lemma genLuaKeys_run:
  "\<exists>ks n. genLuaKeys E t ckID is w = (Inr ks, w\<lparr>kv_tick := n\<rparr>) \<and> (\<forall>k \<in> set ks. lua_form t k)"
proof (induction "is" arbitrary: w)
  case Nil
  have "genLuaKeys E t ckID [] w = (Inr [], w\<lparr>kv_tick := kv_tick w\<rparr>)" by simp
  then show ?case by (metis empty_iff list.set(1))
next
  case (Cons i "is")
  define k where "k = ''test:'' @ show_int t @ '':lua:'' @ show_int ckID @ '':{tag}:'' @ show_nat i @ '':'' @
    show_nat (ke_second E (kv_tick w))"
  let ?w = "w\<lparr>kv_tick := Suc (kv_tick w)\<rparr>"
  obtain ks n where ks: "genLuaKeys E t ckID is ?w = (Inr ks, ?w\<lparr>kv_tick := n\<rparr>)" "\<forall>k \<in> set ks. lua_form t k"
    using Cons.IH by blast
  have "lua_form t k"
    using has_prefix_append [of "''test:'' @ show_int t @ '':''" "''l''"] by (simp add: lua_form_def k_def)
  with ks show ?case
    by (intro exI [of _ "k # ks"] exI [of _ n])
      (simp add: bindE_def genLuaKey_def choice_def k_def)
qed

definition new_keys :: "int \<Rightarrow> slotTags \<Rightarrow> (nat \<Rightarrow> string go_map) \<Rightarrow> bool" where
  "new_keys t st keys \<longleftrightarrow> (\<forall>s. wf_map (keys s) \<and>
    (\<forall>k v. map_of (keys s) k = Some v \<longrightarrow> v = [] \<and> Slot k = s \<and> \<not> lua_form t k))"

lemma fillKeys_new:
  assumes "tags_ok st"
  shows "new_keys t st keys \<Longrightarrow> new_keys t st (fillKeys t ckID st is keys)"
proof (induction "is" arbitrary: keys)
  case (Cons i "is")
  have "i mod slotNumber < slotNumber" by (simp add: slotNumber_def)
  then have "new_keys t st (keys(i mod slotNumber := AList.update
      (genKey t ckID (i mod slotNumber) i (getTag st (i mod slotNumber))) [] (keys (i mod slotNumber))))"
    using Cons.prems Slot_genKey [OF assms]
    by (auto simp: new_keys_def wf_map_update update_conv' genKey_not_lua split: if_splits)
  then show ?case unfolding fillKeys.simps Let_def by (rule Cons.IH)
qed simp

lemma fillKeys_nonempty:
  "keys s \<noteq> [] \<or> s \<in> (\<lambda>i. i mod slotNumber) ` set is \<Longrightarrow> fillKeys t ckID st is keys s \<noteq> []"
proof (induction "is" arbitrary: keys)
  case (Cons i "is")
  have "AList.update k v m \<noteq> []" for k :: string and v :: string and m by (cases m) auto
  with Cons show ?case by (auto simp: Let_def)
qed simp

lemma newKVChecker_run:
  "\<exists>t n ks. newKVChecker E ckID st w = (Inr (), w\<lparr>kv_tick := n,
      kv_keys := fillKeys t ckID st [0..<maxKeysNum] (\<lambda>_. []), kv_luaKeys := ks, kv_luaValue := []\<rparr>) \<and>
    (\<forall>k \<in> set ks. lua_form t k)"
proof -
  define t where "t = ke_nano E (kv_tick w)"
  let ?w = "w\<lparr>kv_tick := Suc (kv_tick w)\<rparr>"
  define keys where "keys = fillKeys t ckID st [0..<maxKeysNum] (\<lambda>_. [])"
  obtain ks n where ks: "genLuaKeys E t ckID [0..<10] ?w = (Inr ks, ?w\<lparr>kv_tick := n\<rparr>)" "\<forall>k \<in> set ks. lua_form t k"
    using genLuaKeys_run by blast
  then have "newKVChecker E ckID st w = (Inr (), w\<lparr>kv_tick := n, kv_keys := keys, kv_luaKeys := ks, kv_luaValue := []\<rparr>)"
    by (simp add: newKVChecker_def bindE_def choice_def t_def [symmetric] keys_def [symmetric] del: upt_rec_numeral)
  with ks(2) show ?thesis unfolding keys_def by blast
qed

lemma newKVChecker_inv:
  assumes "tags_ok st" and "newKVChecker E ckID st w = (r, w0)" and "cl_trace w = []" and "pool_ok w"
  shows "r = Inr () \<and> kv_inv (own_keys w0) Map.empty w0"
proof -
  obtain t n ks where new: "newKVChecker E ckID st w = (Inr (), w\<lparr>kv_tick := n,
      kv_keys := fillKeys t ckID st [0..<maxKeysNum] (\<lambda>_. []), kv_luaKeys := ks, kv_luaValue := []\<rparr>)"
    and lua: "\<forall>k \<in> set ks. lua_form t k"
    using newKVChecker_run by blast
  define keys where "keys = fillKeys t ckID st [0..<maxKeysNum] (\<lambda>_. [])"
  have run: "r = Inr ()" "w0 = w\<lparr>kv_tick := n, kv_keys := keys, kv_luaKeys := ks, kv_luaValue := []\<rparr>"
    using new assms(2) by (simp_all add: keys_def)
  have keys: "new_keys t st keys"
    unfolding keys_def by (rule fillKeys_new [OF assms(1)]) (simp add: new_keys_def wf_map_def)
  have ne: "keys s \<noteq> []" if "s < slotNumber" for s
  proof -
    have "s = s mod slotNumber" "s < maxKeysNum" using that by (simp_all add: maxKeysNum_def)
    then show ?thesis unfolding keys_def by (intro fillKeys_nonempty) force
  qed
  have "shape (own_keys w0) w0"
    using keys ne lua by (auto simp: shape_def own_keys_def run(2) new_keys_def)
  moreover have "agrees (store_of (cl_trace w0)) Map.empty w0"
    using keys assms(3) by (auto simp: agrees_def run(2) expects_def new_keys_def)
  ultimately show ?thesis using assms(4) by (simp add: kv_inv_def run pool_ok_def)
qed

subsection \<open>The property\<close>

lemma store_of_start: "cl_trace kv_start = []" "pool_ok kv_start"
  by (simp_all add: kv_start_def pool_ok_def)

text \<open>
  A new checker of a cluster that answers every read of the checker's keys with what is
  stored ends, whatever is redirected or fails, with the end of its context or an error of a command: it reports no
  inconsistency and does not panic.
\<close>

theorem no_false_alarm:
  assumes "order_law E" and "tags_ok st" and "cl_trace w = []" and "pool_ok w"
    and "newKVChecker E ckID st w = (r, w0)" and "honest (ke_net E) (own_keys w0)"
    and "loopCheck E w0 = Some (q, w')"
  shows "r = Inr () \<and> (\<exists>e. q = Inl e \<and> \<not> false_alarm e)"
  using newKVChecker_inv [OF assms(2,5,3,4)] loopCheck_no_false_alarm [OF assms(7,1,6)] by simp

theorem no_false_alarm_witness:
  "\<exists>st w0 e w'. tags_ok st \<and> newKVChecker kv_sample_env 1 st kv_start = (Inr (), w0) \<and>
    loopCheck kv_sample_env w0 = Some (Inl e, w') \<and> \<not> false_alarm e"
proof -
  obtain st where st: "tags_ok st"
    using newSlotTags_ok [of uuid_stream 0] uuid_stream_format uuid_stream_slot by blast
  obtain r w0 where new: "newKVChecker kv_sample_env 1 st kv_start = (r, w0)" by fastforce
  obtain q w' where loop: "loopCheck kv_sample_env w0 = Some (Inl q, w')"
    using loopCheck_returns [of 1001 kv_sample_env w0] by (auto simp: kv_sample_env_def)
  have "order_law kv_sample_env" "honest (ke_net kv_sample_env) (own_keys w0)"
    by (simp_all add: order_law_def kv_sample_env_def store_net_honest)
  from no_false_alarm [OF this(1) st store_of_start new this(2) loop] new st loop
  show ?thesis by auto
qed

end
