(* ===== verification/Kv_Detection.thy ===== *)
theory Kv_Detection
  imports Kv_Safety
begin

section \<open>A check that passes has seen what it expects\<close>

text \<open>
  The converse of \<open>Kv_Safety\<close>, for any cluster: a check that ends without an error has had every
  read answered with the value the checker expects, so a wrong answer never goes unnoticed.
  \<open>kvp P m Q\<close> is partial correctness of a run that returns a value. The checks also keep the
  shape of the checker's maps, whatever the answers.
\<close>

fun as_expected :: "kv_state \<Rightarrow> sent \<Rightarrow> bool" where
  "as_expected w (Sent a (CGet k) (Inr v)) = (\<exists>s. v = RString s \<and> expects w k = Some s)"
| "as_expected w (Sent a (CGet k) (Inl RedisNil)) = (expects w k = Some [])"
| "as_expected w (Sent a (CMGet ks) (Inr v)) = (\<exists>vs. v = RList (map reply_of vs) \<and>
    map nil2Empty vs = map (\<lambda>k. nil2Empty (expects w k)) ks)"
| "as_expected w (Sent a (CEval script ks as) (Inr v)) = (script = luaMGetScript \<longrightarrow>
    (\<exists>vs. v = RList (map reply_of vs) \<and> length ks \<le> length vs \<and>
      (\<forall>i < length ks. nil2Empty (vs ! i) = kv_luaValue w)))"
| "as_expected w _ = True"

lemma as_expected_redirect: "as_expected w (Sent a cmd (Inl (RedisErr m)))"
  by (cases cmd) simp_all

subsection \<open>What the client has seen\<close>

text \<open>The trace has grown by events with \<open>P\<close>, and nothing else has changed but the pool.\<close>

definition grew :: "'z client_state_scheme \<Rightarrow> (sent \<Rightarrow> bool) \<Rightarrow> 'z client_state_scheme \<Rightarrow> bool" where
  "grew w P w' \<longleftrightarrow> (\<exists>hops p. w' = w\<lparr>cl_trace := cl_trace w @ hops, cl_pool := p\<rparr> \<and> pool_ok w' \<and>
    (\<forall>ev \<in> set hops. P ev))"

lemma grew_mono: "grew w P w' \<Longrightarrow> (\<And>ev. P ev \<Longrightarrow> Q ev) \<Longrightarrow> grew w Q w'"
  by (auto simp: grew_def)

text \<open>The events of one command: redirections, and at most one answer that gave the result.\<close>

definition gives :: "command \<Rightarrow> (client_error \<times> string) + (reply \<times> string) \<Rightarrow> sent \<Rightarrow> bool" where
  "gives cmd res ev \<longleftrightarrow>
    (\<exists>a m. ev = Sent a cmd (Inl (RedisErr m))) \<or>
    (\<exists>a. ev = Sent a cmd (Inl RedisNil) \<and> (\<exists>b. res = Inl (FromRedis RedisNil, b))) \<or>
    (\<exists>v b. ev = Sent b cmd (Inr v) \<and> res = Inr (v, b))"

lemma parseMoved_nil: "parseMoved RedisNil = Inl (FromRedis RedisNil)"
  by (simp add: parseMoved_def redis_text_def)

lemma chain_gives:
  "redirect_chain cmd a hops \<Longrightarrow> ev \<in> set hops \<Longrightarrow> gives cmd (chain_result tried hops) ev"
proof (induction hops arbitrary: a tried)
  case (Cons h rest)
  obtain b c r where h: "h = Sent b c r" by (cases h)
  show ?case
  proof (cases rest)
    case Nil
    show ?thesis
    proof (cases r)
      case (Inl e)
      then show ?thesis using Nil Cons.prems h by (cases e) (auto simp: gives_def parseMoved_nil)
    qed (use Nil Cons.prems h in \<open>auto simp: gives_def\<close>)
  next
    case (Cons h' rest')
    then obtain e a' where r: "r = Inl e" "parseMoved e = Inr a'" "redirect_chain cmd a' rest" "c = cmd"
      using Cons.prems(1) h by (auto split: sum.splits)
    have "e \<noteq> RedisNil" using r(2) parseMoved_nil by auto
    then have "gives cmd (chain_result tried (h # rest)) h" using r h by (cases e) (auto simp: gives_def)
    moreover have "chain_result tried (h # rest) = chain_result (tried @ [sent_address (hd rest)]) rest"
      using h Cons by simp
    ultimately show ?thesis using Cons.IH [OF r(3)] Cons.prems(2) by auto
  qed
qed simp

lemma Exec_grew:
  assumes "pool_ok w" and "Exec net False node (process net cmd) w = (res, w')"
  shows "grew w (gives cmd res) w'"
proof -
  obtain hops p where h: "w' = w\<lparr>cl_trace := cl_trace w @ hops, cl_pool := p\<rparr>" "pool_ok w'"
    "redirect_chain cmd node hops" "res = chain_result [node] hops"
    using Exec_chain [OF assms] by blast
  then show ?thesis using chain_gives [OF h(3)] unfolding grew_def by blast
qed

lemma string_values_Some: "string_values vals = Some vs \<Longrightarrow> vals = map reply_of vs"
  by (induction vals arbitrary: vs rule: string_values.induct) auto

lemma client_Get_grew:
  assumes "pool_ok w" and "client_Get net False node k w = (Inr x, w')"
  shows "grew w (\<lambda>ev. expects c k = Some (nil2Empty (fst x)) \<longrightarrow> as_expected c ev) w'"
proof -
  obtain res u where ex: "Exec net False node (process net (CGet k)) w = (res, u)" by fastforce
  show ?thesis
    using assms(2) Exec_grew [OF assms(1) ex]
    by (auto simp: client_Get_def tryE_def ex gives_def as_expected_redirect elim!: grew_mono
        split: sum.splits if_splits reply.splits)
qed

lemma list_grew:
  assumes "pool_ok w" and "bindE (Exec net False node (process net cmd)) list_result w = (Inr (vs, b), w')"
  shows "grew w (\<lambda>ev. (\<exists>a m. ev = Sent a cmd (Inl (RedisErr m))) \<or>
    ev = Sent b cmd (Inr (RList (map reply_of vs)))) w'"
proof -
  obtain res u where ex: "Exec net False node (process net cmd) w = (res, u)" by fastforce
  show ?thesis
    using assms(2) Exec_grew [OF assms(1) ex]
    by (auto simp: bindE_def list_result_def ex gives_def dest!: string_values_Some elim!: grew_mono
        split: sum.splits reply.splits option.splits)
qed

lemma client_MGet_grew:
  assumes "pool_ok w" and "client_MGet net False node ks w = (Inr x, w')"
  shows "grew w (\<lambda>ev. map nil2Empty (fst x) = map (\<lambda>k. nil2Empty (expects c k)) ks \<longrightarrow> as_expected c ev) w'"
  using list_grew [OF assms(1), of net node "CMGet ks" "fst x" "snd x" w'] assms(2)
  by (auto simp: client_MGet_def elim!: grew_mono)

lemma client_LuaMGet_grew:
  assumes "pool_ok w" and "client_LuaMGet net False node ks w = (Inr x, w')"
  shows "grew w (\<lambda>ev. length ks \<le> length (fst x) \<and> (\<forall>i < length ks. nil2Empty (fst x ! i) = kv_luaValue c) \<longrightarrow>
    as_expected c ev) w'"
  using list_grew [OF assms(1), of net node "CEval luaMGetScript ks []" "fst x" "snd x" w'] assms(2)
  by (auto simp: client_LuaMGet_def elim!: grew_mono)

lemma write_grew:
  assumes "pool_ok w" and "bindE (Exec net False node (process net cmd)) (\<lambda>(_, address). returnE address) w = (Inr b, w')"
  shows "grew w (\<lambda>_. True) w'"
proof -
  obtain res u where ex: "Exec net False node (process net cmd) w = (res, u)" by fastforce
  show ?thesis
    using assms(2) Exec_grew [OF assms(1) ex]
    by (auto simp: bindE_def ex elim!: grew_mono split: sum.splits)
qed

subsection \<open>Partial correctness\<close>

definition kvp :: "(kv_state \<Rightarrow> bool) \<Rightarrow> 'a kv \<Rightarrow> ('a \<Rightarrow> kv_state \<Rightarrow> bool) \<Rightarrow> bool" where
  "kvp P m Q \<longleftrightarrow> (\<forall>w x w'. P (core w) \<longrightarrow> m w = (Inr x, w') \<longrightarrow> Q x (core w'))"

lemma kvp_of_kvt: "kvt P m Q \<Longrightarrow> kvp P m Q"
  unfolding kvt_def kvp_def by fastforce

lemma kvp_bind: "kvp P m R \<Longrightarrow> (\<And>x. kvp (R x) (f x) Q) \<Longrightarrow> kvp P (bindE m f) Q"
  unfolding kvp_def bindE_eq_Inr by blast

lemma kvp_pre: "kvp P' m Q \<Longrightarrow> (\<And>w. P w \<Longrightarrow> P' w) \<Longrightarrow> kvp P m Q"
  unfolding kvp_def by blast

lemma kvp_post: "kvp P m Q' \<Longrightarrow> (\<And>x w. Q' x w \<Longrightarrow> Q x w) \<Longrightarrow> kvp P m Q"
  unfolding kvp_def by blast

lemma kvp_each: "(\<And>c. P c \<Longrightarrow> kvp (\<lambda>w. w = c) m Q) \<Longrightarrow> kvp P m Q"
  unfolding kvp_def by blast

lemma kvp_at:
  assumes "\<And>w. P w \<Longrightarrow> w = c \<and> F" and "F \<Longrightarrow> kvp (\<lambda>w. w = c) m Q"
  shows "kvp P m Q"
  using assms unfolding kvp_def by blast

lemma kvp_return: "(\<And>w. P w \<Longrightarrow> Q x w) \<Longrightarrow> kvp P (returnE x) Q"
  by (simp add: kvp_def)

lemma kvp_if: "(b \<Longrightarrow> kvp P m Q) \<Longrightarrow> (\<not> b \<Longrightarrow> kvp P n Q) \<Longrightarrow> kvp P (if b then m else n) Q"
  by simp

lemma kvp_case_prod: "(\<And>a b. kvp (P a b) (f a b) Q) \<Longrightarrow> kvp (case x of (a, b) \<Rightarrow> P a b) (case x of (a, b) \<Rightarrow> f a b) Q"
  by (cases x) simp

lemma kvp_foreach:
  "(\<And>x. x \<in> set xs \<Longrightarrow> kvp I (f x) (\<lambda>_. I)) \<Longrightarrow> kvp I (foreachE f xs) (\<lambda>_. I)"
  by (induction xs) (auto intro: kvp_return kvp_bind simp del: returnE_run)

lemma kvp_call:
  assumes "\<And>w node x w'. core w = c \<Longrightarrow> cmd (ke_net E) False node w = (Inr x, w') \<Longrightarrow> grew w (P x) w'"
  shows "kvp (\<lambda>w. w = c) (onClient cmd E) (\<lambda>x. grew c (P x))"
  unfolding kvp_def
proof (intro allI impI)
  fix w x w' assume c: "core w = c" and run: "onClient cmd E w = (Inr x, w')"
  obtain r u where cmd: "cmd (ke_net E) False (kv_startupNode w) w = (r, u)" by fastforce
  have "r = Inr x" "u = w'" using run cmd by (auto simp: onClient_def tryE_def split: sum.splits)
  then have "grew w (P x) w'" using assms [OF c] cmd by simp
  then obtain hops p where g: "w' = w\<lparr>cl_trace := cl_trace w @ hops, cl_pool := p\<rparr>" "pool_ok w'" "\<forall>ev \<in> set hops. P x ev"
    unfolding grew_def by blast
  have "core w' = (core w)\<lparr>cl_trace := cl_trace (core w) @ hops, cl_pool := p\<rparr>" by (simp add: g(1) core_def)
  moreover have "pool_ok (core w')" using g(2) by (simp add: pool_ok_def)
  ultimately show "grew c (P x) (core w')" unfolding grew_def c [symmetric] using g(3) by blast
qed

subsection \<open>Reads\<close>

lemma grew_refl: "pool_ok c \<Longrightarrow> grew c P c"
  unfolding grew_def by (intro exI [of _ "[]"] exI [of _ "cl_pool c"]) simp

lemma grew_trans:
  assumes "grew c P w" and "grew w P w'"
  shows "grew c P w'"
proof -
  obtain hops p hops' p' where
    "w = c\<lparr>cl_trace := cl_trace c @ hops, cl_pool := p\<rparr>" "\<forall>ev \<in> set hops. P ev"
    "w' = w\<lparr>cl_trace := cl_trace w @ hops', cl_pool := p'\<rparr>" "pool_ok w'" "\<forall>ev \<in> set hops'. P ev"
    using assms unfolding grew_def by blast
  then show ?thesis unfolding grew_def by (intro exI [of _ "hops @ hops'"] exI [of _ p']) auto
qed

lemma grew_fields:
  assumes "grew c P w"
  shows "expects w = expects c" "kv_luaKeys w = kv_luaKeys c" "kv_luaValue w = kv_luaValue c" "shape K w = shape K c" "pool_ok w"
proof -
  obtain tr p where w: "w = c\<lparr>cl_trace := tr, cl_pool := p\<rparr>" "pool_ok w" using assms unfolding grew_def by blast
  show "expects w = expects c" by (rule ext) (simp add: w(1) expects_def)
  show "kv_luaKeys w = kv_luaKeys c" "kv_luaValue w = kv_luaValue c" "shape K w = shape K c"
    by (simp_all add: w(1) shape_def)
  show "pool_ok w" by (rule w(2))
qed

lemma kvp_checkGet:
  assumes "order_law E" and "shape K c" and "pool_ok c"
  shows "kvp (\<lambda>w. w = c) (checkGet E) (\<lambda>_. grew c (as_expected c))"
proof -
  let ?I = "grew c (as_expected c)"
  let ?body = "\<lambda>(key, expected). bindE (onClient (\<lambda>net debug node. client_Get net debug node key) E)
      (\<lambda>(v, address). let s = nil2Empty v in
        if s \<noteq> expected then throwE (Inconsistent key s expected address) else returnE ())"
  have body: "kvp ?I (?body kv) (\<lambda>_. ?I)" if "kv \<in> set visited" and ch: "chosen c visited" for kv visited
  proof (rule kvp_each)
    fix c1 assume I: "?I c1"
    obtain key expected where kv: "kv = (key, expected)" by (cases kv)
    have exp: "expects c key = Some expected" using chosen_entry [OF ch] that kv by blast
    let ?P = "\<lambda>x :: string option \<times> string. \<lambda>ev. expects c key = Some (nil2Empty (fst x)) \<longrightarrow> as_expected c ev"
    have call: "kvp (\<lambda>w. w = c1) (onClient (\<lambda>net debug node. client_Get net debug node key) E) (\<lambda>x. grew c1 (?P x))"
      by (rule kvp_call) (rule client_Get_grew [OF core_eq(2) [OF _ grew_fields(5) [OF I]]])
    show "kvp (\<lambda>w. w = c1) (?body kv) (\<lambda>_. ?I)"
      unfolding kv prod.case
    proof (rule kvp_bind [OF call])
      fix x :: "string option \<times> string"
      have "?I w" if "grew c1 (?P x) w" "nil2Empty (fst x) = expected" for w
        by (rule grew_trans [OF I], rule grew_mono [OF that(1)]) (use exp that(2) in simp)
      then show "kvp (grew c1 (?P x)) (case x of (v, address) \<Rightarrow> let s = nil2Empty v in
        if s \<noteq> expected then throwE (Inconsistent key s expected address) else returnE ()) (\<lambda>_. ?I)"
        by (cases x) (auto simp: kvp_def Let_def)
    qed
  qed
  show ?thesis
    unfolding checkGet_def
  proof (rule kvp_bind [OF kvp_of_kvt [OF kvt_wait]],
      rule kvp_bind [OF kvp_of_kvt [OF kvt_randomChooseKeys [OF assms(1,2)]]],
      rule kvp_bind [OF kvp_of_kvt [OF kvt_ranged [OF assms(1)]]], rule kvp_at [where c = c])
    fix kvs visited assume "chosen c kvs \<and> mset visited = mset kvs"
    then have "chosen c visited" using chosen_mset by blast
    then show "kvp (\<lambda>w. w = c) (foreachE ?body visited) (\<lambda>_. ?I)"
      by (intro kvp_pre [OF kvp_foreach]) (use body grew_refl [OF assms(3)] in auto)
  qed auto
qed

lemma mgetLoop_passes:
  "mgetLoop kvs address keys vs err w = (Inr (), w') \<Longrightarrow> length keys = length vs \<Longrightarrow>
    err = None \<and> w' = w \<and> map nil2Empty vs = map (\<lambda>k. nil2Empty (map_of kvs k)) keys"
  by (induction kvs address keys vs err rule: mgetLoop.induct) (auto simp: Let_def split: option.splits if_splits)

lemma luaMGetLoop_passes:
  "luaMGetLoop luaValue keys vs err w = (Inr (), w') \<Longrightarrow>
    err = None \<and> w' = w \<and> length keys \<le> length vs \<and> (\<forall>i < length keys. nil2Empty (vs ! i) = luaValue)"
  by (induction luaValue keys vs err rule: luaMGetLoop.induct)
    (auto simp: Let_def less_Suc_eq_0_disj split: option.splits if_splits)

lemma kvp_checkMGet:
  assumes "order_law E" and "shape K c" and "pool_ok c"
  shows "kvp (\<lambda>w. w = c) (checkMGet E) (\<lambda>_. grew c (as_expected c))"
proof -
  let ?read = "\<lambda>kvs keys. bindE (onClient (\<lambda>net debug node. client_MGet net debug node keys) E) (\<lambda>(values, address).
      if length keys \<noteq> length values then throwE (InvalidLen (length keys) (length values))
      else mgetLoop kvs address keys values None)"
  have read: "kvp (\<lambda>w. w = c) (?read kvs keys) (\<lambda>_. grew c (as_expected c))"
    if ch: "chosen c kvs" and keys: "mset keys = mset (map fst kvs)" for kvs keys
  proof -
    let ?P = "\<lambda>x :: string option list \<times> string. \<lambda>ev.
      map nil2Empty (fst x) = map (\<lambda>k. nil2Empty (expects c k)) keys \<longrightarrow> as_expected c ev"
    have exp: "expects c k = map_of kvs k" if "k \<in> set keys" for k
    proof -
      have "k \<in> dom (map_of kvs)" using that mset_eq_setD [OF keys] by (simp add: dom_map_of_conv_image_fst)
      then show ?thesis using ch by (auto simp: chosen_def)
    qed
    have call: "kvp (\<lambda>w. w = c) (onClient (\<lambda>net debug node. client_MGet net debug node keys) E) (\<lambda>x. grew c (?P x))"
      by (rule kvp_call) (rule client_MGet_grew [OF core_eq(2) [OF _ assms(3)]])
    show ?thesis
    proof (rule kvp_bind [OF call])
      fix x :: "string option list \<times> string"
      have ok: "grew c (as_expected c) w"
        if g: "grew c (?P x) w" and "map nil2Empty (fst x) = map (\<lambda>k. nil2Empty (map_of kvs k)) keys" for w
      proof (rule grew_mono [OF g])
        have "map nil2Empty (fst x) = map (\<lambda>k. nil2Empty (expects c k)) keys" using that(2) exp by simp
        then show "?P x ev \<Longrightarrow> as_expected c ev" for ev by blast
      qed
      show "kvp (grew c (?P x)) (case x of (values, address) \<Rightarrow>
          if length keys \<noteq> length values then throwE (InvalidLen (length keys) (length values))
          else mgetLoop kvs address keys values None) (\<lambda>_. grew c (as_expected c))"
        unfolding kvp_def using ok by (cases x) (auto dest!: mgetLoop_passes split: if_splits)
    qed
  qed
  show ?thesis
    unfolding checkMGet_def
  proof (rule kvp_bind [OF kvp_of_kvt [OF kvt_randomChooseKeysInSameSlot [OF assms(1,2)]]], rule kvp_case_prod,
      rule kvp_at [where c = c])
    fix slot kvs assume ch: "chosen c kvs \<and> same_slot slot kvs"
    have "kvp (\<lambda>w. w = c) (bindE (waitN E 10) (\<lambda>_. bindE (getKeys E kvs) (?read kvs))) (\<lambda>_. grew c (as_expected c))"
      by (rule kvp_bind [OF kvp_of_kvt [OF kvt_wait]], rule kvp_bind [OF kvp_of_kvt [OF kvt_getKeys [OF assms(1)]]],
          rule kvp_at [where c = c], assumption) (use read ch in blast)
    then show "kvp (\<lambda>w. w = c) (if length kvs = 0 then returnE () else
        bindE (waitN E 10) (\<lambda>_. bindE (getKeys E kvs) (?read kvs))) (\<lambda>_. grew c (as_expected c))"
      using grew_refl [OF assms(3)] by (intro kvp_if kvp_return) simp_all
  qed auto
qed

lemma kvp_gets_at:
  assumes "\<And>w. f (core w) = f w" and "kvp (\<lambda>w. w = c) (m (f c)) Q"
  shows "kvp (\<lambda>w. w = c) (bindE (getsE f) m) Q"
  unfolding kvp_def
proof (intro allI impI)
  fix w x w' assume "core w = c" and "bindE (getsE f) m w = (Inr x, w')"
  then show "Q x (core w')" using assms(2) assms(1) [of w] unfolding kvp_def by (auto simp: bindE_def)
qed

lemma kvp_checkLuaMGet:
  assumes "pool_ok c"
  shows "kvp (\<lambda>w. w = c) (checkLuaMGet E) (\<lambda>_. grew c (as_expected c))"
proof -
  let ?ks = "kv_luaKeys c"
  let ?P = "\<lambda>x :: string option list \<times> string. \<lambda>ev.
    length ?ks \<le> length (fst x) \<and> (\<forall>i < length ?ks. nil2Empty (fst x ! i) = kv_luaValue c) \<longrightarrow> as_expected c ev"
  have call: "kvp (\<lambda>w. w = c) (onClient (\<lambda>net debug node. client_LuaMGet net debug node ?ks) E) (\<lambda>x. grew c (?P x))"
    by (rule kvp_call) (rule client_LuaMGet_grew [OF core_eq(2) [OF _ assms]])
  have "kvp (\<lambda>w. w = c) (bindE (onClient (\<lambda>net debug node. client_LuaMGet net debug node ?ks) E)
      (\<lambda>(values, _). bindE (getsE kv_luaValue) (\<lambda>luaValue. luaMGetLoop luaValue ?ks values None)))
      (\<lambda>_. grew c (as_expected c))"
  proof (rule kvp_bind [OF call])
    fix x :: "string option list \<times> string"
    show "kvp (grew c (?P x))
      (case x of (values, _) \<Rightarrow> bindE (getsE kv_luaValue) (\<lambda>luaValue. luaMGetLoop luaValue ?ks values None))
      (\<lambda>_. grew c (as_expected c))"
      unfolding kvp_def
    proof (intro allI impI)
      fix w y w' assume g: "grew c (?P x) (core w)"
        and run: "(case x of (values, _) \<Rightarrow> bindE (getsE kv_luaValue) (\<lambda>luaValue. luaMGetLoop luaValue ?ks values None)) w = (Inr y, w')"
      have "kv_luaValue w = kv_luaValue c" using grew_fields(3) [OF g] by simp
      then have "w' = w \<and> length ?ks \<le> length (fst x) \<and> (\<forall>i < length ?ks. nil2Empty (fst x ! i) = kv_luaValue c)"
        using run by (cases x) (auto simp: bindE_def dest: luaMGetLoop_passes)
      then show "grew c (as_expected c) (core w')" using g by (auto elim: grew_mono)
    qed
  qed
  then show ?thesis
    unfolding checkLuaMGet_def
    by (intro kvp_gets_at, simp, intro kvp_bind [OF kvp_of_kvt [OF kvt_wait]])
qed

subsection \<open>Every check keeps the shape of the maps\<close>

definition well_formed :: "string set \<Rightarrow> kv_state \<Rightarrow> bool" where
  "well_formed K w \<longleftrightarrow> shape K w \<and> pool_ok w"

definition tracking :: "string set \<Rightarrow> string set \<Rightarrow> kv_state \<Rightarrow> bool" where
  "tracking K ks w \<longleftrightarrow> well_formed K w \<and> (\<forall>k \<in> ks. expects w k \<noteq> None)"

lemma well_formed_core: "well_formed K (core w) = well_formed K w"
  by (simp add: well_formed_def shape_def pool_ok_def)

lemma well_formed_grew: "tracking K ks c \<Longrightarrow> grew c P w \<Longrightarrow> tracking K ks w"
  by (simp add: tracking_def well_formed_def grew_fields(4,5) grew_fields(1) [of c P w])

lemma kvp_write:
  assumes "\<And>node w b w'. pool_ok w \<Longrightarrow> cmd (ke_net E) False node w = (Inr b, w') \<Longrightarrow> grew w (\<lambda>_. True) w'"
  shows "kvp (tracking K ks) (onClient cmd E) (\<lambda>_. tracking K ks)"
proof (rule kvp_each)
  fix c assume c: "tracking K ks c"
  have "kvp (\<lambda>w. w = c) (onClient cmd E) (\<lambda>_. grew c (\<lambda>_. True))"
    by (rule kvp_call) (use assms core_eq(2) c tracking_def well_formed_def in blast)
  then show "kvp (\<lambda>w. w = c) (onClient cmd E) (\<lambda>_. tracking K ks)"
    by (rule kvp_post) (rule well_formed_grew [OF c])
qed

lemma well_formed_with_key: "well_formed K w \<Longrightarrow> expects w k \<noteq> None \<Longrightarrow> well_formed K (with_key k v w)"
  using shape_with_key [of K w k v] by (simp add: well_formed_def) (simp add: pool_ok_def with_key_def)

lemma kvp_setKey:
  assumes "k \<in> ks" and "Slot k = slot"
  shows "kvp (tracking K ks) (setKey slot k v) (\<lambda>_. tracking K ks)"
  using assms
  by (auto simp: kvp_def setKey_run core_with_key expects_with_key well_formed_core tracking_def
      intro!: well_formed_with_key)

text \<open>A state with the invariant and keys of it: how a check starts and ends.\<close>

lemma tracking_chosen: "well_formed K c \<Longrightarrow> chosen c kvs \<Longrightarrow> tracking K (fst ` set kvs) c"
  using chosen_tracked [of c kvs] by (simp add: tracking_def dom_map_of_conv_image_fst)

lemma kvp_tracked:
  "kvp (tracking K ks) m (\<lambda>_. tracking K ks) \<Longrightarrow> tracking K ks c \<Longrightarrow> kvp (\<lambda>w. w = c) m (\<lambda>_. well_formed K)"
  unfolding kvp_def by (metis tracking_def)

lemma same_slotD: "same_slot slot kvs \<Longrightarrow> k \<in> fst ` set kvs \<Longrightarrow> Slot k = slot"
  unfolding same_slot_def dom_map_of_conv_image_fst by blast

lemma kvp_setKeys:
  assumes "\<And>kv. kv \<in> set kvs \<Longrightarrow> fst kv \<in> ks" and "\<And>k. k \<in> ks \<Longrightarrow> Slot k = slot"
  shows "kvp (tracking K ks) (foreachE (\<lambda>(k, v). setKey slot k v) kvs) (\<lambda>_. tracking K ks)"
  by (rule kvp_foreach) (use assms in \<open>auto intro!: kvp_setKey\<close>)

lemma kvp_checkSet:
  assumes "order_law E"
  shows "kvp (well_formed K) (checkSet E) (\<lambda>_. well_formed K)"
proof (rule kvp_each)
  fix c assume c: "well_formed K c"
  then have shape: "shape K c" by (simp add: well_formed_def)
  let ?body = "\<lambda>(k, _ :: string). bindE (genNewValue E k) (\<lambda>v.
      bindE (onClient (\<lambda>net debug node. client_Set net debug node k v) E) (\<lambda>_. setKey (Slot k) k v))"
  have body: "kvp (tracking K (fst ` set visited)) (?body kv) (\<lambda>_. tracking K (fst ` set visited))"
    if "kv \<in> set visited" for kv visited
  proof -
    obtain k old where kv: "kv = (k, old)" by (cases kv)
    then have k: "k \<in> fst ` set visited" using that by force
    show ?thesis unfolding kv prod.case
      by (rule kvp_bind [OF kvp_of_kvt [OF kvt_genNewValue]], rule kvp_bind [OF kvp_write])
        (auto simp: client_Set_def intro!: write_grew kvp_setKey [OF k])
  qed
  show "kvp (\<lambda>w. w = c) (checkSet E) (\<lambda>_. well_formed K)"
    unfolding checkSet_def
  proof (rule kvp_bind [OF kvp_of_kvt [OF kvt_wait]],
      rule kvp_bind [OF kvp_of_kvt [OF kvt_randomChooseKeys [OF assms shape]]],
      rule kvp_bind [OF kvp_of_kvt [OF kvt_ranged [OF assms]]], rule kvp_at [where c = c])
    fix kvs visited assume "chosen c kvs \<and> mset visited = mset kvs"
    then have "chosen c visited" using chosen_mset by blast
    then show "kvp (\<lambda>w. w = c) (foreachE ?body visited) (\<lambda>_. well_formed K)"
      by (intro kvp_tracked [OF kvp_foreach [OF body]] tracking_chosen [OF c])
  qed auto
qed

lemma kvp_msetRest:
  assumes "order_law E" and "wf_map kvs" and "fst ` set new = fst ` set kvs" and "same_slot slot kvs"
  shows "kvp (tracking K (fst ` set kvs))
    (bindE (onClient (\<lambda>net debug node. client_MSet net debug node args) E) (\<lambda>_.
      bindE (ranged E (foldl (\<lambda>m (k, v). AList.update k v m) kvs new)) (\<lambda>visited.
        foreachE (\<lambda>(k, v). setKey slot k v) visited))) (\<lambda>_. tracking K (fst ` set kvs))"
proof (rule kvp_bind [OF kvp_write])
  let ?kvs = "foldl (\<lambda>m (k, v). AList.update k v m) kvs new"
  have "dom (map_of ?kvs) = dom (map_of kvs) \<union> dom (map_of (rev new))"
    using conjunct2 [OF update_entries [OF assms(2), of new]] by (simp add: Un_commute)
  then have entries: "fst ` set ?kvs = fst ` set kvs" using assms(3) by (simp add: dom_map_of_conv_image_fst)
  show "kvp (tracking K (fst ` set kvs)) (bindE (ranged E ?kvs) (\<lambda>visited. foreachE (\<lambda>(k, v). setKey slot k v) visited))
    (\<lambda>_. tracking K (fst ` set kvs))"
  proof (rule kvp_bind [OF kvp_of_kvt [OF kvt_ranged [OF assms(1)]]])
    fix visited
    show "kvp (\<lambda>w. tracking K (fst ` set kvs) w \<and> mset visited = mset ?kvs)
      (foreachE (\<lambda>(k, v). setKey slot k v) visited) (\<lambda>_. tracking K (fst ` set kvs))"
    proof (cases "mset visited = mset ?kvs")
      case True
      then have "fst ` set visited = fst ` set kvs" using entries mset_eq_setD by metis
      then have "kvp (tracking K (fst ` set kvs)) (foreachE (\<lambda>(k, v). setKey slot k v) visited)
          (\<lambda>_. tracking K (fst ` set kvs))"
        by (intro kvp_setKeys same_slotD [OF assms(4)]) auto
      then show ?thesis by (rule kvp_pre) simp
    qed (simp add: kvp_def)
  qed
qed (simp add: client_MSet_def write_grew)

lemma kvp_checkMSet:
  assumes "order_law E"
  shows "kvp (well_formed K) (checkMSet E) (\<lambda>_. well_formed K)"
proof (rule kvp_each)
  fix c assume c: "well_formed K c"
  then have shape: "shape K c" by (simp add: well_formed_def)
  show "kvp (\<lambda>w. w = c) (checkMSet E) (\<lambda>_. well_formed K)"
    unfolding checkMSet_def Let_def
  proof (rule kvp_bind [OF kvp_of_kvt [OF kvt_wait]],
      rule kvp_bind [OF kvp_of_kvt [OF kvt_randomChooseKeysInSameSlot [OF assms shape]]], rule kvp_case_prod,
      rule kvp_bind [OF kvp_of_kvt [OF kvt_ranged [OF assms]]], rule kvp_at [where c = c])
    fix slot kvs visited
    assume ch: "chosen c kvs \<and> same_slot slot kvs \<and> mset visited = mset kvs"
    have rest: "kvp (\<lambda>w. w = c)
      (bindE (onClient (\<lambda>net debug node. client_MSet net debug node (concat (map (\<lambda>(k, v). [k, v]) new))) E) (\<lambda>_.
      bindE (ranged E (foldl (\<lambda>m (k, v). AList.update k v m) kvs new)) (\<lambda>visited'.
        foreachE (\<lambda>(k, v). setKey slot k v) visited'))) (\<lambda>_. well_formed K)"
      if "map fst new = map fst visited" for new
    proof -
      have "fst ` set new = fst ` set kvs" using that ch by (metis list.set_map mset_eq_setD)
      then show ?thesis
        using ch c by (intro kvp_tracked [OF kvp_msetRest [OF assms]] tracking_chosen) (simp_all add: chosen_def)
    qed
    show "kvp (\<lambda>w. w = c) (bindE (newValues E visited) (\<lambda>new.
      bindE (onClient (\<lambda>net debug node. client_MSet net debug node (concat (map (\<lambda>(k, v). [k, v]) new))) E) (\<lambda>_.
      bindE (ranged E (foldl (\<lambda>m (k, v). AList.update k v m) kvs new)) (\<lambda>visited'.
        foreachE (\<lambda>(k, v). setKey slot k v) visited')))) (\<lambda>_. well_formed K)"
      by (rule kvp_bind [OF kvp_of_kvt [OF kvt_newValues]], rule kvp_at [where c = c], assumption, rule rest)
  qed auto
qed

lemma kvp_checkDel:
  assumes "order_law E"
  shows "kvp (well_formed K) (checkDel E) (\<lambda>_. well_formed K)"
proof (rule kvp_each)
  fix c assume c: "well_formed K c"
  then have shape: "shape K c" by (simp add: well_formed_def)
  let ?del = "\<lambda>slot keys. bindE (onClient (\<lambda>net debug node. client_Del net debug node keys) E)
      (\<lambda>_. foreachE (\<lambda>k. setKey slot k []) keys)"
  show "kvp (\<lambda>w. w = c) (checkDel E) (\<lambda>_. well_formed K)"
    unfolding checkDel_def
  proof (rule kvp_bind [OF kvp_of_kvt [OF kvt_randomChooseKeysInSameSlot [OF assms shape]]], rule kvp_case_prod,
      rule kvp_at [where c = c])
    fix slot kvs assume ch: "chosen c kvs \<and> same_slot slot kvs"
    have del: "kvp (tracking K (fst ` set kvs)) (?del slot keys) (\<lambda>_. tracking K (fst ` set kvs))"
      if "mset keys = mset (map fst kvs)" for keys
    proof (rule kvp_bind [OF kvp_write])
      have "k \<in> fst ` set kvs" if "k \<in> set keys" for k
        using that mset_eq_setD [OF \<open>mset keys = _\<close>] by simp
      then show "kvp (tracking K (fst ` set kvs)) (foreachE (\<lambda>k. setKey slot k []) keys) (\<lambda>_. tracking K (fst ` set kvs))"
        using same_slotD [OF conjunct2 [OF ch]] by (intro kvp_foreach kvp_setKey) auto
    qed (simp add: client_Del_def write_grew)
    have "kvp (\<lambda>w. w = c) (bindE (waitN E 10) (\<lambda>_. bindE (getKeys E kvs) (?del slot))) (\<lambda>_. well_formed K)"
      by (rule kvp_bind [OF kvp_of_kvt [OF kvt_wait]], rule kvp_bind [OF kvp_of_kvt [OF kvt_getKeys [OF assms]]],
          rule kvp_at [where c = c], assumption, rule kvp_tracked [OF del tracking_chosen [OF c]]) (use ch in auto)
    then show "kvp (\<lambda>w. w = c) (if length kvs = 0 then returnE () else
        bindE (waitN E 10) (\<lambda>_. bindE (getKeys E kvs) (?del slot))) (\<lambda>_. well_formed K)"
      using c by (intro kvp_if kvp_return) simp_all
  qed auto
qed

lemma kvp_checkLuaMSet: "kvp (well_formed K) (checkLuaMSet E) (\<lambda>_. well_formed K)"
proof (rule kvp_each)
  fix c assume c: "well_formed K c"
  have "kvp (tracking K {}) (bindE (onClient (\<lambda>net debug node. client_luaMSet net debug node (kv_luaKeys c)
        (replicate (length (kv_luaKeys c)) v)) E)
      (\<lambda>_. modifyE (\<lambda>w. w\<lparr>kv_luaValue := v\<rparr>))) (\<lambda>_. tracking K {})" for v
  proof (rule kvp_bind [OF kvp_write])
    show "kvp (tracking K {}) (modifyE (\<lambda>w. w\<lparr>kv_luaValue := v\<rparr>)) (\<lambda>_. tracking K {})"
      by (auto simp: kvp_def tracking_def well_formed_def shape_def pool_ok_def)
  qed (simp add: client_luaMSet_def write_grew)
  then have "kvp (\<lambda>w. w = c) (bindE (onClient (\<lambda>net debug node. client_luaMSet net debug node (kv_luaKeys c)
        (replicate (length (kv_luaKeys c)) v)) E)
      (\<lambda>_. modifyE (\<lambda>w. w\<lparr>kv_luaValue := v\<rparr>))) (\<lambda>_. well_formed K)" for v
    by (rule kvp_tracked) (simp add: tracking_def c)
  then show "kvp (\<lambda>w. w = c) (checkLuaMSet E) (\<lambda>_. well_formed K)"
    unfolding checkLuaMSet_def Let_def
    by (intro kvp_gets_at, simp,
        intro kvp_bind [OF kvp_of_kvt [OF kvt_wait]] kvp_bind [OF kvp_of_kvt [OF kvt_choice]])
qed

lemma kvp_read: "kvp (\<lambda>w. w = c) m (\<lambda>_. grew c P) \<Longrightarrow> well_formed K c \<Longrightarrow> kvp (\<lambda>w. w = c) m (\<lambda>_. well_formed K)"
  by (erule kvp_post) (simp add: well_formed_def grew_fields(4,5))

lemma kvp_checkKeyValue:
  assumes "order_law E"
  shows "kvp (well_formed K) (checkKeyValue E) (\<lambda>_. well_formed K)"
proof -
  have reads: "kvp (well_formed K) (checkGet E) (\<lambda>_. well_formed K)" "kvp (well_formed K) (checkMGet E) (\<lambda>_. well_formed K)"
    "kvp (well_formed K) (checkLuaMGet E) (\<lambda>_. well_formed K)"
    by (rule kvp_each, rule kvp_read, rule kvp_checkGet kvp_checkMGet kvp_checkLuaMGet, auto simp: assms well_formed_def)+
  show ?thesis
    unfolding checkKeyValue_def Let_def
    by (rule kvp_bind [OF kvp_of_kvt [OF kvt_choice]])
      (intro kvp_if reads kvp_checkSet kvp_checkMSet kvp_checkLuaMSet kvp_checkDel kvp_return assms; assumption)
qed

subsection \<open>Reachable states\<close>

text \<open>The states of a checker between the rounds of its loop.\<close>

inductive kv_reaches :: "kv_env \<Rightarrow> kv_state \<Rightarrow> kv_state \<Rightarrow> bool" for E w where
  start: "kv_reaches E w w"
| round: "kv_reaches E w u \<Longrightarrow> \<not> ke_done E (kv_tick u) \<Longrightarrow>
    checkKeyValue E (u\<lparr>kv_tick := Suc (kv_tick u)\<rparr>) = (Inr (), v) \<Longrightarrow> kv_reaches E w v"

lemma reaches_well_formed:
  assumes "kv_reaches E w v" and "order_law E" and "well_formed K w"
  shows "well_formed K v"
  using assms
proof (induction rule: kv_reaches.induct)
  case (round u v)
  then have "well_formed K (core (u\<lparr>kv_tick := Suc (kv_tick u)\<rparr>))"
    using well_formed_core [of K u] by simp
  with kvp_checkKeyValue [OF round.prems(1), of K] round.hyps(3) have "well_formed K (core v)"
    unfolding kvp_def by blast
  then show ?case by (simp add: well_formed_core)
qed

lemma new_well_formed:
  assumes "tags_ok st" and "newKVChecker E ckID st w = (r, w0)" and "cl_trace w = []" and "pool_ok w"
  shows "well_formed (own_keys w0) w0"
  using newKVChecker_inv [OF assms] by (simp add: kv_inv_def well_formed_def)

lemma as_expected_core: "as_expected (core u) ev = as_expected u ev"
  by (induction u ev rule: as_expected.induct) simp_all

lemma read_passes:
  assumes "m \<in> {checkGet E, checkMGet E, checkLuaMGet E}" and "order_law E" and "well_formed K u" and "m u = (Inr (), v)"
  shows "\<exists>new. cl_trace v = cl_trace u @ new \<and> (\<forall>ev \<in> set new. as_expected u ev)"
proof -
  have "shape K (core u)" "pool_ok (core u)"
    using assms(3) well_formed_core [of K u] by (simp_all add: well_formed_def)
  note reads = kvp_checkGet [OF assms(2) this] kvp_checkMGet [OF assms(2) this] kvp_checkLuaMGet [OF this(2)]
  have "kvp (\<lambda>w. w = core u) m (\<lambda>_. grew (core u) (as_expected (core u)))"
    using assms(1) reads by auto
  then have "grew (core u) (as_expected (core u)) (core v)" using assms(4) by (simp add: kvp_def)
  then obtain hops p where v: "core v = (core u)\<lparr>cl_trace := cl_trace u @ hops, cl_pool := p\<rparr>"
    "\<forall>ev \<in> set hops. as_expected u ev"
    unfolding grew_def as_expected_core by auto
  have "cl_trace (core v) = cl_trace u @ hops" unfolding v(1) by simp
  then have "cl_trace v = cl_trace u @ hops" by simp
  with v(2) show ?thesis by blast
qed

subsection \<open>Properties\<close>

text \<open>
  C18: Whatever a cluster answers, the maps of a checker stay well-formed: after every round each
  of them has entries, distinct keys that live in the slot of the map, and none of the keys that
  the Lua commands write; no key is ever added.
\<close>

theorem checker_maps_well_formed:
  assumes "order_law E" and "tags_ok st" and "cl_trace w = []" and "pool_ok w"
    and "newKVChecker E ckID st w = (r, w0)" and "kv_reaches E w0 u"
  shows "well_formed (own_keys w0) u"
  using reaches_well_formed [OF assms(6,1)] new_well_formed [OF assms(2,5,3,4)] by blast

text \<open>A checker of \<open>store_net\<close>, and its first round, which reads the keys of the Lua commands.\<close>

definition lua_env :: kv_env where
  "lua_env = kv_sample_env\<lparr>ke_rand := (\<lambda>n. 5), ke_done := (\<lambda>n. False)\<rparr>"

lemma lua_env_laws: "order_law lua_env" "ke_net lua_env = store_net" "ke_wait lua_env t n = None" "ke_rand lua_env n = 5"
  "\<not> ke_done lua_env n"
  by (simp_all add: order_law_def lua_env_def kv_sample_env_def)

lemma lua_read:
  assumes "cl_trace u = []" and "cl_pool u = Map.empty" and "kv_startupNode u = ''a:1''" and "kv_luaValue u = []"
  shows "\<exists>v. checkLuaMGet lua_env u = (Inr (), v) \<and> cl_trace v \<noteq> []"
proof -
  let ?u = "u\<lparr>kv_tick := Suc (kv_tick u)\<rparr>"
  let ?ks = "kv_luaKeys u"
  let ?cmd = "CEval luaMGetScript ?ks []"
  let ?tr = "[Sent ''a:1'' ?cmd (Inl (RedisErr ''MOVED 7 b:1'')),
    Sent ''b:1'' ?cmd (Inr (RList (map (\<lambda>k. reply_of (store_of [] k)) ?ks)))]"
  let ?v = "?u\<lparr>cl_trace := ?tr, cl_pool := [''a:1'' \<mapsto> Conn ''a:1'', ''b:1'' \<mapsto> Conn ''b:1'']\<rparr>"
  have moved: "store_net tr ''a:1'' c = Inl (RedisErr ''MOVED 7 b:1'')" for tr c
    by (simp add: store_net_def)
  have answer: "store_net [Sent ''a:1'' ?cmd (Inl (RedisErr ''MOVED 7 b:1''))] ''b:1'' ?cmd =
      Inr (RList (map (\<lambda>k. reply_of (store_of [] k)) ?ks))"
    using store_of_snoc(2) [of "[]" "''a:1''" ?cmd "RedisErr ''MOVED 7 b:1''"] by (simp add: store_net_def)
  have parse: "parseMoved (RedisErr ''MOVED 7 b:1'') = Inr ''b:1''"
    by (simp add: parseMoved_def redis_text_def)
  have "Exec store_net False ''a:1'' (process store_net ?cmd) ?u =
      (Inr (RList (map (\<lambda>k. reply_of (store_of [] k)) ?ks), ''b:1''), ?v)"
    using assms answer
    by (simp add: Exec_def bindE_def getOrCreateClient_def maxRetryTimes_def eval_nat_numeral execLoop.simps tryE_def
        moved parse)
  then have "onClient (\<lambda>net debug node. client_LuaMGet net debug node ?ks) lua_env ?u =
      (Inr (map (store_of []) ?ks, ''b:1''), ?v)"
    using assms(3) string_values_reply [of "store_of []" ?ks]
    by (simp add: onClient_def tryE_def client_LuaMGet_def bindE_def list_result_def lua_env_laws)
  moreover have "luaMGetLoop [] ?ks (map (store_of []) ?ks) None = returnE ()"
    by (rule luaMGetLoop_match) simp
  ultimately have "checkLuaMGet lua_env u = (Inr (), ?v)"
    using assms(4)
    by (simp add: checkLuaMGet_def waitN_def choice_def bindE_def lua_env_laws)
  then show ?thesis by simp
qed

lemma lua_start:
  "\<exists>st w0. tags_ok st \<and> newKVChecker lua_env 1 st kv_start = (Inr (), w0) \<and> cl_trace w0 = [] \<and>
    cl_pool w0 = Map.empty \<and> kv_startupNode w0 = ''a:1'' \<and> kv_luaValue w0 = []"
proof -
  obtain st where st: "tags_ok st"
    using newSlotTags_ok [of uuid_stream 0] uuid_stream_format uuid_stream_slot by blast
  obtain t n ks where "newKVChecker lua_env 1 st kv_start = (Inr (), kv_start\<lparr>kv_tick := n,
      kv_keys := fillKeys t 1 st [0..<maxKeysNum] (\<lambda>_. []), kv_luaKeys := ks, kv_luaValue := []\<rparr>)"
    using newKVChecker_run by blast
  with st show ?thesis
    by (intro exI [of _ st]) (simp add: kv_start_def)
qed

lemma checkKeyValue_lua: "checkKeyValue lua_env u = checkLuaMGet lua_env (u\<lparr>kv_tick := Suc (kv_tick u)\<rparr>)"
  by (simp add: checkKeyValue_def bindE_def choice_def lua_env_laws)

theorem checker_maps_well_formed_witness:
  "\<exists>st w0 u. newKVChecker lua_env 1 st kv_start = (Inr (), w0) \<and> kv_reaches lua_env w0 u \<and>
    cl_trace u \<noteq> [] \<and> well_formed (own_keys w0) u"
proof -
  obtain st w0 where w0: "tags_ok st" "newKVChecker lua_env 1 st kv_start = (Inr (), w0)" "cl_trace w0 = []"
    "cl_pool w0 = Map.empty" "kv_startupNode w0 = ''a:1''" "kv_luaValue w0 = []"
    using lua_start by blast
  let ?t = "w0\<lparr>kv_tick := Suc (kv_tick w0)\<rparr>"
  obtain u where u: "checkLuaMGet lua_env (?t\<lparr>kv_tick := Suc (kv_tick ?t)\<rparr>) = (Inr (), u)" "cl_trace u \<noteq> []"
    using lua_read [of "?t\<lparr>kv_tick := Suc (kv_tick ?t)\<rparr>"] w0(3-6) by auto
  then have "checkKeyValue lua_env ?t = (Inr (), u)" by (simp only: checkKeyValue_lua)
  from kv_reaches.round [OF kv_reaches.start lua_env_laws(5) this] have "kv_reaches lua_env w0 u" .
  from this checker_maps_well_formed [OF lua_env_laws(1) w0(1) store_of_start w0(2) this] w0(2) u(2)
  show ?thesis by blast
qed

text \<open>
  C14: A GET, MGET or Lua MGET check that passes has had every read it sent answered with the
  values the checker expects, for every key, however the cluster behaves: no wrong answer goes
  unnoticed.
\<close>

theorem passed_reads_are_expected:
  assumes "order_law E" and "tags_ok st" and "cl_trace w = []" and "pool_ok w"
    and "newKVChecker E ckID st w = (r, w0)" and "kv_reaches E w0 u"
    and "m \<in> {checkGet E, checkMGet E, checkLuaMGet E}" and "m u = (Inr (), v)"
  shows "\<exists>new. cl_trace v = cl_trace u @ new \<and> (\<forall>ev \<in> set new. as_expected u ev)"
  using read_passes [OF assms(7,1) _ assms(8)] reaches_well_formed [OF assms(6,1)]
    new_well_formed [OF assms(2,5,3,4)] by blast

theorem passed_reads_are_expected_witness:
  "\<exists>st w0 v new. newKVChecker lua_env 1 st kv_start = (Inr (), w0) \<and> checkLuaMGet lua_env w0 = (Inr (), v) \<and>
    new \<noteq> [] \<and> cl_trace v = cl_trace w0 @ new \<and> (\<forall>ev \<in> set new. as_expected w0 ev)"
proof -
  obtain st w0 where w0: "tags_ok st" "newKVChecker lua_env 1 st kv_start = (Inr (), w0)" "cl_trace w0 = []"
    "cl_pool w0 = Map.empty" "kv_startupNode w0 = ''a:1''" "kv_luaValue w0 = []"
    using lua_start by blast
  obtain v where v: "checkLuaMGet lua_env w0 = (Inr (), v)" "cl_trace v \<noteq> []"
    using lua_read [OF w0(3-6)] by blast
  from passed_reads_are_expected [OF lua_env_laws(1) w0(1) store_of_start w0(2) kv_reaches.start,
      of "checkLuaMGet lua_env" v] w0(2,3) v
  show ?thesis by auto
qed

end
