(* ===== verification/Ring_Buffer.thy ===== *)
theory Ring_Buffer
  imports Prelude
begin

section \<open>The ring buffer of the chaos checker (checker/pkg/monitor.go)\<close>

text \<open>
  \<open>ringBuf\<close> keeps the last lines of a Redis MONITOR session. It is a slice of fixed length
  with two indices; one slot stays free so that \<open>start = end\<close> means empty. The fields are
  Go ints that never become negative, so they are natural numbers; the operations that Go
  would stop with a panic (an index or a slice bound out of range, a negative length) are
  \<open>None\<close>.

  The interface \<open>bounded_log\<close> states what the monitor needs: pushing keeps the newest
  \<open>limit\<close> entries in order. The ring buffer is shown to provide it.
\<close>

subsection \<open>The contract\<close>

definition lastn :: "nat \<Rightarrow> 'a list \<Rightarrow> 'a list" where
  "lastn n xs = drop (length xs - n) xs"

lemma length_lastn [simp]: "length (lastn n xs) = min n (length xs)"
  by (auto simp: lastn_def)

lemma lastn_all [simp]: "length xs \<le> n \<Longrightarrow> lastn n xs = xs"
  by (simp add: lastn_def)

lemma lastn_snoc: "lastn n (lastn n xs @ [x]) = lastn n (xs @ [x])"
proof (cases "length xs < n")
  case True
  then show ?thesis by (simp add: lastn_def)
next
  case False
  then show ?thesis by (cases n) (auto simp: lastn_def Suc_diff_Suc not_less Suc_le_eq)
qed

lemma lastn_append_lastn: "lastn n (lastn n xs @ ys) = lastn n (xs @ ys)"
proof (induction ys rule: rev_induct)
  case Nil
  show ?case by (simp add: lastn_def)
next
  case (snoc y ys)
  then show ?case by (metis append_assoc lastn_snoc)
qed

text \<open>Repeating an operation that may fail, over a list.\<close>

fun fold_opt :: "('q \<Rightarrow> 'a \<Rightarrow> 'q option) \<Rightarrow> 'q \<Rightarrow> 'a list \<Rightarrow> 'q option" where
  "fold_opt f q [] = Some q"
| "fold_opt f q (x # xs) = (case f q x of None \<Rightarrow> None | Some q' \<Rightarrow> fold_opt f q' xs)"

locale bounded_log =
  fixes push :: "'q \<Rightarrow> 'a \<Rightarrow> 'q option"
    and contents :: "'q \<Rightarrow> 'a list option"
    and limit :: "'q \<Rightarrow> nat"
    and invar :: "'q \<Rightarrow> bool"
  assumes contents_defined: "invar q \<Longrightarrow> \<exists>xs. contents q = Some xs"
    and push_spec: "invar q \<Longrightarrow> contents q = Some xs \<Longrightarrow>
      \<exists>q'. push q x = Some q' \<and> invar q' \<and> limit q' = limit q \<and>
           contents q' = Some (lastn (limit q) (xs @ [x]))"
begin

lemma push_all_spec:
  "invar q \<Longrightarrow> contents q = Some ys \<Longrightarrow> length ys \<le> limit q \<Longrightarrow>
    \<exists>q'. fold_opt push q xs = Some q' \<and> invar q' \<and> limit q' = limit q \<and>
         contents q' = Some (lastn (limit q) (ys @ xs))"
proof (induction xs arbitrary: q ys)
  case Nil
  then show ?case by simp
next
  case (Cons x xs)
  obtain q1 where q1: "push q x = Some q1" "invar q1" "limit q1 = limit q"
    "contents q1 = Some (lastn (limit q) (ys @ [x]))"
    using push_spec [OF Cons.prems(1,2)] by blast
  have len: "length (lastn (limit q) (ys @ [x])) \<le> limit q1" by (simp add: q1(3))
  obtain q2 where q2: "fold_opt push q1 xs = Some q2" "invar q2" "limit q2 = limit q"
    "contents q2 = Some (lastn (limit q) (lastn (limit q) (ys @ [x]) @ xs))"
    using Cons.IH [OF q1(2,4) len] q1(3) by metis
  then show ?case using q1 by (simp add: lastn_append_lastn)
qed

end

subsection \<open>The code\<close>

record ringBuf =
  rb_buf :: "string list"
  rb_cap :: nat
  rb_start :: nat
  rb_end :: nat

text \<open>\<open>make([]string, cap, cap)\<close> panics on a negative length.\<close>

definition newRingBuf :: "int \<Rightarrow> ringBuf option" where
  "newRingBuf c =
    (if c < 0 then None
     else Some \<lparr>rb_buf = replicate (nat c) [], rb_cap = nat c, rb_start = 0, rb_end = 0\<rparr>)"

definition rb_len :: "ringBuf \<Rightarrow> nat" where
  "rb_len r = (if rb_start r \<le> rb_end r then rb_end r - rb_start r
               else rb_end r + rb_cap r - rb_start r)"

definition rb_add :: "ringBuf \<Rightarrow> string \<Rightarrow> ringBuf option" where
  "rb_add r item =
    (let r1 = (if rb_len r + 1 = rb_cap r
               then r\<lparr>rb_start := (rb_start r + 1) mod rb_cap r\<rparr> else r)
     in if rb_end r1 < length (rb_buf r1)
        then Some (r1\<lparr>rb_buf := (rb_buf r1)[rb_end r1 := item],
                      rb_end := (rb_end r1 + 1) mod rb_cap r1\<rparr>)
        else None)"

text \<open>The slice expression \<open>xs[lo:hi]\<close> and the built-in \<open>copy(d[off:], src)\<close>.\<close>

definition go_slice :: "'a list \<Rightarrow> nat \<Rightarrow> nat \<Rightarrow> 'a list option" where
  "go_slice xs lo hi = (if lo \<le> hi \<and> hi \<le> length xs then Some (take (hi - lo) (drop lo xs)) else None)"

definition go_copy :: "'a list \<Rightarrow> nat \<Rightarrow> 'a list \<Rightarrow> 'a list option" where
  "go_copy d off src =
    (if off \<le> length d
     then Some (take off d @ take (length d - off) src @ drop (off + length src) d)
     else None)"

definition rb_data :: "ringBuf \<Rightarrow> string list option" where
  "rb_data r =
    (let d = replicate (rb_len r) [] in
     if rb_start r \<le> rb_end r
     then Option.bind (go_slice (rb_buf r) (rb_start r) (rb_end r)) (\<lambda>s. go_copy d 0 s)
     else Option.bind (go_slice (rb_buf r) (rb_start r) (rb_cap r)) (\<lambda>s.
          Option.bind (go_copy d 0 s) (\<lambda>d1.
          if rb_end r \<noteq> 0
          then Option.bind (go_slice (rb_buf r) 0 (rb_end r)) (\<lambda>t. go_copy d1 (rb_cap r - rb_start r) t)
          else Some d1)))"

subsection \<open>Invariant and behaviour\<close>

text \<open>The states the comment in the code enumerates: both indices inside the slice.\<close>

definition rb_inv :: "ringBuf \<Rightarrow> bool" where
  "rb_inv r \<longleftrightarrow> length (rb_buf r) = rb_cap r \<and> rb_start r < rb_cap r \<and> rb_end r < rb_cap r"

text \<open>The contents, oldest first, as the slots from \<open>start\<close> on, modulo the capacity.\<close>

definition rb_abs :: "ringBuf \<Rightarrow> string list" where
  "rb_abs r = map (\<lambda>i. rb_buf r ! ((rb_start r + i) mod rb_cap r)) [0..<rb_len r]"

lemma rb_len_less: "rb_inv r \<Longrightarrow> rb_len r < rb_cap r"
  by (auto simp: rb_inv_def rb_len_def)

lemma rb_end_mod: "rb_inv r \<Longrightarrow> rb_end r = (rb_start r + rb_len r) mod rb_cap r"
  by (auto simp: rb_inv_def rb_len_def)

lemma length_rb_abs [simp]: "length (rb_abs r) = rb_len r"
  by (simp add: rb_abs_def)

lemma mod_wrap: "a < c \<Longrightarrow> i < c \<Longrightarrow> (a + i) mod c = (if a + i < c then a + i else a + i - c)"
  for a :: nat
  by (simp add: le_mod_geq)

lemma rb_data_abs: "rb_inv r \<Longrightarrow> rb_data r = Some (rb_abs r)"
proof (cases "rb_start r \<le> rb_end r")
  case True
  assume inv: "rb_inv r"
  have "take (rb_end r - rb_start r) (drop (rb_start r) (rb_buf r)) = rb_abs r"
    by (rule nth_equalityI) (use inv True in \<open>auto simp: rb_abs_def rb_inv_def rb_len_def\<close>)
  then show ?thesis
    using inv True by (auto simp: rb_data_def go_slice_def go_copy_def rb_inv_def rb_len_def)
next
  case False
  assume inv: "rb_inv r"
  have "drop (rb_start r) (rb_buf r) @ take (rb_end r) (rb_buf r) = rb_abs r"
  proof (rule nth_equalityI)
    fix i
    assume "i < length (drop (rb_start r) (rb_buf r) @ take (rb_end r) (rb_buf r))"
    then show "(drop (rb_start r) (rb_buf r) @ take (rb_end r) (rb_buf r)) ! i = rb_abs r ! i"
      using inv False by (auto simp: rb_abs_def rb_inv_def rb_len_def nth_append mod_wrap add.commute)
  qed (use inv False in \<open>auto simp: rb_inv_def rb_len_def\<close>)
  then show ?thesis
    using inv False
    by (auto simp: rb_data_def go_slice_def go_copy_def rb_inv_def rb_len_def Let_def)
qed

lemma rb_inv_new: "0 < c \<Longrightarrow> \<exists>r. newRingBuf c = Some r \<and> rb_inv r \<and> rb_abs r = [] \<and> rb_cap r = nat c"
  by (auto simp: newRingBuf_def rb_inv_def rb_abs_def rb_len_def)

text \<open>Writing at the free slot appends; moving \<open>start\<close> on drops the oldest entry.\<close>

lemma mod_succ: "a < c \<Longrightarrow> Suc a mod c = (if Suc a = c then 0 else Suc a)"
  by (auto simp: mod_Suc)

lemma rb_push_room:
  fixes x :: string
  assumes "rb_inv r" and "rb_len r + 1 < rb_cap r"
  defines "r' \<equiv> r\<lparr>rb_buf := (rb_buf r)[rb_end r := x], rb_end := (rb_end r + 1) mod rb_cap r\<rparr>"
  shows "rb_inv r'" and "rb_abs r' = rb_abs r @ [x]"
proof -
  show inv: "rb_inv r'"
    using assms by (auto simp: rb_inv_def)
  have len: "rb_len r' = rb_len r + 1"
    using assms by (auto simp: rb_inv_def rb_len_def mod_succ split: if_splits)
  show "rb_abs r' = rb_abs r @ [x]"
  proof (rule nth_equalityI)
    fix i assume i: "i < length (rb_abs r')"
    show "rb_abs r' ! i = (rb_abs r @ [x]) ! i"
    proof (cases "i < rb_len r")
      case True
      then have "(rb_start r + i) mod rb_cap r \<noteq> rb_end r"
        using assms(1) by (auto simp: rb_inv_def rb_len_def mod_wrap split: if_splits)
      then show ?thesis
        using True len by (simp add: rb_abs_def r'_def nth_append)
    next
      case False
      then have "i = rb_len r" using i len by simp
      then show ?thesis
        using assms(1) len rb_end_mod [OF assms(1)]
        by (simp add: rb_abs_def r'_def nth_append rb_inv_def)
    qed
  qed (simp add: len)
qed

lemma rb_drop_oldest:
  assumes "rb_inv r" and "0 < rb_len r"
  defines "r' \<equiv> r\<lparr>rb_start := (rb_start r + 1) mod rb_cap r\<rparr>"
  shows "rb_inv r'" and "rb_abs r' = tl (rb_abs r)" and "rb_len r' + 1 = rb_len r"
proof -
  show "rb_inv r'"
    using assms by (auto simp: rb_inv_def)
  show len: "rb_len r' + 1 = rb_len r"
    using assms by (auto simp: rb_inv_def rb_len_def mod_succ split: if_splits)
  show "rb_abs r' = tl (rb_abs r)"
    by (rule nth_equalityI)
      (use assms(2) len in \<open>auto simp: rb_abs_def r'_def nth_tl mod_simps\<close>)
qed

lemma rb_add_spec:
  assumes inv: "rb_inv r"
  shows "\<exists>r'. rb_add r x = Some r' \<and> rb_inv r' \<and> rb_cap r' = rb_cap r \<and>
    rb_abs r' = lastn (rb_cap r - 1) (rb_abs r @ [x])"
proof (cases "rb_len r + 1 = rb_cap r")
  case room: False
  then have "rb_len r + 1 < rb_cap r" using rb_len_less [OF inv] by simp
  then show ?thesis
    using rb_push_room [OF inv, of x] room inv
    by (auto simp: rb_add_def rb_inv_def)
next
  case full: True
  show ?thesis
  proof (cases "rb_len r = 0")
    case True
    then have "rb_cap r = 1" using full by simp
    then show ?thesis
      using inv full by (auto simp: rb_add_def rb_inv_def rb_abs_def rb_len_def lastn_def)
  next
    case False
    define r1 where "r1 = r\<lparr>rb_start := (rb_start r + 1) mod rb_cap r\<rparr>"
    have r1: "rb_inv r1" "rb_abs r1 = tl (rb_abs r)" "rb_len r1 + 1 < rb_cap r1" "rb_cap r1 = rb_cap r"
      using rb_drop_oldest [OF inv] False full by (auto simp: r1_def)
    have "rb_add r x = Some (r1\<lparr>rb_buf := (rb_buf r1)[rb_end r1 := x],
        rb_end := (rb_end r1 + 1) mod rb_cap r1\<rparr>)"
      using r1(1) full by (simp add: rb_add_def r1_def rb_inv_def)
    moreover have "tl (rb_abs r) @ [x] = lastn (rb_cap r - 1) (rb_abs r @ [x])"
      using full False by (cases "rb_abs r") (auto simp: lastn_def simp flip: length_rb_abs)
    ultimately show ?thesis
      using rb_push_room [OF r1(1,3), of x] r1(2,4) by simp
  qed
qed

interpretation ring: bounded_log rb_add rb_data "\<lambda>r. rb_cap r - 1" rb_inv
proof unfold_locales
  fix r :: ringBuf
  assume "rb_inv r"
  then show "\<exists>xs. rb_data r = Some xs" by (simp add: rb_data_abs)
next
  fix r :: ringBuf and xs x
  assume inv: "rb_inv r" and "rb_data r = Some xs"
  then have "xs = rb_abs r" by (simp add: rb_data_abs)
  then show "\<exists>q'. rb_add r x = Some q' \<and> rb_inv q' \<and> rb_cap q' - 1 = rb_cap r - 1 \<and>
      rb_data q' = Some (lastn (rb_cap r - 1) (xs @ [x]))"
    using rb_add_spec [OF inv, of x] by (auto simp: rb_data_abs)
qed

subsection \<open>The property\<close>

text \<open>
  A new buffer of positive capacity \<open>c\<close> accepts every sequence of lines without a panic,
  and \<open>data\<close> then returns the newest \<open>c - 1\<close> of them, oldest first.
\<close>

theorem ring_keeps_newest:
  assumes "0 < c"
  shows "\<exists>r r'. newRingBuf c = Some r \<and> fold_opt rb_add r xs = Some r' \<and>
    rb_data r' = Some (lastn (nat c - 1) xs)"
proof -
  obtain r where r: "newRingBuf c = Some r" "rb_inv r" "rb_abs r = []" "rb_cap r = nat c"
    using rb_inv_new [OF assms] by blast
  then have "rb_data r = Some []" by (simp add: rb_data_abs)
  from ring.push_all_spec [OF r(2) this, of xs] show ?thesis using r by auto
qed

theorem ring_keeps_newest_witness:
  "\<exists>r r'. newRingBuf 4 = Some r \<and> fold_opt rb_add r [''a'', ''b'', ''c'', ''d''] = Some r' \<and>
    rb_data r' = Some [''b'', ''c'', ''d'']"
  using ring_keeps_newest [of 4 "[''a'', ''b'', ''c'', ''d'']"] by (simp add: lastn_def)

end
