(* ===== verification/Monitor.thy ===== *)
theory Monitor
  imports Ring_Buffer
begin

section \<open>Recording MONITOR output (checker/pkg/monitor.go)\<close>

text \<open>
  A monitor client connects to a Redis node, sends \<open>MONITOR\<close> and keeps the newest lines it reads
  in its ring buffer; when the connection fails it connects again, and \<open>dump\<close> writes what the
  buffers hold to files. The network, the files and the context are answer functions on the
  trace of what has happened. The loops may run forever, so their result is an option. The lock
  makes an addition to the buffer and \<open>getData\<close> atomic, as they are here.
\<close>

datatype mon_event =
    EDial string "string option"
  | EWrite string "string option"
  | EFlush "string option"
  | ERead "string + string"
  | EDone bool
  | EClose
  | ESleep
  | EFile string string "string option"

datatype mon_error = MonErr string | InvalidResponse string | MonExit | MonPanic

record mon_env =
  me_dial :: "mon_event list \<Rightarrow> string \<Rightarrow> string option"
  me_write :: "mon_event list \<Rightarrow> string option"
  me_flush :: "mon_event list \<Rightarrow> string option"
  me_read :: "mon_event list \<Rightarrow> string + string"
  me_done :: "mon_event list \<Rightarrow> bool"
  me_file :: "mon_event list \<Rightarrow> string \<Rightarrow> string option"

record monitorClient =
  mc_addr :: string
  mc_buf :: ringBuf

text \<open>The state while a client runs: the client and the trace.\<close>

record mon_state =
  mn_client :: monitorClient
  mn_trace :: "mon_event list"

type_synonym mon_result = "((mon_error + unit) \<times> mon_state) option"

definition happens :: "mon_event \<Rightarrow> mon_state \<Rightarrow> mon_state" where
  "happens ev c = c\<lparr>mn_trace := mn_trace c @ [ev]\<rparr>"

subsection \<open>Clients\<close>

definition newMonitorClient :: "string \<Rightarrow> int \<Rightarrow> monitorClient option" where
  "newMonitorClient addr bufCap = map_option (\<lambda>b. \<lparr>mc_addr = addr, mc_buf = b\<rparr>) (newRingBuf bufCap)"

fun newMonitorManager :: "string list \<Rightarrow> int \<Rightarrow> monitorClient list option" where
  "newMonitorManager [] bufCap = Some []"
| "newMonitorManager (addr # addrs) bufCap =
    (case newMonitorClient addr bufCap of
       None \<Rightarrow> None
     | Some c \<Rightarrow> map_option ((#) c) (newMonitorManager addrs bufCap))"

definition getData :: "monitorClient \<Rightarrow> string list option" where
  "getData c = rb_data (mc_buf c)"

definition monitorCmd :: string where
  "monitorCmd = ''*1'' @ [CHR 0x0D, CHR 0x0A] @ ''$7'' @ [CHR 0x0D, CHR 0x0A] @ ''MONITOR'' @ [CHR 0x0D, CHR 0x0A]"

definition okResLen :: nat where
  "okResLen = length (''+OK'' @ [CHR 0x0D, CHR 0x0A])"

text \<open>
  A round of the reading loop: the \<open>break\<close> on a context that is done leaves the \<open>select\<close> only,
  so the answer is not used.
\<close>

definition readRound :: "mon_env \<Rightarrow> mon_state \<Rightarrow> (mon_error + unit) \<times> mon_state" where
  "readRound E c =
    (let c = happens (EDone (me_done E (mn_trace c))) c;
         r = me_read E (mn_trace c); c = happens (ERead r) c in
     case r of
       Inl e \<Rightarrow> (Inl (MonErr e), c)
     | Inr line \<Rightarrow>
         (case rb_add (mc_buf (mn_client c)) line of
            None \<Rightarrow> (Inl MonPanic, c)
          | Some b \<Rightarrow> (Inr (), c\<lparr>mn_client := (mn_client c)\<lparr>mc_buf := b\<rparr>\<rparr>)))"

partial_function (option) readLoop :: "mon_env \<Rightarrow> mon_state \<Rightarrow> mon_result" where
  "readLoop E c =
    (case readRound E c of
       (Inl e, c') \<Rightarrow> Some (Inl e, c')
     | (Inr _, c') \<Rightarrow> readLoop E c')"

text \<open>From the connection to the greeting; \<open>defer conn.Close()\<close> once there is a connection.\<close>

definition connect :: "mon_env \<Rightarrow> mon_state \<Rightarrow> (mon_error + unit) \<times> mon_state" where
  "connect E c =
    (let addr = mc_addr (mn_client c); r = me_dial E (mn_trace c) addr; c = happens (EDial addr r) c in
     case r of Some e \<Rightarrow> (Inl (MonErr e), c) | None \<Rightarrow>
    (let r = me_write E (mn_trace c); c = happens (EWrite monitorCmd r) c in
     case r of Some e \<Rightarrow> (Inl (MonErr e), happens EClose c) | None \<Rightarrow>
    (let r = me_flush E (mn_trace c); c = happens (EFlush r) c in
     case r of Some e \<Rightarrow> (Inl (MonErr e), happens EClose c) | None \<Rightarrow>
    (let r = me_read E (mn_trace c); c = happens (ERead r) c in
     case r of Inl e \<Rightarrow> (Inl (MonErr e), happens EClose c) | Inr line \<Rightarrow>
       if length line \<noteq> okResLen then (Inl (InvalidResponse line), happens EClose c) else (Inr (), c)))))"

definition runMonitor :: "mon_env \<Rightarrow> mon_state \<Rightarrow> mon_result" where
  "runMonitor E c =
    (case connect E c of
       (Inl e, c') \<Rightarrow> Some (Inl e, c')
     | (Inr _, c') \<Rightarrow> map_option (\<lambda>(r, c''). (r, happens EClose c'')) (readLoop E c'))"

text \<open>Errors of a session are only logged, but a panic ends the program.\<close>

partial_function (option) monitor_run :: "mon_env \<Rightarrow> mon_state \<Rightarrow> mon_result" where
  "monitor_run E c =
    (let ended = me_done E (mn_trace c); c = happens (EDone ended) c in
     if ended then Some (Inl MonExit, c)
     else case runMonitor E c of
         None \<Rightarrow> None
       | Some (r, c') \<Rightarrow>
           if r = Inl MonPanic then Some (r, c') else monitor_run E (happens ESleep c'))"

text \<open>The files are written in the order of the clients; the first failure ends it.\<close>

fun dump :: "mon_env \<Rightarrow> monitorClient list \<Rightarrow> mon_event list \<Rightarrow> (mon_error + unit) \<times> mon_event list" where
  "dump E [] tr = (Inr (), tr)"
| "dump E (c # cs) tr =
    (case getData c of
       None \<Rightarrow> (Inl MonPanic, tr)
     | Some d \<Rightarrow>
         (let fname = ''monitor-'' @ mc_addr c; r = me_file E tr fname;
              tr' = tr @ [EFile fname (concat d) r] in
          case r of Some e \<Rightarrow> (Inl (MonErr e), tr') | None \<Rightarrow> dump E cs tr'))"

text \<open>The end of \<open>RunKvCheckerService\<close>: \<open>dump\<close> is called every five seconds until it succeeds.\<close>

partial_function (option) dumpLoop ::
  "mon_env \<Rightarrow> monitorClient list \<Rightarrow> mon_event list \<Rightarrow> ((mon_error + unit) \<times> mon_event list) option" where
  "dumpLoop E cs tr =
    (case dump E cs tr of
       (Inr _, tr') \<Rightarrow> Some (Inr (), tr')
     | (Inl e, tr') \<Rightarrow> if e = MonPanic then Some (Inl e, tr') else dumpLoop E cs (tr' @ [ESleep]))"

subsection \<open>What the buffer holds\<close>

text \<open>The lines read after the greeting of each connection.\<close>

fun monitored :: "bool \<Rightarrow> mon_event list \<Rightarrow> string list" where
  "monitored greeting [] = []"
| "monitored greeting (EDial a r # evs) = monitored True evs"
| "monitored greeting (ERead (Inr line) # evs) =
    (if greeting then monitored False evs else line # monitored False evs)"
| "monitored greeting (_ # evs) = monitored greeting evs"

fun awaits_greeting :: "bool \<Rightarrow> mon_event list \<Rightarrow> bool" where
  "awaits_greeting greeting [] = greeting"
| "awaits_greeting greeting (EDial a r # evs) = awaits_greeting True evs"
| "awaits_greeting greeting (ERead (Inr line) # evs) = awaits_greeting False evs"
| "awaits_greeting greeting (_ # evs) = awaits_greeting greeting evs"

lemma monitored_append:
  "monitored g (tr @ evs) = monitored g tr @ monitored (awaits_greeting g tr) evs"
  by (induction g tr rule: monitored.induct) simp_all

lemma awaits_append: "awaits_greeting g (tr @ evs) = awaits_greeting (awaits_greeting g tr) evs"
  by (induction g tr rule: awaits_greeting.induct) simp_all

text \<open>The invariant: the buffer holds the newest lines, all but one of its slots.\<close>

definition mon_inv :: "nat \<Rightarrow> mon_state \<Rightarrow> bool" where
  "mon_inv n c \<longleftrightarrow> rb_inv (mc_buf (mn_client c)) \<and> rb_cap (mc_buf (mn_client c)) = n \<and>
    rb_data (mc_buf (mn_client c)) = Some (lastn (n - 1) (monitored False (mn_trace c)))"

definition in_session :: "mon_state \<Rightarrow> bool" where
  "in_session c \<longleftrightarrow> \<not> awaits_greeting False (mn_trace c)"

lemma mon_inv_happens:
  "mon_inv n c \<Longrightarrow> monitored (awaits_greeting False (mn_trace c)) [ev] = [] \<Longrightarrow> mon_inv n (happens ev c)"
  by (simp add: mon_inv_def happens_def monitored_append)

lemma mon_inv_line:
  assumes "mon_inv n c" and "in_session c"
  shows "\<exists>b. rb_add (mc_buf (mn_client c)) line = Some b \<and>
    mon_inv n ((happens (ERead (Inr line)) c)\<lparr>mn_client := (mn_client c)\<lparr>mc_buf := b\<rparr>\<rparr>)"
proof -
  let ?b = "mc_buf (mn_client c)"
  have inv: "rb_inv ?b" and "rb_data ?b = Some (lastn (n - 1) (monitored False (mn_trace c)))" and n: "rb_cap ?b = n"
    using assms(1) by (simp_all add: mon_inv_def)
  then have abs: "rb_abs ?b = lastn (n - 1) (monitored False (mn_trace c))" by (simp add: rb_data_abs)
  obtain b where b: "rb_add ?b line = Some b" "rb_inv b" "rb_cap b = n"
    "rb_abs b = lastn (n - 1) (lastn (n - 1) (monitored False (mn_trace c)) @ [line])"
    using rb_add_spec [OF inv, of line] abs n by auto
  then show ?thesis
    using assms(2)
    by (simp add: mon_inv_def happens_def monitored_append in_session_def rb_data_abs lastn_snoc)
qed

lemma connect_keeps:
  assumes "mon_inv n c" and "connect E c = (r, c')"
  shows "mon_inv n c' \<and> (r = Inr () \<longrightarrow> in_session c')"
  using assms
  by (auto simp: connect_def Let_def happens_def mon_inv_def in_session_def monitored_append awaits_append
      split: option.splits sum.splits if_splits)

lemma readRound_keeps:
  assumes "mon_inv n c" and "in_session c" and "readRound E c = (r, c')"
  shows "mon_inv n c' \<and> in_session c' \<and> r \<noteq> Inl MonPanic"
proof -
  let ?c = "happens (EDone (me_done E (mn_trace c))) c"
  have inv: "mon_inv n ?c" "in_session ?c"
    using assms(1,2) mon_inv_happens [OF assms(1)] by (simp_all add: in_session_def happens_def awaits_append)
  show ?thesis
  proof (cases "me_read E (mn_trace ?c)")
    case (Inl e)
    then show ?thesis
      using inv assms(3) mon_inv_happens [OF inv(1), of "ERead (Inl e)"]
      by (auto simp: readRound_def Let_def in_session_def happens_def awaits_append)
  next
    case (Inr line)
    obtain b where "rb_add (mc_buf (mn_client ?c)) line = Some b"
      "mon_inv n ((happens (ERead (Inr line)) ?c)\<lparr>mn_client := (mn_client ?c)\<lparr>mc_buf := b\<rparr>\<rparr>)"
      using mon_inv_line [OF inv] by blast
    then show ?thesis
      using inv(2) assms(3) Inr
      by (auto simp: readRound_def Let_def in_session_def happens_def awaits_append)
  qed
qed

subsection \<open>The states of a client\<close>

text \<open>
  Between two steps of \<open>run\<close> a client is idle (\<open>False\<close>) or reads from a connection (\<open>True\<close>).
  \<open>getData\<close> may be called in any of these states.
\<close>

inductive recording :: "mon_env \<Rightarrow> mon_state \<Rightarrow> bool \<Rightarrow> mon_state \<Rightarrow> bool" for E s where
  fresh: "recording E s False s"
| refused: "recording E s False c \<Longrightarrow> \<not> me_done E (mn_trace c) \<Longrightarrow>
    connect E (happens (EDone False) c) = (Inl e, c') \<Longrightarrow> recording E s False (happens ESleep c')"
| connected: "recording E s False c \<Longrightarrow> \<not> me_done E (mn_trace c) \<Longrightarrow>
    connect E (happens (EDone False) c) = (Inr (), c') \<Longrightarrow> recording E s True c'"
| line: "recording E s True c \<Longrightarrow> readRound E c = (Inr (), c') \<Longrightarrow> recording E s True c'"
| lost: "recording E s True c \<Longrightarrow> readRound E c = (Inl e, c') \<Longrightarrow>
    recording E s False (happens ESleep (happens EClose c'))"

lemma recording_inv:
  assumes "recording E s reading c" and "mon_inv n s"
  shows "mon_inv n c \<and> (reading \<longrightarrow> in_session c)"
  using assms
proof (induction rule: recording.induct)
  case (refused c e c')
  then have "mon_inv n (happens (EDone False) c)" by (simp add: mon_inv_happens)
  with connect_keeps [OF this refused.hyps(3)] show ?case by (simp add: mon_inv_happens)
next
  case (connected c c')
  then have "mon_inv n (happens (EDone False) c)" by (simp add: mon_inv_happens)
  with connect_keeps [OF this connected.hyps(3)] show ?case by simp
next
  case (lost c e c')
  with readRound_keeps [of n c E] show ?case by (simp add: mon_inv_happens)
qed (auto dest: readRound_keeps)

lemma new_client_inv:
  assumes "0 < bufCap" and "newMonitorClient addr bufCap = Some m"
  shows "mon_inv (nat bufCap) \<lparr>mn_client = m, mn_trace = []\<rparr>"
proof -
  obtain r where "newRingBuf bufCap = Some r" "rb_inv r" "rb_abs r = []" "rb_cap r = nat bufCap"
    using rb_inv_new [OF assms(1)] by blast
  then show ?thesis using assms(2) by (auto simp: newMonitorClient_def mon_inv_def rb_data_abs)
qed

lemma readLoop_never:
  assumes "readLoop E c = Some y" and "mon_inv n c" and "in_session c" and "\<forall>tr. \<exists>line. me_read E tr = Inr line"
  shows False
  using assms
proof (induction rule: readLoop.raw_induct [rotated -1, consumes 1, case_names step])
  case (step loop E c y)
  obtain line where "me_read E (mn_trace (happens (EDone (me_done E (mn_trace c))) c)) = Inr line"
    using step.prems(3) by blast
  then obtain c' where c': "readRound E c = (Inr (), c')"
    using readRound_keeps [OF step.prems(1,2), of E]
    by (cases "readRound E c") (auto simp: readRound_def Let_def split: option.splits)
  then have "loop E c' = Some y" using step.hyps by simp
  with step.IH [of E c'] readRound_keeps [OF step.prems(1,2) c'] step.prems(3) show ?case by (cases y) blast
qed

subsection \<open>Properties\<close>

text \<open>
  C19: In every state of a monitor client with a buffer of positive capacity \<open>c\<close>, across lost
  connections and refused ones, \<open>getData\<close> returns the newest \<open>c - 1\<close> lines read after the
  greetings, oldest first, and reading a line never panics.
\<close>

theorem monitor_keeps_newest:
  assumes "0 < bufCap" and "newMonitorClient addr bufCap = Some m"
    and "recording E \<lparr>mn_client = m, mn_trace = []\<rparr> reading c"
  shows "getData (mn_client c) = Some (lastn (nat bufCap - 1) (monitored False (mn_trace c))) \<and>
    (reading \<longrightarrow> fst (readRound E c) \<noteq> Inl MonPanic)"
proof -
  have inv: "mon_inv (nat bufCap) c \<and> (reading \<longrightarrow> in_session c)"
    by (rule recording_inv [OF assms(3) new_client_inv [OF assms(1,2)]])
  then have "getData (mn_client c) = Some (lastn (nat bufCap - 1) (monitored False (mn_trace c)))"
    by (simp add: mon_inv_def getData_def)
  moreover have "fst (readRound E c) \<noteq> Inl MonPanic" if reading
    using readRound_keeps [of "nat bufCap" c E "fst (readRound E c)" "snd (readRound E c)"] inv that by simp
  ultimately show ?thesis by blast
qed

text \<open>A node that greets and then sends lines.\<close>

definition sample_mon :: mon_env where
  "sample_mon = \<lparr>me_dial = (\<lambda>_ _. None), me_write = (\<lambda>_. None), me_flush = (\<lambda>_. None),
     me_read = (\<lambda>tr. Inr ''+OK..''), me_done = (\<lambda>tr. tr \<noteq> []), me_file = (\<lambda>_ _. None)\<rparr>"

definition sample_client :: mon_state where
  "sample_client = \<lparr>mn_client = the (newMonitorClient ''a:1'' 2), mn_trace = []\<rparr>"

lemma sample_connects: "\<exists>c. connect sample_mon (happens (EDone False) sample_client) = (Inr (), c)"
  by (simp add: connect_def sample_mon_def sample_client_def happens_def okResLen_def newMonitorClient_def newRingBuf_def)

theorem monitor_keeps_newest_witness:
  "\<exists>c. recording sample_mon sample_client True c \<and> getData (mn_client c) = Some [''+OK..'']"
proof -
  let ?m = "the (newMonitorClient ''a:1'' 2)"
  obtain c where c: "connect sample_mon (happens (EDone False) sample_client) = (Inr (), c)"
    using sample_connects by blast
  have r: "recording sample_mon sample_client True c"
    by (rule recording.connected [OF recording.fresh _ c]) (simp add: sample_mon_def sample_client_def)
  have "mon_inv 2 sample_client"
    using new_client_inv [of 2 "''a:1''" ?m] by (simp add: sample_client_def newMonitorClient_def newRingBuf_def)
  with recording_inv [OF r] have inv: "mon_inv 2 c" "in_session c" by simp_all
  then obtain d where d: "readRound sample_mon c = (Inr (), d)"
    using readRound_keeps [OF inv, of sample_mon]
    by (cases "readRound sample_mon c") (auto simp: readRound_def Let_def sample_mon_def split: option.splits)
  have "mn_trace d = mn_trace c @ [EDone True, ERead (Inr ''+OK..'')]"
    using d c
    by (auto simp: readRound_def Let_def sample_mon_def happens_def connect_def okResLen_def sample_client_def
        split: option.splits)
  then have "monitored False (mn_trace d) = monitored False (mn_trace c) @ [''+OK..'']"
    using inv(2) by (simp add: monitored_append in_session_def)
  moreover have "recording sample_mon sample_client True d" by (rule recording.line [OF r d])
  moreover have "newMonitorClient ''a:1'' 2 = Some ?m" by (simp add: newMonitorClient_def newRingBuf_def)
  ultimately show ?thesis
    using monitor_keeps_newest [of 2 "''a:1''" ?m sample_mon True d] by (auto simp: sample_client_def lastn_def)
qed

text \<open>
  C35: Once a connection is established, a session whose reads all succeed never returns, and so
  neither does the client, whatever the context says later: cancelling it does not end them.
\<close>

theorem monitor_ignores_cancellation:
  assumes "0 < bufCap" and "newMonitorClient addr bufCap = Some m"
    and "recording E \<lparr>mn_client = m, mn_trace = []\<rparr> False c" and "\<not> me_done E (mn_trace c)"
    and "connect E (happens (EDone False) c) = (Inr (), c')" and "\<And>tr. \<exists>line. me_read E tr = Inr line"
  shows "runMonitor E (happens (EDone False) c) = None \<and> monitor_run E c = None"
proof -
  have inv: "mon_inv (nat bufCap) c' \<and> in_session c'"
    using recording_inv [OF recording.connected [OF assms(3-5)] new_client_inv [OF assms(1,2)]] by simp
  then have "readLoop E c' = None" using readLoop_never [of E c'] assms(6) by (cases "readLoop E c'") auto
  then have "runMonitor E (happens (EDone False) c) = None" by (simp add: runMonitor_def assms(5))
  then show ?thesis using assms(4) by (simp add: monitor_run.simps [of E c])
qed

theorem monitor_ignores_cancellation_witness:
  "monitor_run sample_mon sample_client = None \<and> (\<forall>tr ev. me_done sample_mon (tr @ [ev]))"
proof -
  let ?m = "the (newMonitorClient ''a:1'' 2)"
  have "newMonitorClient ''a:1'' 2 = Some ?m" by (simp add: newMonitorClient_def newRingBuf_def)
  moreover obtain c where "connect sample_mon (happens (EDone False) sample_client) = (Inr (), c)"
    using sample_connects by blast
  moreover have "\<exists>line. me_read sample_mon tr = Inr line" for tr by (simp add: sample_mon_def)
  moreover have "\<not> me_done sample_mon []" by (simp add: sample_mon_def)
  ultimately have "monitor_run sample_mon sample_client = None"
    using monitor_ignores_cancellation [of 2 "''a:1''" ?m sample_mon sample_client c] recording.fresh
    by (simp add: sample_client_def)
  then show ?thesis by (simp add: sample_mon_def)
qed

end
