(* ===== verification/Ranked_Runs.thy ===== *)
theory Ranked_Runs
  imports Main
begin

section \<open>Goroutines that come to an end\<close>

text \<open>
  A program of several goroutines as a transition system: \<open>turn l s\<close> is the state after the
  goroutine \<open>l\<close> has gone on for a step, \<open>None\<close> when it cannot. The locale is the contract under which a
  program comes to an end: the steps of the goroutines that count lower a rank, those of the others
  do not raise it and do not stop those that count, and before the end one that counts can always
  go on. A schedule is fair when no such goroutine is ready for ever and never gets its turn.
\<close>

locale ranked_system =
  fixes turn :: "'l \<Rightarrow> 's \<Rightarrow> 's option"
    and counts :: "'l \<Rightarrow> bool"
    and inv :: "'s \<Rightarrow> bool"
    and rank :: "'s \<Rightarrow> nat"
    and final :: "'s \<Rightarrow> bool"
  assumes keeps: "inv s \<Longrightarrow> \<not> final s \<Longrightarrow> turn l s = Some t \<Longrightarrow> inv t"
    and works: "inv s \<Longrightarrow> \<not> final s \<Longrightarrow> counts l \<Longrightarrow> turn l s = Some t \<Longrightarrow> rank t < rank s"
    and idles: "inv s \<Longrightarrow> \<not> final s \<Longrightarrow> \<not> counts l \<Longrightarrow> turn l s = Some t \<Longrightarrow> rank t \<le> rank s"
    and persists: "inv s \<Longrightarrow> \<not> final s \<Longrightarrow> counts l \<Longrightarrow> turn l s \<noteq> None \<Longrightarrow> \<not> counts l' \<Longrightarrow>
      turn l' s = Some t \<Longrightarrow> \<not> final t \<Longrightarrow> turn l t \<noteq> None"
    and progress: "inv s \<Longrightarrow> \<not> final s \<Longrightarrow> \<exists>l. counts l \<and> turn l s \<noteq> None"

text \<open>A goroutine that is scheduled and cannot go on leaves the state as it is.\<close>

definition scheduled :: "('l \<Rightarrow> 's \<Rightarrow> 's option) \<Rightarrow> (nat \<Rightarrow> 'l) \<Rightarrow> (nat \<Rightarrow> 's) \<Rightarrow> bool" where
  "scheduled turn ls \<sigma> \<longleftrightarrow>
    (\<forall>n. \<sigma> (Suc n) = (case turn (ls n) (\<sigma> n) of None \<Rightarrow> \<sigma> n | Some t \<Rightarrow> t))"

definition fair :: "('l \<Rightarrow> 's \<Rightarrow> 's option) \<Rightarrow> ('l \<Rightarrow> bool) \<Rightarrow> (nat \<Rightarrow> 'l) \<Rightarrow> (nat \<Rightarrow> 's) \<Rightarrow> bool" where
  "fair turn counts ls \<sigma> \<longleftrightarrow> (\<forall>l n. counts l \<longrightarrow> (\<exists>m \<ge> n. ls m = l \<or> turn l (\<sigma> m) = None))"

lemma scheduledD:
  "scheduled turn ls \<sigma> \<Longrightarrow> \<sigma> (Suc n) = (case turn (ls n) (\<sigma> n) of None \<Rightarrow> \<sigma> n | Some t \<Rightarrow> t)"
  by (simp add: scheduled_def)

context ranked_system
begin

lemma run_inv:
  assumes "scheduled turn ls \<sigma>" and "inv (\<sigma> n)" and "\<forall>m. n \<le> m \<longrightarrow> m < n + k \<longrightarrow> \<not> final (\<sigma> m)"
  shows "inv (\<sigma> (n + k)) \<and> rank (\<sigma> (n + k)) \<le> rank (\<sigma> n)"
  using assms(3)
proof (induction k)
  case 0
  show ?case using assms(2) by simp
next
  case (Suc k)
  then have IH: "inv (\<sigma> (n + k))" "rank (\<sigma> (n + k)) \<le> rank (\<sigma> n)" and nf: "\<not> final (\<sigma> (n + k))"
    by simp_all
  show ?case
  proof (cases "turn (ls (n + k)) (\<sigma> (n + k))")
    case None
    then show ?thesis using scheduledD [OF assms(1), of "n + k"] IH by simp
  next
    case (Some t)
    have "rank t \<le> rank (\<sigma> (n + k))"
      using works [OF IH(1) nf _ Some] idles [OF IH(1) nf _ Some] by (cases "counts (ls (n + k))") auto
    then show ?thesis
      using scheduledD [OF assms(1), of "n + k"] Some IH(2) keeps [OF IH(1) nf Some] by simp
  qed
qed

lemma lower_or_final:
  assumes "scheduled turn ls \<sigma>" and "fair turn counts ls \<sigma>" and "inv (\<sigma> n)" and "\<not> final (\<sigma> n)"
  shows "\<exists>m \<ge> n. final (\<sigma> m) \<or> inv (\<sigma> m) \<and> rank (\<sigma> m) < rank (\<sigma> n)"
proof (rule ccontr)
  assume no: "\<not> ?thesis"
  then have nf: "\<not> final (\<sigma> m)" if "m \<ge> n" for m using that by blast
  have inv: "inv (\<sigma> m)" "rank (\<sigma> m) = rank (\<sigma> n)" if m: "m \<ge> n" for m
  proof -
    have "inv (\<sigma> (n + (m - n))) \<and> rank (\<sigma> (n + (m - n))) \<le> rank (\<sigma> n)"
      by (rule run_inv [OF assms(1,3)]) (use nf in blast)
    then have "inv (\<sigma> m)" "rank (\<sigma> m) \<le> rank (\<sigma> n)" using m by simp_all
    then show "inv (\<sigma> m)" "rank (\<sigma> m) = rank (\<sigma> n)" using no m le_neq_implies_less by blast+
  qed
  obtain l where l: "counts l" "turn l (\<sigma> n) \<noteq> None" using progress [OF assms(3,4)] by blast
  have idle: "\<not> counts (ls m)" if m: "m \<ge> n" "turn (ls m) (\<sigma> m) = Some t" for m t
    using works [OF inv(1) [OF m(1)] nf [OF m(1)] _ m(2)] scheduledD [OF assms(1), of m] m
      inv(2) [of m] inv(2) [of "Suc m"] by auto
  have ready: "turn l (\<sigma> (n + k)) \<noteq> None" for k
  proof (induction k)
    case 0
    show ?case using l(2) by simp
  next
    case (Suc k)
    show ?case
    proof (cases "turn (ls (n + k)) (\<sigma> (n + k))")
      case None
      then show ?thesis using scheduledD [OF assms(1), of "n + k"] Suc by simp
    next
      case (Some t)
      moreover have "\<sigma> (Suc (n + k)) = t" using scheduledD [OF assms(1), of "n + k"] Some by simp
      moreover have "\<not> final t" using nf [of "Suc (n + k)"] calculation(2) by simp
      ultimately show ?thesis
        using persists [OF inv(1) nf l(1) Suc idle, of "n + k" t] by auto
    qed
  qed
  obtain m where m: "m \<ge> n" "ls m = l \<or> turn l (\<sigma> m) = None" using assms(2) l(1) unfolding fair_def by blast
  have enabled: "turn l (\<sigma> m) \<noteq> None" using ready [of "m - n"] m(1) by simp
  then obtain t where "turn (ls m) (\<sigma> m) = Some t" using m(2) by auto
  with idle [OF m(1) this] l(1) m(2) enabled show False by auto
qed

lemma ends:
  assumes "scheduled turn ls \<sigma>" and "fair turn counts ls \<sigma>" and "inv (\<sigma> n)"
  shows "\<exists>m \<ge> n. final (\<sigma> m)"
  using assms(3)
proof (induction "rank (\<sigma> n)" arbitrary: n rule: less_induct)
  case less
  show ?case
  proof (cases "final (\<sigma> n)")
    case False
    then obtain m where m: "m \<ge> n" "final (\<sigma> m) \<or> inv (\<sigma> m) \<and> rank (\<sigma> m) < rank (\<sigma> n)"
      using lower_or_final [OF assms(1,2) less.prems] by blast
    then show ?thesis using less.hyps [of m] le_trans by blast
  qed auto
qed

end

text \<open>The run of a schedule from a state. It is fair when it comes to a state that nobody leaves.\<close>

primrec run_of :: "('l \<Rightarrow> 's \<Rightarrow> 's option) \<Rightarrow> (nat \<Rightarrow> 'l) \<Rightarrow> 's \<Rightarrow> nat \<Rightarrow> 's" where
  "run_of turn ls s 0 = s"
| "run_of turn ls s (Suc n) =
    (case turn (ls n) (run_of turn ls s n) of None \<Rightarrow> run_of turn ls s n | Some t \<Rightarrow> t)"

lemma scheduled_run_of [simp]: "scheduled turn ls (run_of turn ls s)"
  by (simp add: scheduled_def)

lemma stuck_run:
  assumes "\<And>l. turn l (run_of turn ls s N) = None"
  shows "run_of turn ls s (N + k) = run_of turn ls s N"
  using assms by (induction k) simp_all

lemma fair_stuck:
  assumes "\<And>l. turn l (run_of turn ls s N) = None"
  shows "fair turn counts ls (run_of turn ls s)"
  unfolding fair_def
proof (intro allI impI)
  fix l n
  have "turn l (run_of turn ls s (N + n)) = None" by (subst stuck_run) (rule assms)+
  then show "\<exists>m \<ge> n. ls m = l \<or> turn l (run_of turn ls s m) = None" by (intro exI [of _ "N + n"]) simp
qed

end
