(* ===== verification/Checker_Service.thy ===== *)
theory Checker_Service
  imports Kv_Safety Monitor Ranked_Runs
begin

section \<open>The goroutines of the checker (checker/pkg/kv.go, monitor.go, client.go)\<close>

text \<open>
  \<open>RunKvCheckerService\<close> starts three checkers and one goroutine per monitored node, waits for the
  checkers, and dumps what the monitors recorded. The goroutines are interleaved: a state holds
  where each of them and the caller are, and \<open>turn\<close> lets one of them go on, by one round of its
  loop. That is enough detail, because they share nothing but the contexts, which a round reads
  once, and the buffers, which the lock of a client protects. The package errgroup is
  modelled by its documented behaviour: the first error cancels the context of the group, and
  \<open>Wait\<close> returns when all functions have. A panic of any goroutine ends the process.
\<close>

subsection \<open>One round of each loop\<close>

text \<open>The body of \<open>loopCheck\<close>, with what the context says.\<close>

definition loopRound :: "kv_env \<Rightarrow> bool \<Rightarrow> unit kv" where
  "loopRound E ended w =
    (let t = w\<lparr>kv_tick := Suc (kv_tick w)\<rparr> in
     if ended then (Inl ErrExit, t) else checkKeyValue E t)"

text \<open>A monitor client is about to connect, reads from a connection, or has returned.\<close>

datatype mon_phase = Idle | Reading | Returned

text \<open>The body of the loop of \<open>monitorClient.run\<close>, and that of the reading loop; \<open>None\<close> is a panic.\<close>

fun monitorRound :: "mon_env \<Rightarrow> bool \<Rightarrow> mon_phase \<times> mon_state \<Rightarrow> (mon_phase \<times> mon_state) option" where
  "monitorRound E ended (Idle, c) =
    (let c = happens (EDone ended) c in
     if ended then Some (Returned, c)
     else case connect E c of
         (Inl e, c') \<Rightarrow> Some (Idle, happens ESleep c')
       | (Inr _, c') \<Rightarrow> Some (Reading, c'))"
| "monitorRound E ended (Reading, c) =
    (case readRound (E\<lparr>me_done := (\<lambda>_. ended)\<rparr>) c of
       (Inr _, c') \<Rightarrow> Some (Reading, c')
     | (Inl e, c') \<Rightarrow> if e = MonPanic then None else Some (Idle, happens ESleep (happens EClose c')))"
| "monitorRound E ended (Returned, c) = Some (Returned, c)"

subsection \<open>The service\<close>

datatype checker_thread = NotStarted | Running kv_state | Ended kv_error

text \<open>Where \<open>RunKvCheckerService\<close> is: before \<open>Wait\<close> returns, dumping the client of an index, sleeping forever, or gone.\<close>

datatype main_point = Waits | Dumps nat | Blocks | Done | Crashed

record service_state =
  sv_checkers :: "checker_thread list"
  sv_cancelled :: bool
  sv_monitors :: "(mon_phase \<times> mon_state) list"
  sv_files :: "mon_event list"
  sv_main :: main_point

record service_args =
  sa_startupNode :: string
  sa_monitorAddresses :: "string list"
  sa_monitorBufSize :: int
  sa_blockOnError :: bool

text \<open>What is outside: one environment per checker, one per monitored node, and the files.\<close>

record service_env =
  se_kv :: "nat \<Rightarrow> kv_env"
  se_mon :: "nat \<Rightarrow> mon_env"
  se_file :: "mon_event list \<Rightarrow> string \<Rightarrow> string option"

definition NewCheckerClusterClient :: "string \<Rightarrow> kv_state" where
  "NewCheckerClusterClient startupNode = \<lparr>cl_trace = [], cl_pool = Map.empty,
     kv_startupNode = startupNode, kv_keys = (\<lambda>_. []), kv_luaKeys = [], kv_luaValue = [], kv_tick = 0\<rparr>"

definition checkerNum :: nat where
  "checkerNum = 3"

definition monitorEnabled :: "service_args \<Rightarrow> bool" where
  "monitorEnabled args \<longleftrightarrow> sa_monitorBufSize args > 1 \<and> length (sa_monitorAddresses args) > 0"

text \<open>Up to \<open>group.Wait()\<close>; a negative buffer size panics in \<open>newMonitorManager\<close>, enabled or not.\<close>

definition startService :: "service_args \<Rightarrow> service_state option" where
  "startService args =
    map_option (\<lambda>clients. \<lparr>sv_checkers = replicate checkerNum NotStarted, sv_cancelled = False,
        sv_monitors = map (\<lambda>c. (Idle, \<lparr>mn_client = c, mn_trace = []\<rparr>)) clients,
        sv_files = [], sv_main = Waits\<rparr>)
      (newMonitorManager (sa_monitorAddresses args) (sa_monitorBufSize args))"

text \<open>A function of the group returns an error; a panic is not one.\<close>

definition is_panic :: "kv_error \<Rightarrow> bool" where
  "is_panic e \<longleftrightarrow> e = KvPanic \<or> e = ClientErr ClientPanic"

definition checkerReturns :: "nat \<Rightarrow> kv_error \<Rightarrow> service_state \<Rightarrow> service_state" where
  "checkerReturns i e s =
    (if is_panic e then s\<lparr>sv_main := Crashed\<rparr>
     else s\<lparr>sv_checkers := (sv_checkers s)[i := Ended e], sv_cancelled := True\<rparr>)"

definition checkerTurn :: "service_env \<Rightarrow> service_args \<Rightarrow> slotTags \<Rightarrow> nat \<Rightarrow> service_state \<Rightarrow> service_state option" where
  "checkerTurn SE args st i s =
    (if i < length (sv_checkers s)
     then (case sv_checkers s ! i of
         NotStarted \<Rightarrow>
           (case newKVChecker (se_kv SE i) (int i) st (NewCheckerClusterClient (sa_startupNode args)) of
              (Inr _, w) \<Rightarrow> Some (s\<lparr>sv_checkers := (sv_checkers s)[i := Running w]\<rparr>)
            | (Inl e, w) \<Rightarrow> Some (checkerReturns i e s))
       | Running w \<Rightarrow>
           (case loopRound (se_kv SE i) (sv_cancelled s) w of
              (Inr _, w') \<Rightarrow> Some (s\<lparr>sv_checkers := (sv_checkers s)[i := Running w']\<rparr>)
            | (Inl e, w') \<Rightarrow> Some (checkerReturns i e s))
       | Ended e \<Rightarrow> None)
     else None)"

definition clientTurn :: "service_env \<Rightarrow> service_args \<Rightarrow> nat \<Rightarrow> service_state \<Rightarrow> service_state option" where
  "clientTurn SE args j s =
    (if monitorEnabled args \<and> j < length (sv_monitors s)
     then (case monitorRound (se_mon SE j) (sv_cancelled s) (sv_monitors s ! j) of
         None \<Rightarrow> Some (s\<lparr>sv_main := Crashed\<rparr>)
       | Some m \<Rightarrow> Some (s\<lparr>sv_monitors := (sv_monitors s)[j := m]\<rparr>))
     else None)"

definition finish :: "service_args \<Rightarrow> main_point" where
  "finish args = (if sa_blockOnError args then Blocks else Done)"

text \<open>The caller: \<open>Wait\<close>, then the loop over \<open>dump\<close>, a client at a time, from the first again after a failure.\<close>

definition mainTurn :: "service_env \<Rightarrow> service_args \<Rightarrow> service_state \<Rightarrow> service_state option" where
  "mainTurn SE args s =
    (case sv_main s of
       Waits \<Rightarrow>
         if list_all (\<lambda>t. case t of Ended e \<Rightarrow> True | _ \<Rightarrow> False) (sv_checkers s)
         then Some (s\<lparr>sv_main := if monitorEnabled args then Dumps 0 else finish args\<rparr>) else None
     | Dumps k \<Rightarrow>
         if k < length (sv_monitors s)
         then (let c = mn_client (snd (sv_monitors s ! k)); fname = ''monitor-'' @ mc_addr c in
           case getData c of
             None \<Rightarrow> Some (s\<lparr>sv_main := Crashed\<rparr>)
           | Some d \<Rightarrow>
               (let r = se_file SE (sv_files s) fname; files = sv_files s @ [EFile fname (concat d) r] in
                case r of
                  None \<Rightarrow> Some (s\<lparr>sv_files := files, sv_main := Dumps (Suc k)\<rparr>)
                | Some e \<Rightarrow> Some (s\<lparr>sv_files := files @ [ESleep], sv_main := Dumps 0\<rparr>)))
         else Some (s\<lparr>sv_main := finish args\<rparr>)
     | _ \<Rightarrow> None)"

datatype turn = Checker nat | Client nat | Main

text \<open>A process that is gone makes no turn.\<close>

definition serviceTurn ::
  "service_env \<Rightarrow> service_args \<Rightarrow> slotTags \<Rightarrow> turn \<Rightarrow> service_state \<Rightarrow> service_state option" where
  "serviceTurn SE args st l s =
    (if sv_main s \<in> {Done, Crashed} then None
     else case l of
         Checker i \<Rightarrow> checkerTurn SE args st i s
       | Client j \<Rightarrow> clientTurn SE args j s
       | Main \<Rightarrow> mainTurn SE args s)"

inductive serving :: "service_env \<Rightarrow> service_args \<Rightarrow> slotTags \<Rightarrow> service_state \<Rightarrow> bool" for SE args st where
  started: "startService args = Some s \<Longrightarrow> serving SE args st s"
| goes_on: "serving SE args st s \<Longrightarrow> serviceTurn SE args st l s = Some t \<Longrightarrow> serving SE args st t"

text \<open>\<open>main\<close> of the checker: the exit code when the command line cannot be parsed, or what it runs, with the limit of operations per second.\<close>

record checker_options =
  co_Address :: string
  co_MonitorAddresses :: "string list"
  co_OPS :: int
  co_MonitorBuf :: int
  co_BlockOnError :: bool

definition checkerMain :: "string + checker_options \<Rightarrow> nat + int \<times> service_args" where
  "checkerMain parsed =
    (case parsed of
       Inl e \<Rightarrow> Inl 1
     | Inr opts \<Rightarrow> Inr (co_OPS opts, \<lparr>sa_startupNode = co_Address opts,
         sa_monitorAddresses = co_MonitorAddresses opts, sa_monitorBufSize = co_MonitorBuf opts,
         sa_blockOnError = co_BlockOnError opts\<rparr>))"

lemma loopCheck_round:
  "loopCheck E w =
    (case loopRound E (ke_done E (kv_tick w)) w of
       (Inl e, t) \<Rightarrow> Some (Inl e, t) | (Inr _, t) \<Rightarrow> loopCheck E t)"
  by (simp add: loopCheck.simps [of E w] loopRound_def choice_def Let_def)


subsection \<open>The errors of a round\<close>

text \<open>Only the context makes a checker end with \<open>errExit\<close>.\<close>

definition no_exit :: "'a kv \<Rightarrow> bool" where
  "no_exit m \<longleftrightarrow> (\<forall>w w'. m w \<noteq> (Inl ErrExit, w'))"

named_theorems no_exit "operations that never fail with errExit"

lemma no_exit_bind [no_exit]: "no_exit m \<Longrightarrow> (\<And>x. no_exit (f x)) \<Longrightarrow> no_exit (bindE m f)"
  unfolding no_exit_def bindE_def by (auto split: prod.splits sum.splits)

lemma no_exit_simple [no_exit]:
  "no_exit (returnE x)" "no_exit (getsE g)" "no_exit (modifyE h)" "no_exit (choice f)"
  by (simp_all add: no_exit_def choice_def)

lemma no_exit_throw [no_exit]: "e \<noteq> ErrExit \<Longrightarrow> no_exit (throwE e)"
  by (simp add: no_exit_def)

lemma no_exit_if [no_exit]: "(b \<Longrightarrow> no_exit m) \<Longrightarrow> (\<not> b \<Longrightarrow> no_exit n) \<Longrightarrow> no_exit (if b then m else n)"
  by simp

lemma no_exit_prod [no_exit]: "(\<And>a b. no_exit (f a b)) \<Longrightarrow> no_exit (case x of (a, b) \<Rightarrow> f a b)"
  by (cases x) simp

lemma no_exit_option [no_exit]:
  "no_exit m \<Longrightarrow> (\<And>x. no_exit (f x)) \<Longrightarrow> no_exit (case v of None \<Rightarrow> m | Some x \<Rightarrow> f x)"
  by (cases v) simp_all

lemma no_exit_Let [no_exit]: "(\<And>y. no_exit (f y)) \<Longrightarrow> no_exit (let y = x in f y)"
  by (simp add: Let_def)

lemma no_exit_foreach [no_exit]: "(\<And>x. no_exit (f x)) \<Longrightarrow> no_exit (foreachE f xs)"
  by (induction xs) (auto intro: no_exit simp del: returnE_run)

lemma no_exit_onClient [no_exit]: "no_exit (onClient cmd E)"
  unfolding no_exit_def onClient_def tryE_def by (auto split: prod.splits sum.splits)

lemma no_exit_loops [no_exit]:
  "no_exit (waitN E n)" "no_exit (chooseSlotFromNormDist E)" "no_exit (ranged E m)"
  "no_exit (randomGetKey E m)" "no_exit (getKeys E m)" "no_exit (genNewValue E k)" "no_exit (setKey slot k v)"
  unfolding waitN_def chooseSlotFromNormDist_def randomGetKey_def getKeys_def genNewValue_def setKey_def ranged_def
  by (intro no_exit; simp)+

lemma no_exit_chooseKeys [no_exit]:
  "no_exit (randomChooseKeysInSameSlot E n)" "no_exit (chooseKeysLoop E n keys)" "no_exit (randomChooseKeys E n)"
proof -
  show "no_exit (randomChooseKeysInSameSlot E n)"
    unfolding randomChooseKeysInSameSlot_def by (intro no_exit)
  have loop: "no_exit (chooseKeysLoop E n keys)" for n keys
    by (induction n arbitrary: keys) (simp_all only: chooseKeysLoop.simps, (intro no_exit | assumption)+)
  then show "no_exit (chooseKeysLoop E n keys)" .
  show "no_exit (randomChooseKeys E n)" unfolding randomChooseKeys_def by (intro no_exit loop)
qed

lemma no_exit_newValues [no_exit]: "no_exit (newValues E m)"
proof (induction m)
  case (Cons kv m)
  then show ?case by (cases kv) (auto intro!: no_exit simp del: returnE_run)
qed (simp only: newValues.simps no_exit_simple)

lemma no_exit_mgetLoop [no_exit]: "err \<noteq> Some ErrExit \<Longrightarrow> no_exit (mgetLoop kvs address ks vs err)"
  by (induction kvs address ks vs err rule: mgetLoop.induct)
    (auto simp: Let_def no_exit intro!: no_exit_throw simp del: returnE_run throwE_run split: option.splits)

lemma no_exit_luaMGetLoop [no_exit]: "err \<noteq> Some ErrExit \<Longrightarrow> no_exit (luaMGetLoop v ks vs err)"
  by (induction v ks vs err rule: luaMGetLoop.induct)
    (auto simp: Let_def no_exit intro!: no_exit_throw simp del: returnE_run throwE_run split: option.splits)

lemma no_exit_checkKeyValue: "no_exit (checkKeyValue E)"
  unfolding checkKeyValue_def checkSet_def checkMSet_def checkGet_def checkMGet_def checkDel_def checkLuaMSet_def
    checkLuaMGet_def
  by (intro no_exit; simp)

lemma loopRound_exit: "loopRound E ended w = (Inl ErrExit, w') \<Longrightarrow> ended"
  using no_exit_checkKeyValue [of E] by (auto simp: loopRound_def no_exit_def Let_def split: if_splits)


subsection \<open>Monitors\<close>

definition monitor_inv :: "nat \<Rightarrow> mon_phase \<times> mon_state \<Rightarrow> bool" where
  "monitor_inv n m \<longleftrightarrow> mon_inv n (snd m) \<and> (fst m = Reading \<longrightarrow> in_session (snd m))"

lemma monitorRound_keeps:
  assumes "monitor_inv n m"
  shows "\<exists>m'. monitorRound E ended m = Some m' \<and> monitor_inv n m' \<and>
    mc_addr (mn_client (snd m')) = mc_addr (mn_client (snd m))"
proof (cases "(E, ended, m)" rule: monitorRound.cases)
  case (1 E ended c)
  then have inv: "mon_inv n (happens (EDone ended) c)"
    using assms by (simp add: monitor_inv_def mon_inv_happens)
  obtain r c' where run: "connect E (happens (EDone ended) c) = (r, c')" by fastforce
  have addr: "mc_addr (mn_client c') = mc_addr (mn_client c)"
    using run by (auto simp: connect_def Let_def happens_def split: option.splits sum.splits if_splits)
  have keep: "mon_inv n c' \<and> (r = Inr () \<longrightarrow> in_session c')" by (rule connect_keeps [OF inv run])
  show ?thesis
    using 1 run addr keep inv
    by (cases r) (auto simp: monitor_inv_def Let_def mon_inv_happens, auto simp: happens_def)
next
  case (2 E ended c)
  let ?E = "E\<lparr>me_done := (\<lambda>_. ended)\<rparr>"
  obtain r c' where run: "readRound ?E c = (r, c')" by fastforce
  have addr: "mc_addr (mn_client c') = mc_addr (mn_client c)"
    using run by (auto simp: readRound_def Let_def happens_def split: option.splits sum.splits)
  have keep: "mon_inv n c' \<and> in_session c' \<and> r \<noteq> Inl MonPanic"
    using readRound_keeps [of n c ?E r c'] run assms 2 by (simp add: monitor_inv_def)
  show ?thesis
    using 2 run addr keep
    by (cases r) (auto simp: monitor_inv_def mon_inv_happens, auto simp: happens_def)
next
  case (3 E ended c)
  then show ?thesis using assms by (auto simp: monitor_inv_def)
qed

lemma newMonitorManager_clients:
  "newMonitorManager addrs n = Some cs \<Longrightarrow>
    map mc_addr cs = addrs \<and> (0 < n \<longrightarrow> (\<forall>c \<in> set cs. mon_inv (nat n) \<lparr>mn_client = c, mn_trace = []\<rparr>))"
proof (induction addrs arbitrary: cs)
  case (Cons a addrs)
  then obtain c cs' where c: "newMonitorClient a n = Some c" "newMonitorManager addrs n = Some cs'" "cs = c # cs'"
    by (auto split: option.splits)
  moreover have "mc_addr c = a" using c(1) by (auto simp: newMonitorClient_def)
  ultimately show ?case using Cons.IH [OF c(2)] new_client_inv [OF _ c(1)] by auto
qed simp

text \<open>The rounds are the steps by which a client records, as long as it has not returned.\<close>

lemma monitorRound_recording:
  assumes "recording E s (p = Reading) c" and "p \<noteq> Returned"
    and "monitorRound E (me_done E (mn_trace c)) (p, c) = Some (p', c')" and "p' \<noteq> Returned"
  shows "recording E s (p' = Reading) c'"
proof (cases p)
  case Idle
  then have nd: "\<not> me_done E (mn_trace c)" using assms(3,4) by (auto simp: Let_def split: if_splits)
  have rec: "recording E s False c" using assms(1) Idle by simp
  obtain r d where run: "connect E (happens (EDone False) c) = (r, d)" by fastforce
  show ?thesis
    using assms(3) Idle nd run recording.refused [OF rec nd, of _ d] recording.connected [OF rec nd, of d]
    by (cases r) auto
next
  case Reading
  have same: "readRound (E\<lparr>me_done := (\<lambda>_. me_done E (mn_trace c))\<rparr>) c = readRound E c"
    by (simp add: readRound_def Let_def)
  have rec: "recording E s True c" using assms(1) Reading by simp
  show ?thesis
    using assms(3) Reading recording.line [OF rec] recording.lost [OF rec]
    by (auto simp: same split: prod.splits sum.splits if_splits)
qed (use assms(2) in simp)


subsection \<open>The invariant of the service\<close>

definition all_ended :: "service_state \<Rightarrow> bool" where
  "all_ended s \<longleftrightarrow> (\<forall>t \<in> set (sv_checkers s). \<exists>e. t = Ended e)"

definition fileOf :: "string \<Rightarrow> string" where
  "fileOf addr = ''monitor-'' @ addr"

text \<open>The data of the clients before \<open>k\<close> has been written.\<close>

definition dumped :: "service_args \<Rightarrow> nat \<Rightarrow> service_state \<Rightarrow> bool" where
  "dumped args k s \<longleftrightarrow> (\<forall>j < k. \<exists>d. EFile (fileOf (sa_monitorAddresses args ! j)) d None \<in> set (sv_files s))"

definition control_inv :: "service_args \<Rightarrow> service_state \<Rightarrow> bool" where
  "control_inv args s \<longleftrightarrow>
    length (sv_checkers s) = checkerNum \<and>
    map (\<lambda>m. mc_addr (mn_client (snd m))) (sv_monitors s) = sa_monitorAddresses args \<and>
    (monitorEnabled args \<longrightarrow> (\<forall>m \<in> set (sv_monitors s). monitor_inv (nat (sa_monitorBufSize args)) m)) \<and>
    (sv_cancelled s \<longleftrightarrow> (\<exists>e. Ended e \<in> set (sv_checkers s))) \<and>
    (sv_cancelled s \<longrightarrow> (\<exists>e. Ended e \<in> set (sv_checkers s) \<and> e \<noteq> ErrExit)) \<and>
    (case sv_main s of
       Waits \<Rightarrow> True
     | Dumps k \<Rightarrow> all_ended s \<and> monitorEnabled args \<and> k \<le> length (sa_monitorAddresses args) \<and> dumped args k s
     | Crashed \<Rightarrow> True
     | p \<Rightarrow> p = finish args \<and> all_ended s \<and> (monitorEnabled args \<longrightarrow> dumped args (length (sa_monitorAddresses args)) s))"

lemma checker_update:
  assumes "i < length cs" and "\<And>e. cs ! i \<noteq> Ended e"
  shows "Ended e \<in> set (cs[i := t]) \<longleftrightarrow> t = Ended e \<or> Ended e \<in> set cs"
  using assms by (auto simp: in_set_conv_nth nth_list_update split: if_splits) (metis length_list_update nth_list_update)+

lemma startService_inv:
  assumes "startService args = Some s"
  shows "control_inv args s"
proof -
  obtain cs where cs: "newMonitorManager (sa_monitorAddresses args) (sa_monitorBufSize args) = Some cs"
    and s: "s = \<lparr>sv_checkers = replicate checkerNum NotStarted, sv_cancelled = False,
        sv_monitors = map (\<lambda>c. (Idle, \<lparr>mn_client = c, mn_trace = []\<rparr>)) cs, sv_files = [], sv_main = Waits\<rparr>"
    using assms by (auto simp: startService_def)
  show ?thesis
    using newMonitorManager_clients [OF cs]
    by (auto simp: control_inv_def s monitor_inv_def monitorEnabled_def comp_def)
qed

text \<open>A checker that goes on, and one that returns.\<close>

lemma running_inv:
  assumes "control_inv args s" and "i < length (sv_checkers s)" and "\<And>e. sv_checkers s ! i \<noteq> Ended e"
  shows "control_inv args (s\<lparr>sv_checkers := (sv_checkers s)[i := Running w]\<rparr>)"
proof -
  have "\<not> all_ended s" using assms(2,3) by (auto simp: all_ended_def) (metis nth_mem)
  then show ?thesis
    using assms by (auto simp: control_inv_def checker_update dumped_def split: main_point.splits)
qed

lemma returned_inv:
  assumes "control_inv args s" and "i < length (sv_checkers s)" and "\<And>e. sv_checkers s ! i \<noteq> Ended e"
    and "e = ErrExit \<longrightarrow> sv_cancelled s"
  shows "control_inv args (checkerReturns i e s)"
proof -
  have "\<not> all_ended s" using assms(2,3) by (auto simp: all_ended_def) (metis nth_mem)
  then show ?thesis
    using assms by (auto simp: control_inv_def checkerReturns_def checker_update split: main_point.splits)
qed

lemma checkerTurn_inv:
  assumes inv: "control_inv args s" and turn: "checkerTurn SE args st i s = Some t"
  shows "control_inv args t"
proof -
  have i: "i < length (sv_checkers s)" using turn by (auto simp: checkerTurn_def split: if_splits)
  show ?thesis
  proof (cases "sv_checkers s ! i")
    case NotStarted
    obtain w where "newKVChecker (se_kv SE i) (int i) st (NewCheckerClusterClient (sa_startupNode args)) = (Inr (), w)"
      using newKVChecker_returns by blast
    then show ?thesis using turn i NotStarted running_inv [OF inv i] by (auto simp: checkerTurn_def)
  next
    case (Running w)
    obtain r w' where run: "loopRound (se_kv SE i) (sv_cancelled s) w = (r, w')" by fastforce
    show ?thesis
    proof (cases r)
      case (Inl e)
      then have "e = ErrExit \<longrightarrow> sv_cancelled s" using loopRound_exit run by blast
      from returned_inv [OF inv i _ this] show ?thesis using turn i Running run Inl by (simp add: checkerTurn_def)
    next
      case (Inr u)
      then show ?thesis using turn i Running run running_inv [OF inv i, of w'] by (simp add: checkerTurn_def)
    qed
  next
    case (Ended e)
    then show ?thesis using turn i by (simp add: checkerTurn_def)
  qed
qed

lemma clientTurn_inv:
  assumes inv: "control_inv args s" and turn: "clientTurn SE args j s = Some t"
  shows "control_inv args t \<and> sv_main t = sv_main s"
proof -
  have j: "monitorEnabled args" "j < length (sv_monitors s)" using turn by (auto simp: clientTurn_def split: if_splits)
  then have "monitor_inv (nat (sa_monitorBufSize args)) (sv_monitors s ! j)" using inv by (simp add: control_inv_def)
  then obtain m where m: "monitorRound (se_mon SE j) (sv_cancelled s) (sv_monitors s ! j) = Some m"
    "monitor_inv (nat (sa_monitorBufSize args)) m"
    "mc_addr (mn_client (snd m)) = mc_addr (mn_client (snd (sv_monitors s ! j)))"
    using monitorRound_keeps by blast
  then have t: "t = s\<lparr>sv_monitors := (sv_monitors s)[j := m]\<rparr>" using turn j by (simp add: clientTurn_def)
  have "map (\<lambda>m. mc_addr (mn_client (snd m))) ((sv_monitors s)[j := m]) =
      map (\<lambda>m. mc_addr (mn_client (snd m))) (sv_monitors s)"
    using m(3) j(2) by (simp add: map_update list_update_same_conv)
  then show ?thesis
    using inv m(2) set_update_subset_insert [of "sv_monitors s" j m]
    by (auto simp: t control_inv_def all_ended_def dumped_def split: main_point.splits)
qed

text \<open>What the caller writes is what the client of that index holds.\<close>

lemma mainTurn_dumps:
  assumes inv: "control_inv args s" and "sv_main s = Dumps k" and "k < length (sv_monitors s)"
  shows "\<exists>r. mainTurn SE args s = Some (s\<lparr>sv_files := sv_files s @
      EFile (fileOf (sa_monitorAddresses args ! k)) (concat (lastn (nat (sa_monitorBufSize args) - 1)
        (monitored False (mn_trace (snd (sv_monitors s ! k)))))) r # (if r = None then [] else [ESleep]),
      sv_main := Dumps (if r = None then Suc k else 0)\<rparr>)"
proof -
  let ?c = "mn_client (snd (sv_monitors s ! k))"
  have "monitor_inv (nat (sa_monitorBufSize args)) (sv_monitors s ! k)"
    using assms by (simp add: control_inv_def)
  then have d: "getData ?c = Some (lastn (nat (sa_monitorBufSize args) - 1)
      (monitored False (mn_trace (snd (sv_monitors s ! k)))))"
    by (simp add: monitor_inv_def mon_inv_def getData_def)
  have "map (\<lambda>m. mc_addr (mn_client (snd m))) (sv_monitors s) ! k = sa_monitorAddresses args ! k"
    using inv by (simp add: control_inv_def)
  then have addr: "mc_addr ?c = sa_monitorAddresses args ! k" using assms(3) by simp
  show ?thesis
    using assms(2,3) d addr
    by (intro exI [of _ "se_file SE (sv_files s) (''monitor-'' @ mc_addr ?c)"])
      (simp add: mainTurn_def Let_def fileOf_def split: option.splits)
qed

lemma ended_case: "(case t of Ended e \<Rightarrow> True | _ \<Rightarrow> False) \<longleftrightarrow> (\<exists>e. t = Ended e)"
  by (cases t) simp_all

lemma mainTurn_inv:
  assumes inv: "control_inv args s" and turn: "mainTurn SE args s = Some t"
  shows "control_inv args t \<and> sv_main t \<noteq> Crashed"
proof (cases "sv_main s")
  case Waits
  then have "all_ended s" and t: "t = s\<lparr>sv_main := if monitorEnabled args then Dumps 0 else finish args\<rparr>"
    using turn by (auto simp: mainTurn_def all_ended_def list_all_iff ended_case split: if_splits)
  then show ?thesis using inv Waits by (auto simp: control_inv_def finish_def all_ended_def dumped_def)
next
  case (Dumps k)
  have k: "all_ended s" "monitorEnabled args" "k \<le> length (sv_monitors s)" "dumped args k s"
      "length (sv_monitors s) = length (sa_monitorAddresses args)"
    using inv Dumps by (auto simp: control_inv_def dest: arg_cong [of _ _ length])
  show ?thesis
  proof (cases "k < length (sv_monitors s)")
    case True
    then obtain r d where t: "t = s\<lparr>sv_files := sv_files s @ EFile (fileOf (sa_monitorAddresses args ! k)) d r #
          (if r = None then [] else [ESleep]), sv_main := Dumps (if r = None then Suc k else 0)\<rparr>"
      using mainTurn_dumps [OF inv Dumps True, of SE] turn by auto
    show ?thesis
      using inv Dumps k True by (auto simp: t control_inv_def all_ended_def dumped_def less_Suc_eq)
  next
    case False
    then have "t = s\<lparr>sv_main := finish args\<rparr>" using turn Dumps by (simp add: mainTurn_def)
    then show ?thesis using inv Dumps k False by (auto simp: control_inv_def finish_def all_ended_def dumped_def)
  qed
qed (use turn in \<open>simp_all add: mainTurn_def\<close>)

lemma serviceTurn_inv:
  assumes "control_inv args s" and "serviceTurn SE args st l s = Some t"
  shows "control_inv args t"
proof (cases l)
  case (Checker i)
  then show ?thesis using assms checkerTurn_inv by (auto simp: serviceTurn_def split: if_splits)
next
  case (Client j)
  then show ?thesis using assms clientTurn_inv by (auto simp: serviceTurn_def split: if_splits)
next
  case Main
  then show ?thesis using assms mainTurn_inv by (auto simp: serviceTurn_def split: if_splits)
qed

lemma serving_inv: "serving SE args st s \<Longrightarrow> control_inv args s"
proof (induction rule: serving.induct)
  case (goes_on s l t)
  from serviceTurn_inv [OF goes_on.IH goes_on.hyps(2)] show ?case .
qed (rule startService_inv)


subsection \<open>The service ends\<close>

fun thread_rank :: "checker_thread \<Rightarrow> nat" where
  "thread_rank NotStarted = 2"
| "thread_rank (Running w) = 1"
| "thread_rank (Ended e) = 0"

fun main_rank :: "nat \<Rightarrow> main_point \<Rightarrow> nat" where
  "main_rank n Waits = n + 2"
| "main_rank n (Dumps k) = n + 1 - k"
| "main_rank n p = 0"

definition service_rank :: "nat \<Rightarrow> service_state \<Rightarrow> nat" where
  "service_rank N s = (N - length (sv_files s)) * (length (sv_monitors s) + 3) + main_rank (length (sv_monitors s)) (sv_main s) +
     sum_list (map thread_rank (sv_checkers s))"

text \<open>From some attempt on files can be written.\<close>

definition disk_works :: "service_env \<Rightarrow> nat \<Rightarrow> bool" where
  "disk_works SE N \<longleftrightarrow> (\<forall>tr f. N \<le> length tr \<longrightarrow> se_file SE tr f = None)"

definition service_over :: "service_state \<Rightarrow> bool" where
  "service_over s \<longleftrightarrow> sv_main s \<in> {Blocks, Done, Crashed}"

definition needed_turn :: "turn \<Rightarrow> bool" where
  "needed_turn l \<longleftrightarrow> (\<forall>j. l \<noteq> Client j)"

definition ending_inv :: "service_env \<Rightarrow> service_args \<Rightarrow> nat \<Rightarrow> service_state \<Rightarrow> bool" where
  "ending_inv SE args N s \<longleftrightarrow> control_inv args s \<and> sv_cancelled s \<and> disk_works SE N"

lemma thread_rank_update:
  "i < length cs \<Longrightarrow> thread_rank t < thread_rank (cs ! i) \<Longrightarrow>
    sum_list (map thread_rank (cs[i := t])) < sum_list (map thread_rank cs)"
  by (induction cs arbitrary: i) (auto simp: nth_Cons' less_Suc_eq_0_disj split: nat.splits)

lemma checkerTurn_rank:
  assumes "ending_inv SE args N s" and "\<not> service_over s" and turn: "checkerTurn SE args st i s = Some t"
  shows "service_rank N t < service_rank N s \<and> sv_cancelled t"
proof -
  have c: "sv_cancelled s" using assms(1) by (simp add: ending_inv_def)
  have i: "i < length (sv_checkers s)" using turn by (auto simp: checkerTurn_def split: if_splits)
  show ?thesis
  proof (cases "sv_checkers s ! i")
    case NotStarted
    obtain w where "newKVChecker (se_kv SE i) (int i) st (NewCheckerClusterClient (sa_startupNode args)) = (Inr (), w)"
      using newKVChecker_returns by blast
    then have "t = s\<lparr>sv_checkers := (sv_checkers s)[i := Running w]\<rparr>"
      using turn i NotStarted by (simp add: checkerTurn_def)
    then show ?thesis
      using c i NotStarted thread_rank_update [of i "sv_checkers s" "Running w"]
      by (simp add: service_rank_def)
  next
    case (Running w)
    then have "t = checkerReturns i ErrExit s"
      using turn i c by (simp add: checkerTurn_def loopRound_def Let_def)
    then show ?thesis
      using c i Running thread_rank_update [of i "sv_checkers s" "Ended ErrExit"]
      by (simp add: service_rank_def checkerReturns_def is_panic_def)
  qed (use turn i in \<open>simp add: checkerTurn_def\<close>)
qed

lemma mainTurn_rank:
  assumes "ending_inv SE args N s" and turn: "mainTurn SE args s = Some t"
  shows "service_rank N t < service_rank N s \<and> sv_cancelled t"
proof -
  have inv: "control_inv args s" and c: "sv_cancelled s" and disk: "disk_works SE N"
    using assms(1) by (simp_all add: ending_inv_def)
  show ?thesis
  proof (cases "sv_main s")
    case Waits
    then have "t = s\<lparr>sv_main := if monitorEnabled args then Dumps 0 else finish args\<rparr>"
      using turn by (auto simp: mainTurn_def split: if_splits)
    then show ?thesis using c Waits by (simp add: service_rank_def finish_def)
  next
    case (Dumps k)
    show ?thesis
    proof (cases "k < length (sv_monitors s)")
      case True
      let ?c = "mn_client (snd (sv_monitors s ! k))"
      let ?r = "se_file SE (sv_files s) (''monitor-'' @ mc_addr ?c)"
      obtain d where d: "getData ?c = Some d"
        using inv Dumps True by (auto simp: control_inv_def monitor_inv_def mon_inv_def getData_def)
      show ?thesis
      proof (cases ?r)
        case None
        then have "t = s\<lparr>sv_files := sv_files s @ [EFile (''monitor-'' @ mc_addr ?c) (concat d) None],
            sv_main := Dumps (Suc k)\<rparr>"
          using turn Dumps True d by (simp add: mainTurn_def Let_def)
        moreover have "(N - Suc (length (sv_files s))) * (length (sv_monitors s) + 3) \<le>
            (N - length (sv_files s)) * (length (sv_monitors s) + 3)"
          by (intro mult_le_mono1) simp
        ultimately have "service_rank N t + k \<le> (N - length (sv_files s)) * (length (sv_monitors s) + 3) +
            length (sv_monitors s) + sum_list (map thread_rank (sv_checkers s))"
          using True unfolding service_rank_def by simp
        moreover have "service_rank N s + k = (N - length (sv_files s)) * (length (sv_monitors s) + 3) +
            length (sv_monitors s) + 1 + sum_list (map thread_rank (sv_checkers s))"
          using True Dumps by (simp add: service_rank_def)
        moreover have "sv_cancelled t" using c \<open>t = _\<close> by simp
        ultimately show ?thesis by linarith
      next
        case (Some e)
        then have early: "length (sv_files s) < N" using disk by (metis disk_works_def leI option.distinct(1))
        then obtain m where m: "N - length (sv_files s) = Suc m" by (metis Suc_diff_Suc)
        have "t = s\<lparr>sv_files := sv_files s @ [EFile (''monitor-'' @ mc_addr ?c) (concat d) (Some e), ESleep],
            sv_main := Dumps 0\<rparr>"
          using turn Dumps True d Some by (simp add: mainTurn_def Let_def)
        moreover have "(N - Suc (Suc (length (sv_files s)))) * (length (sv_monitors s) + 3) \<le>
            m * (length (sv_monitors s) + 3)"
          using m by (intro mult_le_mono1) simp
        ultimately have "service_rank N t \<le> m * (length (sv_monitors s) + 3) + length (sv_monitors s) + 1 +
            sum_list (map thread_rank (sv_checkers s))"
          unfolding service_rank_def by simp
        moreover have "service_rank N s + k = m * (length (sv_monitors s) + 3) + (length (sv_monitors s) + 3) +
            length (sv_monitors s) + 1 + sum_list (map thread_rank (sv_checkers s))"
          using True Dumps m by (simp add: service_rank_def)
        moreover have "sv_cancelled t" using c \<open>t = _\<close> by simp
        ultimately show ?thesis using True by linarith
      qed
    next
      case False
      then have "t = s\<lparr>sv_main := finish args\<rparr>" using turn Dumps by (simp add: mainTurn_def)
      moreover have "k \<le> length (sv_monitors s)"
        using inv Dumps by (auto simp: control_inv_def dest: arg_cong [of _ _ length])
      ultimately show ?thesis using c Dumps by (simp add: service_rank_def finish_def)
    qed
  qed (use turn in \<open>simp_all add: mainTurn_def\<close>)
qed

lemma clientTurn_frame:
  assumes "control_inv args s" and "clientTurn SE args j s = Some t"
  shows "sv_main t = sv_main s \<and> sv_checkers t = sv_checkers s \<and> sv_cancelled t = sv_cancelled s \<and>
    sv_files t = sv_files s \<and> length (sv_monitors t) = length (sv_monitors s)"
  using assms clientTurn_inv [OF assms] by (auto simp: clientTurn_def split: if_splits option.splits)

interpretation service: ranked_system "serviceTurn SE args st" needed_turn "ending_inv SE args N"
    "service_rank N" service_over
  for SE args st N
proof
  fix s l t
  assume inv: "ending_inv SE args N s" and over: "\<not> service_over s" and turn: "serviceTurn SE args st l s = Some t"
  have c: "control_inv args s" using inv by (simp add: ending_inv_def)
  have t: "control_inv args t" by (rule serviceTurn_inv [OF c turn])
  show "ending_inv SE args N t"
  proof (cases l)
    case (Checker i)
    then show ?thesis
      using turn t inv checkerTurn_rank [OF inv over] by (auto simp: serviceTurn_def ending_inv_def split: if_splits)
  next
    case (Client j)
    then show ?thesis
      using turn t inv clientTurn_frame [OF c] by (auto simp: serviceTurn_def ending_inv_def split: if_splits)
  next
    case Main
    then show ?thesis
      using turn t inv mainTurn_rank [OF inv] by (auto simp: serviceTurn_def ending_inv_def split: if_splits)
  qed
  show "service_rank N t < service_rank N s" if "needed_turn l"
    using that turn checkerTurn_rank [OF inv over] mainTurn_rank [OF inv]
    by (auto simp: serviceTurn_def needed_turn_def split: turn.splits if_splits)
  show "service_rank N t \<le> service_rank N s" if "\<not> needed_turn l"
    using that turn clientTurn_frame [OF c]
    by (auto simp: serviceTurn_def needed_turn_def service_rank_def split: if_splits)
next
  fix s l l' t
  assume inv: "ending_inv SE args N s" and over: "\<not> service_over s" and "needed_turn l"
    and ready: "serviceTurn SE args st l s \<noteq> None" and "\<not> needed_turn l'"
    and turn: "serviceTurn SE args st l' s = Some t" and "\<not> service_over t"
  then obtain j where j: "clientTurn SE args j s = Some t"
    by (auto simp: serviceTurn_def needed_turn_def split: if_splits)
  have c: "control_inv args s" using inv by (simp add: ending_inv_def)
  have ct: "control_inv args t" using clientTurn_inv [OF c j] by blast
  note frame = clientTurn_frame [OF c j]
  show "serviceTurn SE args st l t \<noteq> None"
  proof (cases l)
    case (Checker i)
    then show ?thesis
      using ready frame by (auto simp: serviceTurn_def checkerTurn_def split: if_splits checker_thread.splits prod.splits sum.splits)
  next
    case (Client j)
    then show ?thesis using \<open>needed_turn l\<close> by (simp add: needed_turn_def)
  next
    case Main
    have "mainTurn SE args t \<noteq> None"
    proof (cases "sv_main t")
      case Waits
      then show ?thesis using ready frame Main by (auto simp: serviceTurn_def mainTurn_def split: if_splits)
    next
      case (Dumps k)
      then show ?thesis using mainTurn_dumps [OF ct Dumps, of SE] by (cases "k < length (sv_monitors t)") (auto simp: mainTurn_def)
    qed (use \<open>\<not> service_over t\<close> in \<open>simp_all add: service_over_def\<close>)
    then show ?thesis using Main \<open>\<not> service_over t\<close> by (simp add: serviceTurn_def service_over_def)
  qed
next
  fix s assume inv: "ending_inv SE args N s" and over: "\<not> service_over s"
  have c: "control_inv args s" using inv by (simp add: ending_inv_def)
  show "\<exists>l. needed_turn l \<and> serviceTurn SE args st l s \<noteq> None"
  proof (cases "sv_main s")
    case Waits
    show ?thesis
    proof (cases "all_ended s")
      case True
      then have "mainTurn SE args s \<noteq> None" using Waits by (simp add: mainTurn_def list_all_iff ended_case all_ended_def)
      then show ?thesis using Waits by (intro exI [of _ Main]) (simp add: serviceTurn_def needed_turn_def)
    next
      case False
      then obtain i where i: "i < length (sv_checkers s)" "\<And>e. sv_checkers s ! i \<noteq> Ended e"
        unfolding all_ended_def by (metis in_set_conv_nth)
      then have "checkerTurn SE args st i s \<noteq> None"
        by (auto simp: checkerTurn_def split: checker_thread.splits prod.splits sum.splits)
      then show ?thesis using Waits by (intro exI [of _ "Checker i"]) (simp add: serviceTurn_def needed_turn_def)
    qed
  next
    case (Dumps k)
    then have "mainTurn SE args s \<noteq> None"
      using mainTurn_dumps [OF c Dumps, of SE] by (cases "k < length (sv_monitors s)") (auto simp: mainTurn_def)
    then show ?thesis using Dumps by (intro exI [of _ Main]) (simp add: serviceTurn_def needed_turn_def)
  qed (use over in \<open>simp_all add: service_over_def\<close>)
qed


subsection \<open>An honest cluster\<close>

definition newChecker :: "service_env \<Rightarrow> service_args \<Rightarrow> slotTags \<Rightarrow> nat \<Rightarrow> kv_state" where
  "newChecker SE args st i = snd (newKVChecker (se_kv SE i) (int i) st (NewCheckerClusterClient (sa_startupNode args)))"

text \<open>Each checker gets the stored values for its keys.\<close>

definition honest_service :: "service_env \<Rightarrow> service_args \<Rightarrow> slotTags \<Rightarrow> bool" where
  "honest_service SE args st \<longleftrightarrow> (\<forall>i < checkerNum. order_law (se_kv SE i) \<and>
     honest (ke_net (se_kv SE i)) (own_keys (newChecker SE args st i)))"

definition quiet_thread :: "string set \<Rightarrow> checker_thread \<Rightarrow> bool" where
  "quiet_thread K t \<longleftrightarrow> (case t of
     NotStarted \<Rightarrow> True | Running w \<Rightarrow> kv_inv K Map.empty (core w) | Ended e \<Rightarrow> \<not> false_alarm e)"

definition quiet_inv :: "service_env \<Rightarrow> service_args \<Rightarrow> slotTags \<Rightarrow> service_state \<Rightarrow> bool" where
  "quiet_inv SE args st s \<longleftrightarrow> sv_main s \<noteq> Crashed \<and>
     (\<forall>i < length (sv_checkers s). quiet_thread (own_keys (newChecker SE args st i)) (sv_checkers s ! i))"

lemma quiet_update:
  "quiet_inv SE args st s \<Longrightarrow> quiet_thread (own_keys (newChecker SE args st i)) t \<Longrightarrow>
    quiet_inv SE args st (s\<lparr>sv_checkers := (sv_checkers s)[i := t], sv_cancelled := b\<rparr>) \<and>
    quiet_inv SE args st (s\<lparr>sv_checkers := (sv_checkers s)[i := t]\<rparr>)"
  by (cases "i < length (sv_checkers s)") (simp_all add: quiet_inv_def nth_list_update)

lemma client_start: "cl_trace (NewCheckerClusterClient a) = []" "pool_ok (NewCheckerClusterClient a)"
  by (simp_all add: NewCheckerClusterClient_def pool_ok_def)

lemma newChecker_quiet:
  assumes "tags_ok st"
  shows "newKVChecker (se_kv SE i) (int i) st (NewCheckerClusterClient (sa_startupNode args)) =
      (Inr (), newChecker SE args st i) \<and>
    kv_inv (own_keys (newChecker SE args st i)) Map.empty (core (newChecker SE args st i))"
proof -
  obtain r w where run: "newKVChecker (se_kv SE i) (int i) st (NewCheckerClusterClient (sa_startupNode args)) = (r, w)"
    by fastforce
  then have "newChecker SE args st i = w" by (simp add: newChecker_def)
  then show ?thesis using newKVChecker_inv [OF assms run client_start] run by simp
qed

lemma quiet_round:
  assumes "order_law E" and "honest (ke_net E) K" and "kv_inv K Map.empty (core w)"
    and "loopRound E ended w = (r, w')"
  shows "case r of Inl e \<Rightarrow> \<not> false_alarm e | Inr _ \<Rightarrow> kv_inv K Map.empty (core w')"
proof (cases ended)
  case False
  then have run: "checkKeyValue E (w\<lparr>kv_tick := Suc (kv_tick w)\<rparr>) = (r, w')"
    using assms(4) by (simp add: loopRound_def Let_def)
  have "kv_inv K Map.empty (core (w\<lparr>kv_tick := Suc (kv_tick w)\<rparr>))" using assms(3) by simp
  from kvt_checkKeyValue [OF assms(1,2), unfolded kvt_def, rule_format, OF this] show ?thesis
    by (simp add: run split: sum.splits)
qed (use assms(4) in \<open>auto simp: loopRound_def Let_def\<close>)

lemma checkerTurn_quiet:
  assumes law: "honest_service SE args st" "tags_ok st" and len: "length (sv_checkers s) = checkerNum"
    and quiet: "quiet_inv SE args st s" and turn: "checkerTurn SE args st i s = Some t"
  shows "quiet_inv SE args st t"
proof -
  have i: "i < length (sv_checkers s)" using turn by (auto simp: checkerTurn_def split: if_splits)
  then have E: "order_law (se_kv SE i)" "honest (ke_net (se_kv SE i)) (own_keys (newChecker SE args st i))"
    using law(1) len by (simp_all add: honest_service_def)
  have thread: "quiet_thread (own_keys (newChecker SE args st i)) (sv_checkers s ! i)"
    using quiet i by (simp add: quiet_inv_def)
  show ?thesis
  proof (cases "sv_checkers s ! i")
    case NotStarted
    then show ?thesis
      using turn i newChecker_quiet [OF law(2), of SE i args] quiet_update [OF quiet, of i "Running (newChecker SE args st i)"]
      by (auto simp: checkerTurn_def quiet_thread_def)
  next
    case (Running w)
    obtain r w' where run: "loopRound (se_kv SE i) (sv_cancelled s) w = (r, w')" by fastforce
    have inv: "kv_inv (own_keys (newChecker SE args st i)) Map.empty (core w)"
      using thread Running by (simp add: quiet_thread_def)
    have round: "case r of Inl e \<Rightarrow> \<not> false_alarm e
        | Inr _ \<Rightarrow> kv_inv (own_keys (newChecker SE args st i)) Map.empty (core w')"
      by (rule quiet_round [OF E inv run])
    show ?thesis
    proof (cases r)
      case (Inl e)
      then have "\<not> is_panic e" using round by (auto simp: is_panic_def)
      then show ?thesis
        using turn i Running run Inl round quiet_update [OF quiet, of i "Ended e"]
        by (auto simp: checkerTurn_def checkerReturns_def quiet_thread_def)
    next
      case (Inr u)
      then show ?thesis
        using turn i Running run round quiet_update [OF quiet, of i "Running w'"]
        by (auto simp: checkerTurn_def quiet_thread_def)
    qed
  qed (use turn i in \<open>simp add: checkerTurn_def\<close>)
qed

lemma mainTurn_checkers: "mainTurn SE args s = Some t \<Longrightarrow> sv_checkers t = sv_checkers s"
  by (auto simp: mainTurn_def Let_def split: main_point.splits if_splits option.splits)

lemma serving_quiet:
  assumes "serving SE args st s" and law: "honest_service SE args st" "tags_ok st"
  shows "quiet_inv SE args st s"
  using assms(1)
proof (induction rule: serving.induct)
  case (started s)
  then show ?case by (auto simp: startService_def quiet_inv_def quiet_thread_def)
next
  case (goes_on s l t)
  have inv: "control_inv args s" by (rule serving_inv) (rule goes_on.hyps(1))
  show ?case
  proof (cases l)
    case (Checker i)
    then show ?thesis
      using goes_on.hyps(2) checkerTurn_quiet [OF law _ goes_on.IH] inv
      by (auto simp: serviceTurn_def control_inv_def split: if_splits)
  next
    case (Client j)
    then show ?thesis
      using goes_on clientTurn_frame [OF inv] by (auto simp: serviceTurn_def quiet_inv_def split: if_splits)
  next
    case Main
    then show ?thesis
      using goes_on mainTurn_checkers mainTurn_inv [OF inv]
      by (fastforce simp: serviceTurn_def quiet_inv_def split: if_splits)
  qed
qed

subsection \<open>What the service does\<close>

text \<open>A run of the service, and the contract of \<open>ranked_system\<close> applied to it.\<close>

lemma serving_run:
  assumes "startService args = Some (\<sigma> 0)" and "scheduled (serviceTurn SE args st) ls \<sigma>"
  shows "serving SE args st (\<sigma> n)"
proof (induction n)
  case 0
  show ?case by (rule serving.started) (rule assms(1))
next
  case (Suc n)
  then show ?case
    using serving.goes_on [OF Suc] scheduledD [OF assms(2), of n]
    by (cases "serviceTurn SE args st (ls n) (\<sigma> n)") simp_all
qed

lemma service_ended:
  "serving SE args st s \<Longrightarrow> sv_main s \<in> {Blocks, Done} \<Longrightarrow>
    sv_main s = finish args \<and> all_ended s \<and> length (sv_checkers s) = checkerNum \<and>
    (\<exists>e. Ended e \<in> set (sv_checkers s) \<and> e \<noteq> ErrExit) \<and>
    (monitorEnabled args \<longrightarrow> dumped args (length (sa_monitorAddresses args)) s)"
proof -
  assume "serving SE args st s" and main: "sv_main s \<in> {Blocks, Done}"
  then have inv: "control_inv args s" using serving_inv by blast
  then have ended: "all_ended s" using main by (auto simp: control_inv_def)
  moreover have "sv_checkers s \<noteq> []" using inv by (auto simp: control_inv_def checkerNum_def)
  ultimately have "\<exists>e. Ended e \<in> set (sv_checkers s)"
    unfolding all_ended_def by (metis list.set_intros(1) list.exhaust)
  then show ?thesis using inv main ended by (auto simp: control_inv_def)
qed



text \<open>
  Three checkers that run side by side on a cluster that answers each checker's reads with what is stored
  for its keys never panic, and none of them returns an inconsistency, under every schedule.
\<close>

theorem service_no_false_alarm:
  assumes "serving SE args st s" and "honest_service SE args st" and "tags_ok st"
  shows "sv_main s \<noteq> Crashed \<and> (\<forall>e. Ended e \<in> set (sv_checkers s) \<longrightarrow> \<not> false_alarm e)"
  using serving_quiet [OF assms] by (auto simp: quiet_inv_def quiet_thread_def in_set_conv_nth)

subsection \<open>A sample\<close>

text \<open>The rate limiter of every checker fails, and the first attempt to write a file does.\<close>

definition limited_env :: kv_env where
  "limited_env = kv_sample_env\<lparr>ke_rand := (\<lambda>n. 5), ke_wait := (\<lambda>t n. Some ''limiter closed'')\<rparr>"

definition sample_args :: service_args where
  "sample_args = \<lparr>sa_startupNode = ''a:1'', sa_monitorAddresses = [''a:1''], sa_monitorBufSize = 3, sa_blockOnError = False\<rparr>"

definition sample_service :: "mon_env \<Rightarrow> service_env" where
  "sample_service M = \<lparr>se_kv = (\<lambda>i. limited_env), se_mon = (\<lambda>j. M),
     se_file = (\<lambda>tr f. if tr = [] then Some ''no space'' else None)\<rparr>"

definition sample_start :: service_state where
  "sample_start = the (startService sample_args)"

definition sample_schedule :: "nat \<Rightarrow> turn" where
  "sample_schedule n = (if n < 6 then [Checker 0, Checker 0, Checker 1, Checker 1, Checker 2, Checker 2] ! n else Main)"

lemma sample_starts: "startService sample_args = Some sample_start"
  unfolding sample_start_def by (simp add: startService_def sample_args_def newMonitorClient_def newRingBuf_def)

lemma limited_round: "\<exists>w'. loopRound limited_env False w = (Inl (LimiterErr ''limiter closed''), w')"
  by (simp add: loopRound_def Let_def checkKeyValue_def checkLuaMGet_def bindE_def choice_def waitN_def limited_env_def)

definition sample_run :: "slotTags \<Rightarrow> nat \<Rightarrow> service_state" where
  "sample_run st = run_of (serviceTurn (sample_service sample_mon) sample_args st) sample_schedule sample_start"

lemma sample_turns:
  assumes "sv_main s = Waits" and "i < length (sv_checkers s)"
  shows "sv_checkers s ! i = NotStarted \<Longrightarrow>
      serviceTurn (sample_service sample_mon) sample_args st (Checker i) s =
        Some (s\<lparr>sv_checkers := (sv_checkers s)[i := Running (newChecker (sample_service sample_mon) sample_args st i)]\<rparr>)"
    and "sv_checkers s ! i = Running w \<Longrightarrow>
      serviceTurn (sample_service sample_mon) sample_args st (Checker i) s =
        Some (checkerReturns i (if sv_cancelled s then ErrExit else LimiterErr ''limiter closed'') s)"
proof -
  have new: "newKVChecker limited_env (int i) st (NewCheckerClusterClient (sa_startupNode sample_args)) =
      (Inr (), newChecker (sample_service sample_mon) sample_args st i)"
    using newKVChecker_returns [of limited_env "int i" st "NewCheckerClusterClient (sa_startupNode sample_args)"]
    by (auto simp: newChecker_def sample_service_def)
  show "sv_checkers s ! i = NotStarted \<Longrightarrow>
      serviceTurn (sample_service sample_mon) sample_args st (Checker i) s =
        Some (s\<lparr>sv_checkers := (sv_checkers s)[i := Running (newChecker (sample_service sample_mon) sample_args st i)]\<rparr>)"
    using assms new by (simp add: serviceTurn_def checkerTurn_def sample_service_def)
  obtain w' where "loopRound limited_env False w = (Inl (LimiterErr ''limiter closed''), w')"
    using limited_round by blast
  then show "sv_checkers s ! i = Running w \<Longrightarrow>
      serviceTurn (sample_service sample_mon) sample_args st (Checker i) s =
        Some (checkerReturns i (if sv_cancelled s then ErrExit else LimiterErr ''limiter closed'') s)"
    using assms by (cases "sv_cancelled s")
      (simp_all add: serviceTurn_def checkerTurn_def sample_service_def loopRound_def Let_def)
qed

lemma sample_start_fields: "sv_checkers sample_start = [NotStarted, NotStarted, NotStarted]"
  "sv_main sample_start = Waits" "\<not> sv_cancelled sample_start" "sv_files sample_start = []"
  by (simp_all add: sample_start_def startService_def sample_args_def newMonitorClient_def newRingBuf_def
      checkerNum_def numeral_3_eq_3)

lemma sample_run_ended:
  "sample_run st 6 = sample_start\<lparr>sv_checkers := [Ended (LimiterErr ''limiter closed''), Ended ErrExit, Ended ErrExit],
    sv_cancelled := True\<rparr>"
  by (simp add: sample_run_def eval_nat_numeral sample_schedule_def sample_turns sample_start_fields checkerReturns_def is_panic_def)

lemma sample_step:
  "6 \<le> n \<Longrightarrow> sample_run st (Suc n) =
    (case serviceTurn (sample_service sample_mon) sample_args st Main (sample_run st n) of
       None \<Rightarrow> sample_run st n | Some t \<Rightarrow> t)"
  unfolding sample_run_def by (simp add: sample_schedule_def)

lemma sample_monitors:
  "\<exists>m. sv_monitors sample_start = [m] \<and> mc_addr (mn_client (snd m)) = ''a:1'' \<and> getData (mn_client (snd m)) = Some []"
  by (simp add: sample_start_def startService_def sample_args_def newMonitorClient_def newRingBuf_def getData_def
      rb_data_def rb_len_def go_slice_def go_copy_def Let_def)

lemma sample_run_done:
  "sv_main (sample_run st 10) = Done \<and> sv_checkers (sample_run st 10) = sv_checkers (sample_run st 6) \<and>
    sv_files (sample_run st 10) =
      [EFile ''monitor-a:1'' [] (Some ''no space''), ESleep, EFile ''monitor-a:1'' [] None]"
proof -
  obtain m where m: "sv_monitors sample_start = [m]" "mc_addr (mn_client (snd m)) = ''a:1''"
    "getData (mn_client (snd m)) = Some []"
    using sample_monitors by blast
  let ?s = "sample_run st 6"
  have s: "sv_monitors ?s = [m]" "sv_main ?s = Waits" "sv_files ?s = []" "sv_checkers ?s =
      [Ended (LimiterErr ''limiter closed''), Ended ErrExit, Ended ErrExit]"
    by (simp_all add: sample_run_ended m sample_start_fields)
  have "sample_run st 7 = ?s\<lparr>sv_main := Dumps 0\<rparr>"
    using sample_step [of 6 st] s by (simp add: serviceTurn_def mainTurn_def monitorEnabled_def sample_args_def)
  then have "sample_run st 8 = ?s\<lparr>sv_files := [EFile ''monitor-a:1'' [] (Some ''no space''), ESleep], sv_main := Dumps 0\<rparr>"
    using sample_step [of 7 st] s m by (simp add: serviceTurn_def mainTurn_def sample_service_def Let_def)
  then have "sample_run st 9 = ?s\<lparr>sv_files := [EFile ''monitor-a:1'' [] (Some ''no space''), ESleep,
      EFile ''monitor-a:1'' [] None], sv_main := Dumps 1\<rparr>"
    using sample_step [of 8 st] s m by (simp add: serviceTurn_def mainTurn_def sample_service_def Let_def)
  then show ?thesis
    using sample_step [of 9 st] s by (simp add: serviceTurn_def mainTurn_def finish_def sample_args_def)
qed

lemma sample_laws:
  "scheduled (serviceTurn (sample_service sample_mon) sample_args st) sample_schedule (sample_run st)"
  "fair (serviceTurn (sample_service sample_mon) sample_args st) needed_turn sample_schedule (sample_run st)"
  "startService sample_args = Some (sample_run st 0)"
proof -
  show "scheduled (serviceTurn (sample_service sample_mon) sample_args st) sample_schedule (sample_run st)"
    by (simp add: sample_run_def)
  show "fair (serviceTurn (sample_service sample_mon) sample_args st) needed_turn sample_schedule (sample_run st)"
    unfolding sample_run_def
    by (rule fair_stuck [where N = 10]) (use sample_run_done [of st] in \<open>simp add: sample_run_def serviceTurn_def\<close>)
  show "startService sample_args = Some (sample_run st 0)" by (simp add: sample_run_def sample_starts)
qed


lemma sample_disk: "disk_works (sample_service sample_mon) 1"
  by (auto simp: disk_works_def sample_service_def)


end
