(* ===== verification/Kv_Sharing.thy ===== *)
theory Kv_Sharing
  imports Checker_Service
begin

section \<open>Three checkers on one cluster\<close>

text \<open>
  The checkers of a service work on the same cluster, command by command in any order. What a checker may rely on,
  that nobody else writes its keys, is what the others guarantee: every command a checker sends writes
  keys of its own only, whatever the cluster answers, and keys carry the number of their checker. So a cluster that
  is honest about the commands of all three is honest about the keys of each.
\<close>

subsection \<open>What a command writes\<close>

fun pair_keys :: "string list \<Rightarrow> string set" where
  "pair_keys (k # v # rest) = insert k (pair_keys rest)"
| "pair_keys _ = {}"

fun keys_written :: "command \<Rightarrow> string set" where
  "keys_written (CSet k v) = {k}"
| "keys_written (CDel ks) = set ks"
| "keys_written (CMSet kvs) = pair_keys kvs"
| "keys_written (CEval script ks vs) = (if script = luaMSetScript then set ks else {})"
| "keys_written _ = {}"

fun writes :: "sent \<Rightarrow> string set" where
  "writes (Sent a c r) = keys_written c"

lemma apply_pairs_other: "k \<notin> pair_keys kvs \<Longrightarrow> apply_pairs kvs st k = st k"
  by (induction kvs st rule: apply_pairs.induct) simp_all

lemma apply_pairs_local: "st k = st' k \<Longrightarrow> apply_pairs kvs st k = apply_pairs kvs st' k"
proof (induction kvs st arbitrary: st' rule: apply_pairs.induct)
  case (1 l v rest st)
  from 1(1) [of "st'(l \<mapsto> v)"] 1(2) show ?case by (simp del: fun_upd_apply) (simp add: fun_upd_def)
qed simp_all

lemma apply_cmd_other: "k \<notin> keys_written c \<Longrightarrow> apply_cmd c st k = st k"
proof (cases c)
  case (CEval script ks vs)
  assume "k \<notin> keys_written c"
  then have "script = luaMSetScript \<Longrightarrow> map_of (rev (zip ks vs)) k = None"
    using CEval by (auto simp: map_of_eq_None_iff dest: set_zip_leftD)
  then show ?thesis using CEval by (simp add: map_add_def)
qed (use apply_pairs_other in auto)

lemma apply_cmd_local: "st k = st' k \<Longrightarrow> apply_cmd c st k = apply_cmd c st' k"
  using apply_pairs_local [of st k st'] by (cases c) (auto simp: restrict_map_def map_add_def split: option.splits)

lemma answer_ok_local:
  "answer_ok st c r \<Longrightarrow> (\<And>k. k \<in> set (keys_read c) \<Longrightarrow> st k = st' k) \<Longrightarrow> answer_ok st' c r"
  by (induction st c r rule: answer_ok.induct) (auto split: if_splits)

text \<open>A trace of the cluster, with the number of the checker that sent each command.\<close>

definition sent_by :: "nat \<Rightarrow> (nat \<times> sent) list \<Rightarrow> sent list" where
  "sent_by i G = map snd (filter (\<lambda>e. fst e = i) G)"

lemma sent_by_simps [simp]:
  "sent_by i [] = []" "sent_by i (G @ [(j, e)]) = (if i = j then sent_by i G @ [e] else sent_by i G)"
  by (simp_all add: sent_by_def)

lemma store_of_own:
  "(\<And>j e. (j, e) \<in> set G \<Longrightarrow> j \<noteq> i \<Longrightarrow> k \<notin> writes e) \<Longrightarrow> store_of (map snd G) k = store_of (sent_by i G) k"
proof (induction G rule: rev_induct)
  case (snoc x G)
  obtain j a c r where x: "x = (j, Sent a c r)" by (metis prod.exhaust sent.exhaust)
  have IH: "store_of (map snd G) k = store_of (sent_by i G) k" using snoc by auto
  show ?case
  proof (cases r)
    case (Inr v)
    have "j \<noteq> i \<Longrightarrow> k \<notin> keys_written c" using snoc.prems [of j "Sent a c r"] x by simp
    then show ?thesis using IH Inr x apply_cmd_local [where st = "store_of (map snd G)" and st' = "store_of (sent_by i G)" and k = k and c = c, OF IH] apply_cmd_other [of k c] by auto
  qed (use IH x in auto)
qed simp

text \<open>A client that sees the cluster through its own trace.\<close>

lemma honest_view:
  assumes "honest C UNIV"
    and "\<And>tr a c. \<exists>G. sent_by i G = tr \<and> (\<forall>j e. (j, e) \<in> set G \<longrightarrow> j \<noteq> i \<longrightarrow> writes e \<inter> K = {}) \<and>
      net tr a c = C (map snd G) a c"
  shows "honest net K"
  unfolding honest_def
proof (intro allI impI)
  fix tr a c assume K: "set (keys_read c) \<subseteq> K"
  obtain G where G: "sent_by i G = tr" "net tr a c = C (map snd G) a c"
    "\<And>j e. (j, e) \<in> set G \<Longrightarrow> j \<noteq> i \<Longrightarrow> writes e \<inter> K = {}"
    using assms(2) by metis
  have "answer_ok (store_of (map snd G)) c (net tr a c)" using honestD [OF assms(1)] G(2) by simp
  then show "answer_ok (store_of tr) c (net tr a c)"
    by (rule answer_ok_local) (use store_of_own [of G i] G K in blast)
qed

subsection \<open>What a checker guarantees\<close>

text \<open>
  Its maps hold keys of \<open>K\<close> only, and so does what it has written. \<open>stays\<close> is a triple over both outcomes of an operation.
\<close>

definition own_inv :: "string set \<Rightarrow> kv_state \<Rightarrow> bool" where
  "own_inv K w \<longleftrightarrow> (\<forall>s. fst ` set (kv_keys w s) \<subseteq> K) \<and> set (kv_luaKeys w) \<subseteq> K \<and> pool_ok w \<and>
    (\<forall>e \<in> set (cl_trace w). writes e \<subseteq> K)"

definition stays :: "string set \<Rightarrow> 'a kv \<Rightarrow> ('a \<Rightarrow> bool) \<Rightarrow> bool" where
  "stays K m Q \<longleftrightarrow> (\<forall>w r w'. own_inv K w \<longrightarrow> m w = (r, w') \<longrightarrow> own_inv K w' \<and> (\<forall>x. r = Inr x \<longrightarrow> Q x))"

named_theorems stays "operations that write keys of their own only"

lemma stays_bind:
  assumes "stays K m R" and "\<And>x. R x \<Longrightarrow> stays K (f x) Q"
  shows "stays K (bindE m f) Q"
  unfolding stays_def
proof (intro allI impI)
  fix w r w' assume inv: "own_inv K w" and run: "bindE m f w = (r, w')"
  obtain q u where m: "m w = (q, u)" by fastforce
  then have u: "own_inv K u" "\<And>x. q = Inr x \<Longrightarrow> R x" using assms(1) inv unfolding stays_def by blast+
  show "own_inv K w' \<and> (\<forall>x. r = Inr x \<longrightarrow> Q x)"
  proof (cases q)
    case (Inl e)
    then show ?thesis using run m u(1) by (auto simp: bindE_def)
  next
    case (Inr x)
    then have "f x u = (r, w')" using run m by (simp add: bindE_def)
    with assms(2) [OF u(2) [OF Inr]] u(1) show ?thesis unfolding stays_def by blast
  qed
qed

lemma stays_return: "Q x \<Longrightarrow> stays K (returnE x) Q"
  by (simp add: stays_def)

lemma stays_throw: "stays K (throwE e) Q"
  by (simp add: stays_def)

lemma stays_post: "stays K m R \<Longrightarrow> (\<And>x. R x \<Longrightarrow> Q x) \<Longrightarrow> stays K m Q"
  unfolding stays_def by blast

lemma stays_choice: "(\<And>n. Q (f n)) \<Longrightarrow> stays K (choice f) Q"
  by (auto simp: stays_def choice_def own_inv_def pool_ok_def)

lemma stays_gets: "(\<And>w. own_inv K w \<Longrightarrow> Q (f w)) \<Longrightarrow> stays K (getsE f) Q"
  by (simp add: stays_def)

lemma stays_foreach:
  "(\<And>x. x \<in> set xs \<Longrightarrow> stays K (f x) (\<lambda>_. True)) \<Longrightarrow> stays K (foreachE f xs) (\<lambda>_. True)"
proof (induction xs)
  case (Cons x xs)
  then show ?case by (simp del: bindE_def) (rule stays_bind, auto)
qed (simp add: stays_def)

lemma stays_wait: "stays K (waitN E n) (\<lambda>_. True)"
  unfolding waitN_def
  by (rule stays_bind [where R = "\<lambda>_. True"], rule stays_choice) (auto intro: stays_return stays_throw split: option.split)

lemma stays_ranged: "order_law E \<Longrightarrow> stays K (ranged E m) (\<lambda>v. set v = set m)"
  unfolding ranged_def by (rule stays_choice) (metis mset_eq_setD order_law_def)

text \<open>Commands of the client.\<close>

lemma stays_Exec:
  assumes "keys_written cmd \<subseteq> K" and "own_inv K w" and "Exec net False node (process net cmd) w = (res, w')"
  shows "own_inv K w'"
proof -
  obtain hops p where h: "w' = w\<lparr>cl_trace := cl_trace w @ hops, cl_pool := p\<rparr>" "pool_ok w'" "redirect_chain cmd node hops"
    using Exec_chain [of w net node cmd res w'] assms(2,3) by (auto simp: own_inv_def)
  have "writes e = keys_written cmd" if "e \<in> set hops" for e
    using h(3) that
  proof (induction hops arbitrary: node)
    case (Cons x hops)
    then show ?case by (cases x) (auto split: if_splits sum.splits)
  qed simp
  then show ?thesis using assms(1,2) h(1,2) by (auto simp: own_inv_def)
qed

lemma stays_onClient:
  assumes "keys_written cmd \<subseteq> K"
    and "\<And>net node w r w'. c net False node w = (r, w') \<Longrightarrow> \<exists>res. Exec net False node (process net cmd) w = (res, w')"
  shows "stays K (onClient c E) (\<lambda>_. True)"
  unfolding stays_def
proof (intro allI impI conjI)
  fix w r w' assume inv: "own_inv K w" and run: "onClient c E w = (r, w')"
  obtain q u where c: "c (ke_net E) False (kv_startupNode w) w = (q, u)" by fastforce
  then have "w' = u" using run by (auto simp: onClient_def tryE_def split: sum.splits)
  with stays_Exec [OF assms(1) inv] assms(2) [OF c] show "own_inv K w'" by blast
qed simp

lemma client_is_Exec:
  "client_Get net False node k w = (r, w') \<Longrightarrow> \<exists>res. Exec net False node (process net (CGet k)) w = (res, w')"
  "client_Set net False node k v w = (s, w') \<Longrightarrow> \<exists>res. Exec net False node (process net (CSet k v)) w = (res, w')"
  "client_Del net False node ks w = (s, w') \<Longrightarrow> \<exists>res. Exec net False node (process net (CDel ks)) w = (res, w')"
  "client_MSet net False node ks w = (s, w') \<Longrightarrow> \<exists>res. Exec net False node (process net (CMSet ks)) w = (res, w')"
  "client_luaMSet net False node ks vs w = (s, w') \<Longrightarrow>
    \<exists>res. Exec net False node (process net (CEval luaMSetScript ks vs)) w = (res, w')"
  "client_MGet net False node ks w = (l, w') \<Longrightarrow> \<exists>res. Exec net False node (process net (CMGet ks)) w = (res, w')"
  "client_LuaMGet net False node ks w = (l, w') \<Longrightarrow>
    \<exists>res. Exec net False node (process net (CEval luaMGetScript ks [])) w = (res, w')"
  by (auto simp: client_Get_def client_Set_def client_Del_def client_MSet_def client_luaMSet_def client_MGet_def
      client_LuaMGet_def list_result_def tryE_def bindE_def split: prod.splits sum.splits if_splits reply.splits option.splits)

subsection \<open>The checks\<close>

definition in_keys :: "string set \<Rightarrow> string go_map \<Rightarrow> bool" where
  "in_keys K m \<longleftrightarrow> fst ` set m \<subseteq> K"

lemma in_keys_update: "in_keys K m \<Longrightarrow> k \<in> K \<Longrightarrow> in_keys K (AList.update k v m)"
  by (auto simp: in_keys_def dom_update)

lemma stays_keys: "stays K (getsE (\<lambda>w. kv_keys w slot)) (in_keys K)" "stays K (getsE kv_luaKeys) (\<lambda>ks. set ks \<subseteq> K)"
  by (rule stays_gets, simp add: own_inv_def in_keys_def)+

lemma stays_setKey: "k \<in> K \<Longrightarrow> stays K (setKey slot k v) (\<lambda>_. True)"
  using in_keys_update [of K _ k v] by (auto simp: stays_def setKey_def own_inv_def pool_ok_def in_keys_def)

lemma stays_slot: "stays K (chooseSlotFromNormDist E) (\<lambda>_. True)"
  unfolding chooseSlotFromNormDist_def by (rule stays_bind, rule stays_choice) (auto intro: stays_return)

lemma stays_randomGetKey:
  assumes "order_law E" and "in_keys K m"
  shows "stays K (randomGetKey E m) (\<lambda>(k, v). k \<in> K)"
  unfolding randomGetKey_def Let_def
proof (rule stays_bind [OF stays_choice [where Q = "\<lambda>_. True"]])
  fix n
  have "stays K (bindE (ranged E m) (\<lambda>visited. if n mod length m < length visited
      then returnE (visited ! (n mod length m)) else throwE KvPanic)) (\<lambda>(k, v). k \<in> K)"
  proof (rule stays_bind [OF stays_ranged [OF assms(1)]])
    fix v assume "set v = set m"
    then have "n mod length m < length v \<Longrightarrow> v ! (n mod length m) \<in> set m" using nth_mem by metis
    then show "stays K (if n mod length m < length v then returnE (v ! (n mod length m)) else throwE KvPanic) (\<lambda>(k, v). k \<in> K)"
      using assms(2) by (auto simp: in_keys_def case_prod_unfold intro!: stays_return stays_throw simp del: returnE_run throwE_run)
  qed
  then show "stays K (if m = [] then throwE KvPanic else bindE (ranged E m) (\<lambda>visited.
      if n mod length m < length visited then returnE (visited ! (n mod length m)) else throwE KvPanic)) (\<lambda>(k, v). k \<in> K)"
    by (simp add: stays_throw del: throwE_run)
qed simp

lemma stays_chooseKeysLoop:
  assumes "order_law E"
  shows "in_keys K keys \<Longrightarrow> stays K (chooseKeysLoop E n keys) (in_keys K)"
proof (induction n arbitrary: keys)
  case (Suc n)
  show ?case
    unfolding chooseKeysLoop.simps
    by (rule stays_bind [OF stays_slot], rule stays_bind [OF stays_keys(1)], rule stays_bind [OF stays_randomGetKey [OF assms]])
      (auto intro: Suc.IH in_keys_update Suc.prems)
qed (simp add: stays_return del: returnE_run)

lemma stays_randomChooseKeys: "order_law E \<Longrightarrow> stays K (randomChooseKeys E n) (in_keys K)"
  unfolding randomChooseKeys_def by (auto simp: in_keys_def intro!: stays_return stays_chooseKeysLoop simp del: returnE_run)

lemma chooseSameSlotLoop_in: "in_keys K keys \<Longrightarrow> in_keys K rest \<Longrightarrow> in_keys K (chooseSameSlotLoop n keys rest)"
proof (induction n keys rest rule: chooseSameSlotLoop.induct)
  case (2 n keys k v rest)
  then have rest: "k \<in> K" "in_keys K rest" by (simp_all add: in_keys_def)
  have "in_keys K (AList.update k v keys)" by (rule in_keys_update [OF 2(2) rest(1)])
  with rest(2) show ?case using 2(1) by (simp add: Let_def)
qed simp

lemma stays_sameSlot:
  assumes "order_law E"
  shows "stays K (randomChooseKeysInSameSlot E n) (\<lambda>(slot, m). in_keys K m)"
proof -
  have "stays K (bindE (ranged E m) (\<lambda>visited. returnE (slot, chooseSameSlotLoop n [] visited))) (\<lambda>(slot, m). in_keys K m)"
    if "in_keys K m" for m slot
  proof (rule stays_bind [OF stays_ranged [OF assms]], rule stays_return)
    fix v assume "set v = set m"
    then have "in_keys K v" "in_keys K []" using that by (simp_all add: in_keys_def)
    then show "case (slot, chooseSameSlotLoop n [] v) of (slot, m) \<Rightarrow> in_keys K m" by (simp add: chooseSameSlotLoop_in)
  qed
  then show ?thesis
    unfolding randomChooseKeysInSameSlot_def
    by (cases "n = 0") (auto intro!: stays_return stays_bind [OF stays_slot] stays_bind [OF stays_keys(1)] simp: in_keys_def
        simp del: returnE_run)
qed

lemma stays_getKeys: "order_law E \<Longrightarrow> in_keys K m \<Longrightarrow> stays K (getKeys E m) (\<lambda>ks. set ks \<subseteq> K)"
  unfolding getKeys_def
  by (auto intro!: stays_return stays_bind [OF stays_ranged] simp: in_keys_def simp del: returnE_run)

lemma stays_genNewValue: "stays K (genNewValue E k) (\<lambda>_. True)"
  unfolding genNewValue_def by (rule stays_bind, rule stays_choice) (auto intro: stays_return)

lemma stays_newValues: "stays K (newValues E m) (\<lambda>new. map fst new = map fst m)"
proof (induction m)
  case (Cons kv m)
  obtain k v where "kv = (k, v)" by fastforce
  then show ?case
    by (auto intro!: stays_return stays_bind [OF stays_genNewValue] stays_bind [OF Cons] simp del: returnE_run)
qed (simp add: stays_return del: returnE_run)

lemma pair_keys_concat: "pair_keys (concat (map (\<lambda>(k, v). [k, v]) new)) = fst ` set new"
  by (induction new) (simp_all add: case_prod_unfold)

lemma foldl_update_in: "in_keys K m \<Longrightarrow> fst ` set new \<subseteq> K \<Longrightarrow> in_keys K (foldl (\<lambda>m (k, v). AList.update k v m) m new)"
proof (induction new arbitrary: m)
  case (Cons kv new)
  then have "in_keys K (AList.update (fst kv) (snd kv) m)" by (intro in_keys_update) simp_all
  with Cons show ?case by (simp add: case_prod_unfold)
qed simp

lemma stays_loops: "stays K (mgetLoop kvs address ks vs err) (\<lambda>_. True)" "stays K (luaMGetLoop v ks vs err) (\<lambda>_. True)"
proof -
  show "stays K (mgetLoop kvs address ks vs err) (\<lambda>_. True)"
    by (induction kvs address ks vs err rule: mgetLoop.induct)
      (auto simp: Let_def intro: stays_return stays_throw simp del: returnE_run throwE_run split: option.split)
  show "stays K (luaMGetLoop v ks vs err) (\<lambda>_. True)"
    by (induction v ks vs err rule: luaMGetLoop.induct)
      (auto simp: Let_def intro: stays_return stays_throw simp del: returnE_run throwE_run split: option.split)
qed

lemma stays_checkSet:
  assumes "order_law E"
  shows "stays K (checkSet E) (\<lambda>_. True)"
  unfolding checkSet_def
proof (rule stays_bind [OF stays_wait], rule stays_bind [OF stays_randomChooseKeys [OF assms]],
    rule stays_bind [OF stays_ranged [OF assms]], rule stays_foreach)
  fix kvs visited :: "string go_map" and x
  assume k: "in_keys K kvs" "set visited = set kvs" "x \<in> set visited"
  obtain k v where x: "x = (k, v)" by fastforce
  then have "k \<in> K" using k by (auto simp: in_keys_def)
  then show "stays K (case x of (k, _) \<Rightarrow> bindE (genNewValue E k) (\<lambda>v.
      bindE (onClient (\<lambda>net debug node. client_Set net debug node k v) E) (\<lambda>_. setKey (Slot k) k v))) (\<lambda>_. True)"
    by (auto simp: x intro!: stays_bind [OF stays_genNewValue] stays_bind [OF stays_onClient [OF _ client_is_Exec(2)]] stays_setKey)
qed

lemma stays_checkMSet:
  assumes "order_law E"
  shows "stays K (checkMSet E) (\<lambda>_. True)"
  unfolding checkMSet_def Let_def
proof (rule stays_bind [OF stays_wait], rule stays_bind [OF stays_sameSlot [OF assms]], clarify,
    rule stays_bind [OF stays_ranged [OF assms]], rule stays_bind [OF stays_newValues])
  fix slot :: nat and kvs visited new :: "string go_map"
  assume k: "in_keys K kvs" "set visited = set kvs" "map fst new = map fst visited"
  then have new: "fst ` set new \<subseteq> K" by (metis in_keys_def list.set_map)
  let ?kvs = "foldl (\<lambda>m (k, v). AList.update k v m) kvs new"
  have kvs: "in_keys K ?kvs" by (rule foldl_update_in [OF k(1) new])
  show "stays K (bindE (onClient (\<lambda>net debug node. client_MSet net debug node (concat (map (\<lambda>(k, v). [k, v]) new))) E)
      (\<lambda>_. bindE (ranged E ?kvs) (foreachE (\<lambda>(k, v). setKey slot k v)))) (\<lambda>_. True)"
  proof (rule stays_bind [where R = "\<lambda>_. True"])
    show "stays K (onClient (\<lambda>net debug node. client_MSet net debug node (concat (map (\<lambda>(k, v). [k, v]) new))) E) (\<lambda>_. True)"
      by (rule stays_onClient [OF _ client_is_Exec(4)]) (simp_all add: pair_keys_concat new)
  next
    fix u :: string
    show "stays K (bindE (ranged E ?kvs) (foreachE (\<lambda>(k, v). setKey slot k v))) (\<lambda>_. True)"
    proof (rule stays_bind [OF stays_ranged [OF assms]], rule stays_foreach)
    fix v x assume "set v = set ?kvs" "x \<in> set v"
    then have "fst x \<in> K" using kvs by (auto simp: in_keys_def)
    then show "stays K (case x of (k, v) \<Rightarrow> setKey slot k v) (\<lambda>_. True)" by (cases x) (simp add: stays_setKey)
    qed
  qed
qed

lemma stays_checkDel:
  assumes "order_law E"
  shows "stays K (checkDel E) (\<lambda>_. True)"
  unfolding checkDel_def
proof (rule stays_bind [OF stays_sameSlot [OF assms]], clarify)
  fix slot :: nat and kvs assume k: "in_keys K kvs"
  have "stays K (bindE (onClient (\<lambda>net debug node. client_Del net debug node ks) E)
      (\<lambda>_. foreachE (\<lambda>k. setKey slot k []) ks)) (\<lambda>_. True)" if "set ks \<subseteq> K" for ks
    by (rule stays_bind [OF stays_onClient [OF _ client_is_Exec(3)]])
      (use that in \<open>auto intro!: stays_foreach stays_setKey\<close>)
  then show "stays K (if length kvs = 0 then returnE () else bindE (waitN E 10) (\<lambda>_. bindE (getKeys E kvs) (\<lambda>keys.
      bindE (onClient (\<lambda>net debug node. client_Del net debug node keys) E) (\<lambda>_. foreachE (\<lambda>k. setKey slot k []) keys))))
      (\<lambda>_. True)"
    by (auto intro!: stays_return stays_bind [OF stays_wait] stays_bind [OF stays_getKeys [OF assms k]] simp del: returnE_run)
qed

lemma stays_checkLuaMSet: "stays K (checkLuaMSet E) (\<lambda>_. True)"
proof -
  have set: "stays K (modifyE (\<lambda>w. w\<lparr>kv_luaValue := val\<rparr>)) (\<lambda>_. True)" for val
    by (auto simp: stays_def own_inv_def pool_ok_def)
  have "stays K (bindE (onClient (\<lambda>net debug node. client_luaMSet net debug node ks vs) E)
      (\<lambda>_. modifyE (\<lambda>w. w\<lparr>kv_luaValue := val\<rparr>))) (\<lambda>_. True)" if "set ks \<subseteq> K" for ks vs val
    by (rule stays_bind [OF stays_onClient [OF _ client_is_Exec(5)]]) (use that set in auto)
  then show ?thesis
    unfolding checkLuaMSet_def Let_def
    by (auto intro!: stays_bind [OF stays_keys(2)] stays_bind [OF stays_wait] stays_bind [OF stays_choice [where Q = "\<lambda>_. True"]])
qed

lemma stays_reads:
  assumes "order_law E"
  shows "stays K (checkGet E) (\<lambda>_. True)" "stays K (checkMGet E) (\<lambda>_. True)" "stays K (checkLuaMGet E) (\<lambda>_. True)"
proof -
  have get: "stays K (onClient (\<lambda>net debug node. client_Get net debug node k) E) (\<lambda>_. True)" for k
    by (rule stays_onClient [OF _ client_is_Exec(1)]) simp_all
  have mget: "stays K (onClient (\<lambda>net debug node. client_MGet net debug node ks) E) (\<lambda>_. True)" for ks
    by (rule stays_onClient [OF _ client_is_Exec(6)]) simp_all
  have lua: "stays K (onClient (\<lambda>net debug node. client_LuaMGet net debug node ks) E) (\<lambda>_. True)" for ks
    by (rule stays_onClient [OF _ client_is_Exec(7)]) (simp_all add: lua_scripts_differ)
  show "stays K (checkGet E) (\<lambda>_. True)"
    unfolding checkGet_def Let_def
    by (intro stays_bind [OF stays_wait] stays_bind [OF stays_randomChooseKeys [OF assms]]
        stays_bind [OF stays_ranged [OF assms]] stays_foreach)
      (auto intro!: stays_bind [OF get] stays_return stays_throw simp del: returnE_run throwE_run)
  show "stays K (checkMGet E) (\<lambda>_. True)"
    unfolding checkMGet_def
    by (rule stays_bind [OF stays_sameSlot [OF assms]])
      (auto intro!: stays_return stays_throw stays_bind [OF stays_wait] stays_bind [OF stays_getKeys [OF assms]]
        stays_bind [OF mget] stays_loops simp del: returnE_run throwE_run)
  show "stays K (checkLuaMGet E) (\<lambda>_. True)"
    unfolding checkLuaMGet_def
    by (auto intro!: stays_bind [OF stays_keys(2)] stays_bind [OF stays_wait] stays_bind [OF lua]
        stays_bind [OF stays_gets [where Q = "\<lambda>_. True"]] stays_loops)
qed

lemma stays_checkKeyValue:
  assumes "order_law E"
  shows "stays K (checkKeyValue E) (\<lambda>_. True)"
  unfolding checkKeyValue_def Let_def
  by (rule stays_bind [OF stays_choice [where Q = "\<lambda>_. True"]])
    (auto intro: stays_checkSet stays_checkMSet stays_checkDel stays_checkLuaMSet stays_reads assms stays_return
      simp del: returnE_run)

subsection \<open>Keys carry the number of their checker\<close>

definition key_of :: "nat \<Rightarrow> string \<Rightarrow> bool" where
  "key_of i k \<longleftrightarrow> (\<exists>t x rest. k = ''test'' @ CHR '':'' # show_int t @ CHR '':'' # x @ CHR '':'' # rest \<and>
     (x = show_nat i \<or> x = ''lua'' \<and> (\<exists>rest'. rest = show_nat i @ CHR '':'' # rest')))"

lemma first_separator:
  assumes "xs @ (c :: char) # r = ys @ c # r'" and "c \<notin> set xs" and "c \<notin> set ys"
  shows "xs = ys \<and> r = r'"
proof -
  have "[xs, r] = splitN2 c (xs @ c # r)" by (rule splitN2_append [OF assms(2), symmetric])
  also have "\<dots> = [ys, r']" unfolding assms(1) by (rule splitN2_append [OF assms(3)])
  finally show ?thesis by simp
qed

lemma colon_not_in: "CHR '':'' \<notin> set (show_int t)"
  by (simp add: show_int_def)

lemma show_nat_not_lua: "show_nat i \<noteq> ''lua''"
  using show_int_hd [of "int i"] by (auto simp: show_int_def)

lemma key_of_unique:
  assumes "key_of i k" and "key_of j k"
  shows "i = j"
proof -
  obtain t x r where k: "k = ''test'' @ CHR '':'' # show_int t @ CHR '':'' # x @ CHR '':'' # r"
    and x: "x = show_nat i \<or> x = ''lua'' \<and> (\<exists>r'. r = show_nat i @ CHR '':'' # r')"
    using assms(1) unfolding key_of_def by blast
  obtain u y s where k': "k = ''test'' @ CHR '':'' # show_int u @ CHR '':'' # y @ CHR '':'' # s"
    and y: "y = show_nat j \<or> y = ''lua'' \<and> (\<exists>s'. s = show_nat j @ CHR '':'' # s')"
    using assms(2) unfolding key_of_def by blast
  have "show_int t @ CHR '':'' # x @ CHR '':'' # r = show_int u @ CHR '':'' # y @ CHR '':'' # s"
    using k k' by simp
  then have "x @ CHR '':'' # r = y @ CHR '':'' # s" using first_separator colon_not_in by metis
  moreover have "CHR '':'' \<notin> set x" "CHR '':'' \<notin> set y" using x y by auto
  ultimately have eq: "x = y" "r = s" using first_separator by metis+
  show ?thesis
  proof (cases "x = ''lua''")
    case True
    then obtain r' s' where "show_nat i @ CHR '':'' # r' = show_nat j @ CHR '':'' # s'"
      using x y eq show_nat_not_lua by metis
    then have "show_nat i = show_nat j" using first_separator sign_not_in_show_nat(4) by metis
    then show ?thesis by simp
  next
    case False
    then have "show_nat i = show_nat j" using x y eq by auto
    then show ?thesis by simp
  qed
qed

lemma genKey_of: "key_of i (genKey t (int i) s n tag)"
  unfolding key_of_def genKey_def
  by (rule exI [of _ t], rule exI [of _ "show_nat i"], rule exI [of _ "show_nat s @ '':{'' @ tag @ ''}:'' @ show_nat n"])
    (simp add: show_int_def)

lemma fillKeys_of:
  "(\<And>s. in_keys (Collect (key_of i)) (keys s)) \<Longrightarrow> in_keys (Collect (key_of i)) (fillKeys t (int i) st is keys s)"
proof (induction "is" arbitrary: keys)
  case (Cons n "is")
  show ?case
    unfolding fillKeys.simps Let_def
    by (rule Cons.IH) (use Cons.prems in \<open>auto intro: in_keys_update simp: genKey_of\<close>)
qed simp

lemma genLuaKeys_of:
  "genLuaKeys E t (int i) ns w = (Inr ks, w') \<Longrightarrow> set ks \<subseteq> Collect (key_of i)"
proof (induction ns arbitrary: w ks)
  case (Cons n ns)
  define k where "k = ''test:'' @ show_int t @ '':lua:'' @ show_int (int i) @ '':{tag}:'' @ show_nat n @ '':'' @
    show_nat (ke_second E (kv_tick w))"
  obtain ks' where ks: "genLuaKeys E t (int i) ns (w\<lparr>kv_tick := Suc (kv_tick w)\<rparr>) = (Inr ks', w')" "ks = k # ks'"
    using Cons.prems by (auto simp: bindE_def genLuaKey_def choice_def k_def split: prod.splits sum.splits)
  have "key_of i k"
    unfolding key_of_def k_def
    by (rule exI [of _ t], rule exI [of _ "''lua''"], rule exI [of _ "show_nat i @ '':{tag}:'' @ show_nat n @ '':'' @
        show_nat (ke_second E (kv_tick w))"]) (simp add: show_int_def)
  then show ?case using ks Cons.IH [OF ks(1)] by simp
qed simp

lemma new_checker_owns:
  assumes "newKVChecker E (int i) st w = (r, w0)" and "cl_trace w = []" and "pool_ok w"
  shows "own_inv (Collect (key_of i)) w0 \<and> own_keys w0 \<subseteq> Collect (key_of i)"
proof -
  let ?t = "ke_nano E (kv_tick w)"
  obtain ks u where ks: "genLuaKeys E ?t (int i) [0..<10] (w\<lparr>kv_tick := Suc (kv_tick w)\<rparr>) = (Inr ks, u)"
    using genLuaKeys_returns by blast
  have u: "u = w\<lparr>kv_tick := kv_tick u\<rparr>"
    using genLuaKeys_run [of E ?t "int i" "[0..<10]" "w\<lparr>kv_tick := Suc (kv_tick w)\<rparr>"] ks by auto
  have w0: "w0 = u\<lparr>kv_keys := fillKeys ?t (int i) st [0..<maxKeysNum] (\<lambda>_. []), kv_luaKeys := ks, kv_luaValue := []\<rparr>"
    using assms(1) ks by (simp add: newKVChecker_def bindE_def choice_def del: upt_rec_numeral)
  have keys: "in_keys (Collect (key_of i)) (kv_keys w0 s)" for s
    using fillKeys_of [of i "\<lambda>_. []"] by (simp add: w0 in_keys_def)
  have trace: "cl_trace w0 = []" "pool_ok w0"
    using assms(2,3) by (simp add: w0, subst u, simp) (simp add: w0 pool_ok_def, subst u, use assms(3) in \<open>simp add: pool_ok_def\<close>)
  have lua: "set (kv_luaKeys w0) \<subseteq> Collect (key_of i)" using genLuaKeys_of [OF ks] by (simp add: w0)
  have "dom (map_of (kv_keys w0 s)) \<subseteq> Collect (key_of i)" for s
    using keys [of s] by (simp add: in_keys_def dom_map_of_conv_image_fst)
  then have "own_keys w0 \<subseteq> Collect (key_of i)" using lua unfolding own_keys_def by blast
  moreover have "own_inv (Collect (key_of i)) w0"
    using keys trace lua by (simp add: own_inv_def in_keys_def)
  ultimately show ?thesis by blast
qed

subsection \<open>The service on one cluster\<close>

text \<open>The states a checker can reach, whatever the cluster answers, and what it may have sent so far.\<close>

inductive checker_run :: "kv_env \<Rightarrow> kv_state \<Rightarrow> kv_state \<Rightarrow> bool" for E w0 where
  created: "checker_run E w0 w0"
| round: "checker_run E w0 w \<Longrightarrow> loopRound E ended w = (r, w') \<Longrightarrow> checker_run E w0 w'"

definition sent_so_far :: "service_env \<Rightarrow> service_args \<Rightarrow> slotTags \<Rightarrow> nat \<Rightarrow> sent list \<Rightarrow> bool" where
  "sent_so_far SE args st j tr \<longleftrightarrow>
    (\<exists>w later. checker_run (se_kv SE j) (newChecker SE args st j) w \<and> cl_trace w = tr @ later)"

text \<open>
  One cluster answers all three: an answer depends on everything that was sent before, by the checker itself
  and, in between, by the other two.
\<close>

definition shared_cluster :: "service_env \<Rightarrow> service_args \<Rightarrow> slotTags \<Rightarrow> net \<Rightarrow> bool" where
  "shared_cluster SE args st cluster \<longleftrightarrow>
    (\<forall>i < checkerNum. \<forall>tr a c. \<exists>G. sent_by i G = tr \<and> fst ` set G \<subseteq> {..<checkerNum} \<and>
      (\<forall>j < checkerNum. j \<noteq> i \<longrightarrow> sent_so_far SE args st j (sent_by j G)) \<and>
      ke_net (se_kv SE i) tr a c = cluster (map snd G) a c)"

lemma loopRound_own: "order_law E \<Longrightarrow> own_inv K w \<Longrightarrow> loopRound E ended w = (r, w') \<Longrightarrow> own_inv K w'"
proof -
  assume law: "order_law E" and inv: "own_inv K w" and run: "loopRound E ended w = (r, w')"
  have inv': "own_inv K (w\<lparr>kv_tick := Suc (kv_tick w)\<rparr>)" using inv by (simp add: own_inv_def pool_ok_def)
  show ?thesis
  proof (cases ended)
    case False
    with run have "checkKeyValue E (w\<lparr>kv_tick := Suc (kv_tick w)\<rparr>) = (r, w')" by (simp add: loopRound_def Let_def)
    then show ?thesis using stays_checkKeyValue [OF law] inv' unfolding stays_def by blast
  qed (use run inv' in \<open>auto simp: loopRound_def Let_def\<close>)
qed

lemma newChecker_owns:
  "own_inv (Collect (key_of i)) (newChecker SE args st i) \<and> own_keys (newChecker SE args st i) \<subseteq> Collect (key_of i)"
  unfolding newChecker_def
  by (rule new_checker_owns [OF _ client_start]) (rule prod.collapse [symmetric])

lemma sent_own_keys:
  assumes "order_law (se_kv SE j)" and "sent_so_far SE args st j tr" and "e \<in> set tr"
  shows "writes e \<subseteq> Collect (key_of j)"
proof -
  obtain w later where run: "checker_run (se_kv SE j) (newChecker SE args st j) w" and tr: "cl_trace w = tr @ later"
    using assms(2) by (auto simp: sent_so_far_def)
  from run have "own_inv (Collect (key_of j)) w"
    by induction (use newChecker_owns loopRound_own [OF assms(1)] in blast)+
  then show ?thesis using tr assms(3) by (simp add: own_inv_def)
qed

lemma shared_cluster_honest:
  assumes "honest cluster UNIV" and "shared_cluster SE args st cluster"
    and "\<And>i. i < checkerNum \<Longrightarrow> order_law (se_kv SE i)"
  shows "honest_service SE args st"
  unfolding honest_service_def
proof (intro allI impI conjI)
  fix i assume i: "i < checkerNum"
  then show "order_law (se_kv SE i)" by (rule assms(3))
  let ?K = "own_keys (newChecker SE args st i)"
  show "honest (ke_net (se_kv SE i)) ?K"
  proof (rule honest_view [OF assms(1)])
    fix tr a c
    obtain G where G: "sent_by i G = tr" "fst ` set G \<subseteq> {..<checkerNum}"
      "\<And>j. j < checkerNum \<Longrightarrow> j \<noteq> i \<Longrightarrow> sent_so_far SE args st j (sent_by j G)"
      "ke_net (se_kv SE i) tr a c = cluster (map snd G) a c"
      using assms(2) i unfolding shared_cluster_def by metis
    have "writes e \<inter> ?K = {}" if e: "(j, e) \<in> set G" and other: "j \<noteq> i" for j e
    proof -
      have j: "j < checkerNum" using G(2) e by force
      have "e \<in> set (sent_by j G)" using e by (force simp: sent_by_def)
      with sent_own_keys [OF assms(3) [OF j] G(3) [OF j other]] have "writes e \<subseteq> Collect (key_of j)" .
      then show ?thesis using newChecker_owns [of i SE args st] key_of_unique other by blast
    qed
    then show "\<exists>G. sent_by i G = tr \<and> (\<forall>j e. (j, e) \<in> set G \<longrightarrow> j \<noteq> i \<longrightarrow> writes e \<inter> ?K = {}) \<and>
        ke_net (se_kv SE i) tr a c = cluster (map snd G) a c"
      using G by blast
  qed
qed

text \<open>
  C15: Three checkers that run side by side on one cluster, their commands in any order, never panic, and none of them
  returns an inconsistency, under every schedule, if the cluster answers every read with what the commands before it stored:
  the keys of a checker carry its number, so that none is written by another.
\<close>

theorem shared_cluster_no_false_alarm:
  assumes "serving SE args st s" and "honest cluster UNIV" and "shared_cluster SE args st cluster"
    and "\<And>i. i < checkerNum \<Longrightarrow> order_law (se_kv SE i)" and "tags_ok st"
  shows "sv_main s \<noteq> Crashed \<and> (\<forall>e. Ended e \<in> set (sv_checkers s) \<longrightarrow> \<not> false_alarm e)"
  by (rule service_no_false_alarm [OF assms(1) shared_cluster_honest [OF assms(2,3,4)] assms(5)])

subsection \<open>A sample\<close>

lemma sample_shared: "shared_cluster (sample_service M) args st store_net"
  unfolding shared_cluster_def
proof (intro allI impI)
  fix i a c and tr :: "sent list" assume "i < checkerNum"
  let ?G = "map (Pair i) tr"
  have G: "sent_by i ?G = tr" "\<And>j. j \<noteq> i \<Longrightarrow> sent_by j ?G = []"
    by (induction tr) (simp_all add: sent_by_def)
  moreover have "sent_so_far (sample_service M) args st j []" for j
    unfolding sent_so_far_def by (blast intro: checker_run.created append_Nil [symmetric])
  moreover have "map snd ?G = tr" by (simp add: comp_def)
  moreover have "ke_net (se_kv (sample_service M) i) = store_net"
    by (simp add: sample_service_def limited_env_def kv_sample_env_def)
  ultimately show "\<exists>G. sent_by i G = tr \<and> fst ` set G \<subseteq> {..<checkerNum} \<and>
      (\<forall>j < checkerNum. j \<noteq> i \<longrightarrow> sent_so_far (sample_service M) args st j (sent_by j G)) \<and>
      ke_net (se_kv (sample_service M) i) tr a c = store_net (map snd G) a c"
    using \<open>i < checkerNum\<close> by (intro exI [of _ ?G]) auto
qed

theorem shared_cluster_no_false_alarm_witness:
  "\<exists>st s. serving (sample_service sample_mon) sample_args st s \<and> sv_main s = Done \<and>
    Ended (LimiterErr ''limiter closed'') \<in> set (sv_checkers s) \<and> tags_ok st \<and>
    (\<forall>e. Ended e \<in> set (sv_checkers s) \<longrightarrow> \<not> false_alarm e)"
proof -
  obtain st where st: "tags_ok st"
    using newSlotTags_ok [of uuid_stream 0] uuid_stream_format uuid_stream_slot by blast
  have law: "order_law (se_kv (sample_service sample_mon) i)" for i
    by (simp add: sample_service_def limited_env_def kv_sample_env_def order_law_def)
  have run: "serving (sample_service sample_mon) sample_args st (sample_run st 10)"
    by (rule serving_run [OF sample_laws(3,1)])
  from shared_cluster_no_false_alarm [OF run store_net_honest sample_shared law st] run st sample_run_done [of st]
  show ?thesis
    by (intro exI [of _ st] exI [of _ "sample_run st 10"]) (simp add: sample_run_ended)
qed

end
