(* ===== verification/World.thy ===== *)
theory World
  imports Kube_Types
begin

section \<open>The outside world: calls, answers and the trace of both\<close>

text \<open>
  The operator acts only through calls to other systems: the Kubernetes API (package
  controller-runtime/client), the HTTP API of the undermoon brokers (package resty), the
  Redis protocol of the coordinators (package go-redis), the clock, the password generator,
  and the gzip and JSON codecs. None of that code is part of the repository, so it is a
  parameter: a record \<open>env\<close> of functions that answer each call. An answer may depend on
  everything that happened before, which the function sees as the trace of earlier calls,
  so a property proved for every \<open>env\<close> holds whatever the other systems do, other writers
  and failures at any point included.

  The state of a run is that trace and \<open>w_cr\<close>, the object the pointer \<open>cr\<close> (\<open>instance\<close>
  in Reconcile) points to: several functions change it in place. Every call appends one
  event that records the request and the answer, so safety properties are statements about
  the trace a run leaves behind. Logging is not modelled.
\<close>

subsection \<open>Errors\<close>

text \<open>
  The errors of the Kubernetes client, as far as the code tells them apart (package
  apimachinery/api/errors), and the sentinel errors of package controllers, which the code
  compares with \<open>==\<close>. \<open>ErrPanic\<close> stands for a run-time panic.
\<close>

datatype api_error = NotFound | AlreadyExists | Conflict | OtherApi string

datatype goerror =
    ErrRetryReconciliation
  | ErrExternalTimeout
  | ErrMigrationRunning
  | ErrFreeNodeFound
  | ErrProxyResourceOutOfOrder
  | ErrExternalStoreConflict
  | ErrApi api_error
  | ErrMsg string
  | ErrPanic

definition IsNotFound :: "goerror \<Rightarrow> bool" where
  "IsNotFound e \<longleftrightarrow> e = ErrApi NotFound"

definition IsAlreadyExists :: "goerror \<Rightarrow> bool" where
  "IsAlreadyExists e \<longleftrightarrow> e = ErrApi AlreadyExists"

definition IsConflict :: "goerror \<Rightarrow> bool" where
  "IsConflict e \<longleftrightarrow> e = ErrApi Conflict"

subsection \<open>Requests to a broker\<close>

datatype http_method = GET | PUT | POST | DELETE | PATCH

record serverProxyMeta =
  sp_ProxyAddress :: string
  sp_RedisAddresses :: "string \<times> string"
  sp_Host :: string
  sp_Index :: int

record clusterInfo =
  ci_Name :: string
  ci_NodeNumber :: int
  ci_NodeNumberWithSlots :: int
  ci_IsMigrating :: bool

text \<open>The JSON payloads, before encoding and after decoding.\<close>

datatype payload =
    NoBody
  | BrokerConfigPayload "string list"
  | QueryServerProxyResponse "string list"
  | ServerProxyPayload serverProxyMeta
  | CreateClusterPayload int
  | QueryClusterNamesPayload "string list"
  | ClusterInfoPayload clusterInfo
  | ClusterConfigPayload string string

record http_request =
  rq_method :: http_method
  rq_url :: string
  rq_body :: payload

text \<open>
  What resty gives back: the status code, the body as text, the value \<open>Result()\<close> decoded
  into, and the error string of the \<open>errorResponse\<close> that \<open>Error()\<close> decoded into
  (\<open>None\<close> where the type assertion on it would fail).
\<close>

record http_response =
  rs_status :: int
  rs_body :: string
  rs_result :: payload
  rs_error :: "string option"

subsection \<open>Events\<close>

datatype event =
    EvGetCR string string "api_error + undermoon"
  | EvGetConfigMap string string "api_error + configMap"
  | EvGetSecret string string "api_error + secret"
  | EvGetService string string "api_error + service"
  | EvGetStatefulSet string string "api_error + statefulSet"
  | EvGetEndpoints string string "api_error + endpoints"
  | EvCreateConfigMap configMap "api_error + configMap"
  | EvCreateSecret secret "api_error + secret"
  | EvCreateService service "api_error + service"
  | EvCreateStatefulSet statefulSet "api_error + statefulSet"
  | EvUpdateConfigMap configMap "api_error + configMap"
  | EvUpdateStatefulSet statefulSet "api_error + statefulSet"
  | EvPatchMaster undermoon string "api_error + undermoon"
  | EvUpdateStatus undermoon "api_error + undermoon"
  | EvHttp http_request "string + http_response"
  | EvRedisConfigSet string string "string option"
  | EvNow int
  | EvGenPassword "string + string"

type_synonym trace = "event list"

type_synonym json_object = "opaque go_map"

record env =
  env_get_cr :: "trace \<Rightarrow> string \<Rightarrow> string \<Rightarrow> api_error + undermoon"
  env_get_configmap :: "trace \<Rightarrow> string \<Rightarrow> string \<Rightarrow> api_error + configMap"
  env_get_secret :: "trace \<Rightarrow> string \<Rightarrow> string \<Rightarrow> api_error + secret"
  env_get_service :: "trace \<Rightarrow> string \<Rightarrow> string \<Rightarrow> api_error + service"
  env_get_statefulset :: "trace \<Rightarrow> string \<Rightarrow> string \<Rightarrow> api_error + statefulSet"
  env_get_endpoints :: "trace \<Rightarrow> string \<Rightarrow> string \<Rightarrow> api_error + endpoints"
  env_create_configmap :: "trace \<Rightarrow> configMap \<Rightarrow> api_error + configMap"
  env_create_secret :: "trace \<Rightarrow> secret \<Rightarrow> api_error + secret"
  env_create_service :: "trace \<Rightarrow> service \<Rightarrow> api_error + service"
  env_create_statefulset :: "trace \<Rightarrow> statefulSet \<Rightarrow> api_error + statefulSet"
  env_update_configmap :: "trace \<Rightarrow> configMap \<Rightarrow> api_error + configMap"
  env_update_statefulset :: "trace \<Rightarrow> statefulSet \<Rightarrow> api_error + statefulSet"
  env_patch_master :: "trace \<Rightarrow> undermoon \<Rightarrow> string \<Rightarrow> api_error + undermoon"
  env_update_status :: "trace \<Rightarrow> undermoon \<Rightarrow> api_error + undermoon"
  env_http :: "trace \<Rightarrow> http_request \<Rightarrow> string + http_response"
  env_redis_config_set :: "trace \<Rightarrow> string \<Rightarrow> string \<Rightarrow> string option"
  env_now :: "trace \<Rightarrow> int"
  env_gen_password :: "trace \<Rightarrow> string + string"
  env_set_controller_reference :: "undermoon \<Rightarrow> objectMeta \<Rightarrow> string + objectMeta"
  env_quantity_equal :: "quantity \<Rightarrow> quantity \<Rightarrow> bool"
  env_gzip :: "string \<Rightarrow> string + string"
  env_gunzip :: "string \<Rightarrow> string + string"
  env_json_marshal :: "json_object \<Rightarrow> string + string"
  env_json_unmarshal :: "string \<Rightarrow> string + json_object"
  env_operator_namespace :: string

record world =
  w_trace :: trace
  w_cr :: undermoon

type_synonym 'a op = "(world, goerror, 'a) io"

subsection \<open>One call\<close>

definition call :: "(trace \<Rightarrow> 'r) \<Rightarrow> ('r \<Rightarrow> event) \<Rightarrow> ('r \<Rightarrow> goerror + 'a) \<Rightarrow> 'a op" where
  "call answer ev res s =
    (let r = answer (w_trace s) in (res r, s\<lparr>w_trace := w_trace s @ [ev r]\<rparr>))"

definition of_api :: "api_error + 'a \<Rightarrow> goerror + 'a" where
  "of_api r = map_sum ErrApi id r"

definition of_text :: "string + 'a \<Rightarrow> goerror + 'a" where
  "of_text r = map_sum ErrMsg id r"

definition k8s_get_cr :: "env \<Rightarrow> string \<Rightarrow> string \<Rightarrow> undermoon op" where
  "k8s_get_cr \<E> name ns = call (\<lambda>tr. env_get_cr \<E> tr name ns) (EvGetCR name ns) of_api"

definition k8s_get_configmap :: "env \<Rightarrow> string \<Rightarrow> string \<Rightarrow> configMap op" where
  "k8s_get_configmap \<E> name ns =
    call (\<lambda>tr. env_get_configmap \<E> tr name ns) (EvGetConfigMap name ns) of_api"

definition k8s_get_secret :: "env \<Rightarrow> string \<Rightarrow> string \<Rightarrow> secret op" where
  "k8s_get_secret \<E> name ns =
    call (\<lambda>tr. env_get_secret \<E> tr name ns) (EvGetSecret name ns) of_api"

definition k8s_get_service :: "env \<Rightarrow> string \<Rightarrow> string \<Rightarrow> service op" where
  "k8s_get_service \<E> name ns =
    call (\<lambda>tr. env_get_service \<E> tr name ns) (EvGetService name ns) of_api"

definition k8s_get_statefulset :: "env \<Rightarrow> string \<Rightarrow> string \<Rightarrow> statefulSet op" where
  "k8s_get_statefulset \<E> name ns =
    call (\<lambda>tr. env_get_statefulset \<E> tr name ns) (EvGetStatefulSet name ns) of_api"

definition k8s_get_endpoints :: "env \<Rightarrow> string \<Rightarrow> string \<Rightarrow> endpoints op" where
  "k8s_get_endpoints \<E> name ns =
    call (\<lambda>tr. env_get_endpoints \<E> tr name ns) (EvGetEndpoints name ns) of_api"

definition k8s_create_configmap :: "env \<Rightarrow> configMap \<Rightarrow> configMap op" where
  "k8s_create_configmap \<E> o1 =
    call (\<lambda>tr. env_create_configmap \<E> tr o1) (EvCreateConfigMap o1) of_api"

definition k8s_create_secret :: "env \<Rightarrow> secret \<Rightarrow> secret op" where
  "k8s_create_secret \<E> o1 =
    call (\<lambda>tr. env_create_secret \<E> tr o1) (EvCreateSecret o1) of_api"

definition k8s_create_service :: "env \<Rightarrow> service \<Rightarrow> service op" where
  "k8s_create_service \<E> o1 =
    call (\<lambda>tr. env_create_service \<E> tr o1) (EvCreateService o1) of_api"

definition k8s_create_statefulset :: "env \<Rightarrow> statefulSet \<Rightarrow> statefulSet op" where
  "k8s_create_statefulset \<E> o1 =
    call (\<lambda>tr. env_create_statefulset \<E> tr o1) (EvCreateStatefulSet o1) of_api"

definition k8s_update_configmap :: "env \<Rightarrow> configMap \<Rightarrow> configMap op" where
  "k8s_update_configmap \<E> o1 =
    call (\<lambda>tr. env_update_configmap \<E> tr o1) (EvUpdateConfigMap o1) of_api"

definition k8s_update_statefulset :: "env \<Rightarrow> statefulSet \<Rightarrow> statefulSet op" where
  "k8s_update_statefulset \<E> o1 =
    call (\<lambda>tr. env_update_statefulset \<E> tr o1) (EvUpdateStatefulSet o1) of_api"

definition k8s_patch_master :: "env \<Rightarrow> undermoon \<Rightarrow> string \<Rightarrow> undermoon op" where
  "k8s_patch_master \<E> cr addr =
    call (\<lambda>tr. env_patch_master \<E> tr cr addr) (EvPatchMaster cr addr) of_api"

definition k8s_update_status :: "env \<Rightarrow> undermoon \<Rightarrow> undermoon op" where
  "k8s_update_status \<E> cr =
    call (\<lambda>tr. env_update_status \<E> tr cr) (EvUpdateStatus cr) of_api"

definition http_call :: "env \<Rightarrow> http_request \<Rightarrow> http_response op" where
  "http_call \<E> rq = call (\<lambda>tr. env_http \<E> tr rq) (EvHttp rq) of_text"

definition redis_config_set :: "env \<Rightarrow> string \<Rightarrow> string \<Rightarrow> unit op" where
  "redis_config_set \<E> coordAddress brokerAddress =
    call (\<lambda>tr. env_redis_config_set \<E> tr coordAddress brokerAddress)
      (EvRedisConfigSet coordAddress brokerAddress)
      (\<lambda>r. case r of None \<Rightarrow> Inr () | Some e \<Rightarrow> Inl (ErrMsg e))"

definition time_now :: "env \<Rightarrow> int op" where
  "time_now \<E> = call (env_now \<E>) EvNow Inr"

definition gen_password :: "env \<Rightarrow> string op" where
  "gen_password \<E> = call (env_gen_password \<E>) EvGenPassword of_text"

definition get_cr :: "undermoon op" where
  "get_cr = getsE w_cr"

definition put_cr :: "undermoon \<Rightarrow> unit op" where
  "put_cr cr = modifyE (\<lambda>s. s\<lparr>w_cr := cr\<rparr>)"

subsection \<open>Reasoning about runs\<close>

text \<open>
  \<open>emits P m\<close>: whatever the state, \<open>m\<close> only appends events that satisfy \<open>P\<close> to the trace.
  The rules follow the combinators, so the fact is proved for a handler from the facts about
  the calls it makes; the collection \<open>emits_intros\<close> holds them.
\<close>

named_theorems emits_intros "rules that bound the events an operation emits"

definition emits :: "(event \<Rightarrow> bool) \<Rightarrow> 'a op \<Rightarrow> bool" where
  "emits P m \<longleftrightarrow>
    (\<forall>s. \<exists>new. w_trace (snd (m s)) = w_trace s @ new \<and> (\<forall>e \<in> set new. P e))"

lemma emitsE:
  assumes "emits P m" and "m s = (r, t)"
  obtains new where "w_trace t = w_trace s @ new" and "\<forall>e \<in> set new. P e"
  using assms unfolding emits_def by (metis snd_conv)

lemma emitsI:
  "(\<And>s. \<exists>new. w_trace (snd (m s)) = w_trace s @ new \<and> (\<forall>e \<in> set new. P e)) \<Longrightarrow> emits P m"
  by (simp add: emits_def)

lemma emits_pure: "(\<And>s. w_trace (snd (m s)) = w_trace s) \<Longrightarrow> emits P m"
  by (rule emitsI) simp

lemma emits_returnE [emits_intros]: "emits P (returnE x)"
  by (rule emits_pure) simp

lemma emits_throwE [emits_intros]: "emits P (throwE e)"
  by (rule emits_pure) simp

lemma emits_liftE [emits_intros]: "emits P (liftE r)"
  by (rule emits_pure) simp

lemma emits_get_cr [emits_intros]: "emits P get_cr"
  by (rule emits_pure) (simp add: get_cr_def)

lemma emits_put_cr [emits_intros]: "emits P (put_cr cr)"
  by (rule emits_pure) (simp add: put_cr_def)

lemma emits_tryE [emits_intros]:
  assumes m: "emits P m" and f: "\<And>r. emits P (f r)"
  shows "emits P (tryE m f)"
proof (rule emitsI)
  fix s
  obtain r t where mr: "m s = (r, t)" by (cases "m s")
  obtain r' u where fr: "f r t = (r', u)" by (cases "f r t")
  obtain n1 where n1: "w_trace t = w_trace s @ n1" "\<forall>e \<in> set n1. P e"
    using emitsE [OF m mr] .
  obtain n2 where n2: "w_trace u = w_trace t @ n2" "\<forall>e \<in> set n2. P e"
    using emitsE [OF f fr] .
  have "snd (tryE m f s) = u" by (simp add: tryE_def mr fr)
  then show "\<exists>new. w_trace (snd (tryE m f s)) = w_trace s @ new \<and> (\<forall>e \<in> set new. P e)"
    using n1 n2 by (intro exI [of _ "n1 @ n2"]) auto
qed

lemma bindE_tryE: "bindE m f = tryE m (\<lambda>r. case r of Inl e \<Rightarrow> throwE e | Inr x \<Rightarrow> f x)"
  by (rule ext) (simp add: bindE_def tryE_def split: prod.splits sum.splits)

lemma emits_sum_case [emits_intros]:
  "(\<And>e. r = Inl e \<Longrightarrow> emits P (f e)) \<Longrightarrow> (\<And>x. r = Inr x \<Longrightarrow> emits P (g x)) \<Longrightarrow>
    emits P (case r of Inl e \<Rightarrow> f e | Inr x \<Rightarrow> g x)"
  by (cases r) auto

lemma emits_option_case [emits_intros]:
  "(r = None \<Longrightarrow> emits P f) \<Longrightarrow> (\<And>x. r = Some x \<Longrightarrow> emits P (g x)) \<Longrightarrow>
    emits P (case r of None \<Rightarrow> f | Some x \<Rightarrow> g x)"
  by (cases r) auto

lemma emits_prod_case [emits_intros]:
  "(\<And>x y. r = (x, y) \<Longrightarrow> emits P (f x y)) \<Longrightarrow> emits P (case r of (x, y) \<Rightarrow> f x y)"
  by (cases r) auto

lemma emits_if [emits_intros]:
  "(b \<Longrightarrow> emits P m) \<Longrightarrow> (\<not> b \<Longrightarrow> emits P n) \<Longrightarrow> emits P (if b then m else n)"
  by auto

lemma emits_Let [emits_intros]: "(\<And>y. y = x \<Longrightarrow> emits P (f y)) \<Longrightarrow> emits P (let y = x in f y)"
  by (simp add: Let_def)

lemma emits_bindE [emits_intros]:
  "emits P m \<Longrightarrow> (\<And>x. emits P (f x)) \<Longrightarrow> emits P (bindE m f)"
  unfolding bindE_tryE by (intro emits_tryE emits_sum_case emits_throwE)

lemma emits_foreachE [emits_intros]:
  "(\<And>x. x \<in> set xs \<Longrightarrow> emits P (f x)) \<Longrightarrow> emits P (foreachE f xs)"
  by (induction xs) (auto intro!: emits_intros)

lemma emits_weaken: "emits P m \<Longrightarrow> (\<And>e. P e \<Longrightarrow> Q e) \<Longrightarrow> emits Q m"
  unfolding emits_def by meson

lemma emits_call: "(\<And>r. P (ev r)) \<Longrightarrow> emits P (call answer ev res)"
  by (rule emitsI) (auto simp: call_def Let_def)

lemmas call_defs = k8s_get_cr_def k8s_get_configmap_def k8s_get_secret_def k8s_get_service_def
  k8s_get_statefulset_def k8s_get_endpoints_def k8s_create_configmap_def k8s_create_secret_def
  k8s_create_service_def k8s_create_statefulset_def k8s_update_configmap_def
  k8s_update_statefulset_def k8s_patch_master_def k8s_update_status_def http_call_def
  redis_config_set_def time_now_def gen_password_def

lemma emits_calls [emits_intros]:
  "(\<And>r. P (EvGetCR name ns r)) \<Longrightarrow> emits P (k8s_get_cr \<E> name ns)"
  "(\<And>r. P (EvGetConfigMap name ns r)) \<Longrightarrow> emits P (k8s_get_configmap \<E> name ns)"
  "(\<And>r. P (EvGetSecret name ns r)) \<Longrightarrow> emits P (k8s_get_secret \<E> name ns)"
  "(\<And>r. P (EvGetService name ns r)) \<Longrightarrow> emits P (k8s_get_service \<E> name ns)"
  "(\<And>r. P (EvGetStatefulSet name ns r)) \<Longrightarrow> emits P (k8s_get_statefulset \<E> name ns)"
  "(\<And>r. P (EvGetEndpoints name ns r)) \<Longrightarrow> emits P (k8s_get_endpoints \<E> name ns)"
  "(\<And>r. P (EvCreateConfigMap cm r)) \<Longrightarrow> emits P (k8s_create_configmap \<E> cm)"
  "(\<And>r. P (EvCreateSecret sc r)) \<Longrightarrow> emits P (k8s_create_secret \<E> sc)"
  "(\<And>r. P (EvCreateService sv r)) \<Longrightarrow> emits P (k8s_create_service \<E> sv)"
  "(\<And>r. P (EvCreateStatefulSet ss r)) \<Longrightarrow> emits P (k8s_create_statefulset \<E> ss)"
  "(\<And>r. P (EvUpdateConfigMap cm r)) \<Longrightarrow> emits P (k8s_update_configmap \<E> cm)"
  "(\<And>r. P (EvUpdateStatefulSet ss r)) \<Longrightarrow> emits P (k8s_update_statefulset \<E> ss)"
  "(\<And>r. P (EvPatchMaster cr addr r)) \<Longrightarrow> emits P (k8s_patch_master \<E> cr addr)"
  "(\<And>r. P (EvUpdateStatus cr r)) \<Longrightarrow> emits P (k8s_update_status \<E> cr)"
  "(\<And>r. P (EvHttp rq r)) \<Longrightarrow> emits P (http_call \<E> rq)"
  "(\<And>r. P (EvRedisConfigSet a b r)) \<Longrightarrow> emits P (redis_config_set \<E> a b)"
  "(\<And>r. P (EvNow r)) \<Longrightarrow> emits P (time_now \<E>)"
  "(\<And>r. P (EvGenPassword r)) \<Longrightarrow> emits P (gen_password \<E>)"
  by (simp_all add: call_defs emits_call)

text \<open>
  \<open>guarded act Ev tr\<close>: whenever an event of the trace satisfies \<open>act\<close>, the trace before it
  satisfies \<open>Ev\<close>. The evidence \<open>Ev\<close> is \<open>lasting\<close> when later events cannot take it away.
\<close>

definition guarded :: "(event \<Rightarrow> bool) \<Rightarrow> (trace \<Rightarrow> bool) \<Rightarrow> trace \<Rightarrow> bool" where
  "guarded act Ev tr \<longleftrightarrow> (\<forall>i < length tr. act (tr ! i) \<longrightarrow> Ev (take i tr))"

definition lasting :: "(trace \<Rightarrow> bool) \<Rightarrow> bool" where
  "lasting Ev \<longleftrightarrow> (\<forall>tr new. Ev tr \<longrightarrow> Ev (tr @ new))"

lemma lastingI: "(\<And>tr new. Ev tr \<Longrightarrow> Ev (tr @ new)) \<Longrightarrow> lasting Ev"
  by (simp add: lasting_def)

lemma guarded_Nil [simp]: "guarded act Ev []"
  by (simp add: guarded_def)

lemma guarded_append_idle:
  assumes "guarded act Ev tr" and "\<forall>e \<in> set new. \<not> act e"
  shows "guarded act Ev (tr @ new)"
  using assms by (auto simp: guarded_def nth_append)

lemma guarded_append_evidence:
  assumes "guarded act Ev tr" and "Ev tr" and "lasting Ev"
  shows "guarded act Ev (tr @ new)"
  unfolding guarded_def
proof (intro allI impI)
  fix i assume i: "i < length (tr @ new)" and a: "act ((tr @ new) ! i)"
  show "Ev (take i (tr @ new))"
    using assms a by (cases "i < length tr") (auto simp: guarded_def lasting_def nth_append)
qed

text \<open>
  Hoare triples over the calculus: from a world that satisfies \<open>P\<close>, the result and the final
  world satisfy \<open>Q\<close>. Together with \<open>emits\<close> they carry the properties of the long handlers.
\<close>

definition triple :: "(world \<Rightarrow> bool) \<Rightarrow> 'a op \<Rightarrow> (goerror + 'a \<Rightarrow> world \<Rightarrow> bool) \<Rightarrow> bool" where
  "triple P m Q \<longleftrightarrow> (\<forall>s. P s \<longrightarrow> Q (fst (m s)) (snd (m s)))"

lemma tripleD: "triple P m Q \<Longrightarrow> P s \<Longrightarrow> m s = (r, t) \<Longrightarrow> Q r t"
  unfolding triple_def by (metis fst_conv snd_conv)

lemma tripleI: "(\<And>s r t. P s \<Longrightarrow> m s = (r, t) \<Longrightarrow> Q r t) \<Longrightarrow> triple P m Q"
  by (simp add: triple_def)

lemma triple_conseq:
  "triple P' m Q' \<Longrightarrow> (\<And>s. P s \<Longrightarrow> P' s) \<Longrightarrow> (\<And>r s. Q' r s \<Longrightarrow> Q r s) \<Longrightarrow> triple P m Q"
  unfolding triple_def by blast

lemma triple_conj:
  "triple P m Q \<Longrightarrow> triple P' m Q' \<Longrightarrow> triple (\<lambda>s. P s \<and> P' s) m (\<lambda>r s. Q r s \<and> Q' r s)"
  unfolding triple_def by blast

lemma triple_tryE:
  "triple P m R \<Longrightarrow> (\<And>r. triple (R r) (f r) Q) \<Longrightarrow> triple P (tryE m f) Q"
  by (rule tripleI) (auto simp: tryE_eq dest: tripleD)

lemma triple_bindE:
  assumes m: "triple P m R" and e: "\<And>e s. R (Inl e) s \<Longrightarrow> Q (Inl e) s"
    and f: "\<And>x. triple (R (Inr x)) (f x) Q"
  shows "triple P (bindE m f) Q"
proof (rule tripleI)
  fix s r t assume P: "P s" and run: "bindE m f s = (r, t)"
  obtain q u where mq: "m s = (q, u)" by (cases "m s")
  have R: "R q u" using tripleD [OF m P mq] .
  show "Q r t"
    using run mq R e tripleD [OF f] by (cases q) (auto simp: bindE_def)
qed

lemma triple_returnE: "(\<And>s. P s \<Longrightarrow> Q (Inr x) s) \<Longrightarrow> triple P (returnE x) Q"
  by (simp add: triple_def)

lemma triple_throwE: "(\<And>s. P s \<Longrightarrow> Q (Inl e) s) \<Longrightarrow> triple P (throwE e) Q"
  by (simp add: triple_def)

text \<open>An invariant of the trace, kept by an operation whatever it returns.\<close>

definition keeps :: "(trace \<Rightarrow> bool) \<Rightarrow> 'a op \<Rightarrow> bool" where
  "keeps I m \<longleftrightarrow> triple (\<lambda>w. I (w_trace w)) m (\<lambda>_ w. I (w_trace w))"

named_theorems keeps_intros "rules for invariants of the trace"

lemma keeps_guarded_idle: "emits (\<lambda>e. \<not> act e) m \<Longrightarrow> keeps (guarded act Ev) m"
  unfolding keeps_def triple_def emits_def by (metis guarded_append_idle)

lemma keeps_lasting: "lasting Ev \<Longrightarrow> emits (\<lambda>_. True) m \<Longrightarrow> keeps Ev m"
  unfolding keeps_def triple_def emits_def lasting_def by metis

lemma keeps_bindE [keeps_intros]:
  "keeps I m \<Longrightarrow> (\<And>x. keeps I (f x)) \<Longrightarrow> keeps I (bindE m f)"
  unfolding keeps_def by (rule triple_bindE [where R = "\<lambda>_ w. I (w_trace w)"])

lemma keeps_tryE [keeps_intros]:
  "keeps I m \<Longrightarrow> (\<And>r. keeps I (f r)) \<Longrightarrow> keeps I (tryE m f)"
  unfolding keeps_def by (rule triple_tryE)

lemma keeps_returnE [keeps_intros]: "keeps I (returnE x)"
  unfolding keeps_def by (rule triple_returnE)

lemma keeps_throwE [keeps_intros]: "keeps I (throwE e)"
  unfolding keeps_def by (rule triple_throwE)

lemma keeps_if [keeps_intros]:
  "(b \<Longrightarrow> keeps I m) \<Longrightarrow> (\<not> b \<Longrightarrow> keeps I n) \<Longrightarrow> keeps I (if b then m else n)"
  by auto

lemma keeps_sum_case [keeps_intros]:
  "(\<And>e. keeps I (f e)) \<Longrightarrow> (\<And>x. keeps I (g x)) \<Longrightarrow>
    keeps I (case r of Inl e \<Rightarrow> f e | Inr x \<Rightarrow> g x)"
  by (cases r) auto

lemma keeps_prod_case [keeps_intros]:
  "(\<And>x y. r = (x, y) \<Longrightarrow> keeps I (f x y)) \<Longrightarrow> keeps I (case r of (x, y) \<Rightarrow> f x y)"
  by (cases r) auto

text \<open>
  Evidence gained on the way: if \<open>m\<close> establishes the evidence whenever it succeeds with a value
  that satisfies \<open>ok\<close>, what follows such a success may act.
\<close>

lemma keeps_bindE_evidence:
  assumes "emits (\<lambda>e. \<not> act e) m" and "lasting Ev"
    and "\<And>s x t. m s = (Inr x, t) \<Longrightarrow> ok x \<Longrightarrow> Ev (w_trace t)"
    and "\<And>x. \<not> ok x \<Longrightarrow> keeps (guarded act Ev) (f x)"
    and "\<And>x. emits (\<lambda>_. True) (f x)"
  shows "keeps (guarded act Ev) (bindE m f)"
  unfolding keeps_def
proof (rule tripleI)
  fix s r t assume g: "guarded act Ev (w_trace s)" and run: "bindE m f s = (r, t)"
  obtain q u where mq: "m s = (q, u)" by (cases "m s")
  have gu: "guarded act Ev (w_trace u)"
    using tripleD [OF keeps_guarded_idle [OF assms(1), unfolded keeps_def] g mq] .
  show "guarded act Ev (w_trace t)"
  proof (cases q)
    case (Inl e)
    then show ?thesis using run mq gu by (auto simp: bindE_def)
  next
    case (Inr x)
    then have fx: "f x u = (r, t)" using run mq by (simp add: bindE_def)
    show ?thesis
    proof (cases "ok x")
      case True
      obtain new where "w_trace t = w_trace u @ new" using emitsE [OF assms(5) fx] .
      then show ?thesis
        using guarded_append_evidence [OF gu _ assms(2)] assms(3) True mq Inr by auto
    next
      case False
      then show ?thesis using tripleD [OF assms(4) [OF False, unfolded keeps_def] gu fx] by simp
    qed
  qed
qed

text \<open>The events a run added to the trace.\<close>

definition new_events :: "world \<Rightarrow> world \<Rightarrow> event list" where
  "new_events s t = drop (length (w_trace s)) (w_trace t)"

lemma new_events_append [simp]: "w_trace t = w_trace s @ new \<Longrightarrow> new_events s t = new"
  by (simp add: new_events_def)

lemma emits_new_events:
  "emits P m \<Longrightarrow> m s = (r, t) \<Longrightarrow> e \<in> set (new_events s t) \<Longrightarrow> P e"
  by (metis emitsE new_events_append)

lemma emits_trace_mono:
  assumes "emits P m" and "m s = (r, t)"
  shows "w_trace t = w_trace s @ new_events s t"
  using emitsE [OF assms] by (metis new_events_append)

lemma new_events_trans:
  "w_trace u = w_trace s @ new_events s u \<Longrightarrow> w_trace t = w_trace u @ new_events u t \<Longrightarrow>
    new_events s t = new_events s u @ new_events u t"
  by (metis append.assoc new_events_append)

end
