(* ===== verification/Sample_Env.thy ===== *)
theory Sample_Env
  imports World
begin

section \<open>A concrete environment\<close>

text \<open>
  An API server without other writers that accepts every write and numbers the stored objects,
  brokers that answer every request with status 200, a clock that stands still, and codecs that
  copy their input; and a small custom resource. The theorems with hypotheses about the
  environment are applied to it, or to it with some answers replaced.
\<close>

definition no_resources :: resourceRequirements where
  "no_resources = \<lparr>rr_Limits = [], rr_Requests = []\<rparr>"

definition sample_spec :: undermoonSpec where
  "sample_spec = \<lparr>um_ClusterName = ''mycluster'', um_ChunkNumber = 2, um_MaxMemory = 32, um_Port = 5299,
     um_ActiveRedirection = True, um_ProxyThreads = 2, um_MigrationScanInterval = 0,
     um_MigrationScanCount = 0, um_MigrationLimit = 0, um_DisableFailover = False,
     um_UndermoonImage = ''undermoon'', um_UndermoonImagePullPolicy = ''IfNotPresent'',
     um_RedisImage = ''redis'', um_BrokerEnvVar = [], um_CoordinatorEnvVar = [],
     um_ProxyEnvVar = [], um_RedisEnvVar = [], um_BrokerResources = no_resources,
     um_CoordinatorResources = no_resources, um_ProxyResources = no_resources,
     um_RedisResources = no_resources, um_Affinity = None, um_NodeSelector = [],
     um_ImagePullSecrets = [], um_SchedulerName = [], um_Tolerations = [], um_StorageVolumes = [],
     um_RedisVolumeMounts = [], um_RedisVolumeDevices = [], um_VolumeClaimTemplates = []\<rparr>"

definition sample_cr :: undermoon where
  "sample_cr = \<lparr>um_Meta = new_meta ''um'' ''default'' [], um_Spec = sample_spec,
     um_Status = \<lparr>us_MasterBrokerAddress = [], us_ScaleState = ''Stable'',
       us_ScaleDownWaitTimestamp = 0\<rparr>\<rparr>"

definition with_version :: "objectMeta \<Rightarrow> objectMeta" where
  "with_version m = m\<lparr>om_ResourceVersion := ''1''\<rparr>"

definition ok_response :: "payload \<Rightarrow> http_response" where
  "ok_response p = \<lparr>rs_status = 200, rs_body = [], rs_result = p, rs_error = None\<rparr>"

definition sample_env :: env where
  "sample_env = \<lparr>
     env_get_cr = (\<lambda>tr name ns. Inr sample_cr),
     env_get_configmap = (\<lambda>tr name ns. Inl NotFound),
     env_get_secret = (\<lambda>tr name ns. Inl NotFound),
     env_get_service = (\<lambda>tr name ns. Inl NotFound),
     env_get_statefulset = (\<lambda>tr name ns. Inl NotFound),
     env_get_endpoints = (\<lambda>tr name ns. Inr []),
     env_create_configmap = (\<lambda>tr x. Inr (x\<lparr>cm_Meta := with_version (cm_Meta x)\<rparr>)),
     env_create_secret = (\<lambda>tr x. Inr (x\<lparr>sc_Meta := with_version (sc_Meta x)\<rparr>)),
     env_create_service = (\<lambda>tr x. Inr (x\<lparr>sv_Meta := with_version (sv_Meta x)\<rparr>)),
     env_create_statefulset = (\<lambda>tr x. Inr (x\<lparr>ss_Meta := with_version (ss_Meta x)\<rparr>)),
     env_update_configmap = (\<lambda>tr x. Inr x),
     env_update_statefulset = (\<lambda>tr x. Inr x),
     env_patch_master = (\<lambda>tr cr addr. Inr (cr\<lparr>um_Status := (um_Status cr)\<lparr>us_MasterBrokerAddress := addr\<rparr>\<rparr>)),
     env_update_status = (\<lambda>tr cr. Inr cr),
     env_http = (\<lambda>tr rq. Inr (ok_response NoBody)),
     env_redis_config_set = (\<lambda>tr a b. None),
     env_now = (\<lambda>tr. 0),
     env_gen_password = (\<lambda>tr. Inr ''secret''),
     env_set_controller_reference = (\<lambda>cr m. Inr m),
     env_quantity_equal = (=),
     env_gzip = (\<lambda>s. Inr s),
     env_gunzip = (\<lambda>s. Inr s),
     env_json_marshal = (\<lambda>v. Inr ''{}''),
     env_json_unmarshal = (\<lambda>s. Inr []),
     env_operator_namespace = ''operators''\<rparr>"

definition sample_world :: world where
  "sample_world = \<lparr>w_trace = [], w_cr = sample_cr\<rparr>"

lemmas sample_defs = sample_env_def sample_world_def sample_cr_def sample_spec_def no_resources_def
  with_version_def ok_response_def

end
