(* ===== verification/Base64.thy ===== *)
theory Base64
  imports Prelude
begin

section \<open>Standard base64 (package encoding/base64)\<close>

text \<open>
  \<open>base64.StdEncoding\<close>, which the metadata store and the basic authentication of the meta
  server use: three bytes become four symbols, the end is padded with \<open>=\<close>, and the decoder
  skips carriage returns and line feeds. Decoding fails (\<open>None\<close>) on any other input.
\<close>

definition b64_alphabet :: string where
  "b64_alphabet = ''ABCDEFGHIJKLMNOPQRSTUVWXYZabcdefghijklmnopqrstuvwxyz0123456789+/''"

definition b64_sym :: "nat \<Rightarrow> char" where
  "b64_sym n = b64_alphabet ! n"

definition b64_val :: "char \<Rightarrow> nat option" where
  "b64_val c = (let i = index_byte c b64_alphabet in if i < 0 then None else Some (nat i))"

definition byte_nat :: "char \<Rightarrow> nat" where
  "byte_nat c = of_char c"

fun b64_encode :: "string \<Rightarrow> string" where
  "b64_encode [] = []"
| "b64_encode [a] =
    (let x = byte_nat a in
     [b64_sym (x div 4), b64_sym (x mod 4 * 16), CHR ''='', CHR ''=''])"
| "b64_encode [a, b] =
    (let x = byte_nat a; y = byte_nat b in
     [b64_sym (x div 4), b64_sym (x mod 4 * 16 + y div 16), b64_sym (y mod 16 * 4), CHR ''=''])"
| "b64_encode (a # b # c # rest) =
    (let x = byte_nat a; y = byte_nat b; z = byte_nat c in
     [b64_sym (x div 4), b64_sym (x mod 4 * 16 + y div 16), b64_sym (y mod 16 * 4 + z div 64),
      b64_sym (z mod 64)] @ b64_encode rest)"

definition b64_byte1 :: "nat \<Rightarrow> nat \<Rightarrow> char" where
  "b64_byte1 p q = char_of (p * 4 + q div 16)"

definition b64_byte2 :: "nat \<Rightarrow> nat \<Rightarrow> char" where
  "b64_byte2 q r = char_of (q mod 16 * 16 + r div 4)"

definition b64_byte3 :: "nat \<Rightarrow> nat \<Rightarrow> char" where
  "b64_byte3 r t = char_of (r mod 4 * 64 + t)"

fun b64_quanta :: "string \<Rightarrow> string option" where
  "b64_quanta [] = Some []"
| "b64_quanta (a # b # c # d # rest) =
    (case (b64_val a, b64_val b) of
       (Some p, Some q) \<Rightarrow>
         (if c = CHR ''='' then (if d = CHR ''='' \<and> rest = [] then Some [b64_byte1 p q] else None)
          else (case b64_val c of None \<Rightarrow> None
                | Some r \<Rightarrow>
                    (if d = CHR ''='' then
                       (if rest = [] then Some [b64_byte1 p q, b64_byte2 q r] else None)
                     else (case (b64_val d, b64_quanta rest) of
                             (Some t, Some xs) \<Rightarrow>
                               Some ([b64_byte1 p q, b64_byte2 q r, b64_byte3 r t] @ xs)
                           | _ \<Rightarrow> None))))
     | _ \<Rightarrow> None)"
| "b64_quanta _ = None"

definition b64_decode :: "string \<Rightarrow> string option" where
  "b64_decode s = b64_quanta (filter (\<lambda>c. c \<noteq> CHR 0x0D \<and> c \<noteq> CHR 0x0A) s)"

subsection \<open>Decoding what was encoded\<close>

lemma byte_nat_less: "byte_nat c < 256"
  by (simp add: byte_nat_def)

lemma char_of_byte_nat: "char_of (byte_nat c) = c"
  by (simp add: byte_nat_def)

lemma index_byte_nth:
  "distinct xs \<Longrightarrow> i < length xs \<Longrightarrow> index_byte (xs ! i) xs = int i"
proof (induction xs arbitrary: i)
  case Nil
  then show ?case by simp
next
  case (Cons x xs)
  then show ?case by (cases i) (auto simp: Let_def)
qed

lemma b64_alphabet_facts:
  "distinct b64_alphabet" "length b64_alphabet = 64"
  "CHR ''='' \<notin> set b64_alphabet" "CHR 0x0D \<notin> set b64_alphabet" "CHR 0x0A \<notin> set b64_alphabet"
  by (simp_all add: b64_alphabet_def)

lemma b64_val_sym: "n < 64 \<Longrightarrow> b64_val (b64_sym n) = Some n"
  by (simp add: b64_val_def b64_sym_def index_byte_nth b64_alphabet_facts Let_def)

lemma b64_sym_in: "n < 64 \<Longrightarrow> b64_sym n \<in> set b64_alphabet"
  by (simp add: b64_sym_def b64_alphabet_facts)

lemma b64_sym_not: "n < 64 \<Longrightarrow> b64_sym n \<noteq> CHR ''=''"
  using b64_sym_in b64_alphabet_facts(3) by metis

text \<open>The three bytes of a quantum come back, by arithmetic on their values.\<close>

lemma b64_bytes:
  fixes a b c :: char
  shows "b64_byte1 (byte_nat a div 4) (byte_nat a mod 4 * 16) = a"
    and "b64_byte1 (byte_nat a div 4) (byte_nat a mod 4 * 16 + byte_nat b div 16) = a"
    and "b64_byte2 (byte_nat a mod 4 * 16 + byte_nat b div 16) (byte_nat b mod 16 * 4) = b"
    and "b64_byte2 (byte_nat a mod 4 * 16 + byte_nat b div 16)
           (byte_nat b mod 16 * 4 + byte_nat c div 64) = b"
    and "b64_byte3 (byte_nat b mod 16 * 4 + byte_nat c div 64) (byte_nat c mod 64) = c"
proof -
  have l: "byte_nat a < 256" "byte_nat b < 256" "byte_nat c < 256" by (rule byte_nat_less)+
  have "byte_nat a div 4 * 4 + byte_nat a mod 4 * 16 div 16 = byte_nat a" by simp
  then show "b64_byte1 (byte_nat a div 4) (byte_nat a mod 4 * 16) = a"
    by (simp add: b64_byte1_def char_of_byte_nat)
  have "byte_nat a div 4 * 4 + (byte_nat a mod 4 * 16 + byte_nat b div 16) div 16 = byte_nat a"
    using l by simp
  then show "b64_byte1 (byte_nat a div 4) (byte_nat a mod 4 * 16 + byte_nat b div 16) = a"
    by (simp add: b64_byte1_def char_of_byte_nat)
  have y: "(byte_nat a mod 4 * 16 + byte_nat b div 16) mod 16 = byte_nat b div 16"
    using l by simp
  have "byte_nat b div 16 * 16 + byte_nat b mod 16 * 4 div 4 = byte_nat b" by simp
  with y show "b64_byte2 (byte_nat a mod 4 * 16 + byte_nat b div 16) (byte_nat b mod 16 * 4) = b"
    by (simp add: b64_byte2_def char_of_byte_nat)
  have "byte_nat b div 16 * 16 + (byte_nat b mod 16 * 4 + byte_nat c div 64) div 4 = byte_nat b"
    using l by simp
  with y show "b64_byte2 (byte_nat a mod 4 * 16 + byte_nat b div 16)
           (byte_nat b mod 16 * 4 + byte_nat c div 64) = b"
    by (simp add: b64_byte2_def char_of_byte_nat)
  have "(byte_nat b mod 16 * 4 + byte_nat c div 64) mod 4 = byte_nat c div 64"
    using l by simp
  then have "(byte_nat b mod 16 * 4 + byte_nat c div 64) mod 4 * 64 + byte_nat c mod 64 = byte_nat c"
    by simp
  then show "b64_byte3 (byte_nat b mod 16 * 4 + byte_nat c div 64) (byte_nat c mod 64) = c"
    by (simp add: b64_byte3_def char_of_byte_nat)
qed

lemma b64_index_bounds:
  "byte_nat a div 4 < 64" "byte_nat a mod 4 * 16 < 64"
  "byte_nat a mod 4 * 16 + byte_nat b div 16 < 64" "byte_nat b mod 16 * 4 < 64"
  "byte_nat b mod 16 * 4 + byte_nat c div 64 < 64" "byte_nat c mod 64 < 64"
  using byte_nat_less [of a] byte_nat_less [of b] byte_nat_less [of c] by auto

lemma b64_quanta_encode: "b64_quanta (b64_encode s) = Some s"
  by (induction s rule: b64_encode.induct)
    (simp_all add: Let_def b64_val_sym b64_sym_not b64_index_bounds b64_bytes)

lemma b64_encode_chars: "c \<in> set (b64_encode s) \<Longrightarrow> c \<in> set b64_alphabet \<or> c = CHR ''=''"
  by (induction s rule: b64_encode.induct)
    (auto simp: Let_def b64_sym_in b64_index_bounds)

lemma b64_decode_encode: "b64_decode (b64_encode s) = Some s"
proof -
  have "filter (\<lambda>c. c \<noteq> CHR 0x0D \<and> c \<noteq> CHR 0x0A) (b64_encode s) = b64_encode s"
    using b64_encode_chars b64_alphabet_facts(4,5) by (intro filter_True) fastforce
  then show ?thesis by (simp add: b64_decode_def b64_quanta_encode)
qed

end
