(* ===== verification/Utils.thy ===== *)
theory Utils
  imports Sample_Env Base64
begin

section \<open>Shared helpers of the controllers (controllers/utils.go)\<close>

text \<open>
  The retry guards around object creation, the endpoint query, the environment-variable and
  resource comparisons that decide a rolling update, the anti-affinity term, and the string
  compression of the metadata store, with the base64 codec of the standard library.
  \<open>addAntiAffinity\<close> copies the affinity of the custom resource shallowly and then appends
  through the copied pointer, so it also changes the custom resource; it returns both.
\<close>

definition chunkNodeNumber :: int where
  "chunkNodeNumber = 4"

definition chunkShardNumber :: int where
  "chunkShardNumber = 2"

text \<open>
  The conversions the code applies to \<open>cr.Spec.ChunkNumber\<close>: \<open>int(x)\<close> of a uint32 is exact
  on a 64-bit platform, \<open>int32(i)\<close> of an int keeps the low 32 bits.
\<close>

definition int_of_u32 :: "u32 \<Rightarrow> int" where
  "int_of_u32 x = int (unat x)"

definition int32_of_int :: "int \<Rightarrow> i32" where
  "int32_of_int i = word_of_int i"

definition int_of_i32 :: "i32 \<Rightarrow> int" where
  "int_of_i32 x = sint x"

subsection \<open>Creation guards\<close>

text \<open>
  \<open>for i := 0; i != 3; i++\<close>: call the function until it succeeds, retrying only when the
  object already exists; after the loop the last error is returned. \<open>n\<close> is the number of
  rounds left and \<open>err\<close> the error of the round before (nil before the first).
\<close>

fun createGuardLoop :: "nat \<Rightarrow> goerror \<Rightarrow> 'a op \<Rightarrow> 'a op" where
  "createGuardLoop 0 err createFunc = throwE err"
| "createGuardLoop (Suc n) err createFunc =
    tryE createFunc (\<lambda>r. case r of
        Inr x \<Rightarrow> returnE x
      | Inl e \<Rightarrow> if IsAlreadyExists e then createGuardLoop n e createFunc else throwE e)"

definition createServiceGuard :: "service op \<Rightarrow> service op" where
  "createServiceGuard createFunc = createGuardLoop 3 ErrPanic createFunc"

definition createStatefulSetGuard :: "statefulSet op \<Rightarrow> statefulSet op" where
  "createStatefulSetGuard createFunc = createGuardLoop 3 ErrPanic createFunc"

definition createConfigMapGuard :: "configMap op \<Rightarrow> configMap op" where
  "createConfigMapGuard createFunc = createGuardLoop 3 ErrPanic createFunc"

definition createSecretGuard :: "secret op \<Rightarrow> secret op" where
  "createSecretGuard createFunc = createGuardLoop 3 ErrPanic createFunc"

subsection \<open>Endpoints, environment variables\<close>

definition getEndpoints :: "env \<Rightarrow> string \<Rightarrow> string \<Rightarrow> endpointAddress list op" where
  "getEndpoints \<E> serviceName namespace =
    tryE (k8s_get_endpoints \<E> serviceName namespace) (\<lambda>r. case r of
        Inl e \<Rightarrow> if IsNotFound e then returnE [] else throwE e
      | Inr subsets \<Rightarrow> returnE (concat subsets))"

definition podIPEnvStr :: string where
  "podIPEnvStr = ''$(UM_POD_IP)''"

definition podNameStr :: string where
  "podNameStr = ''$(UM_POD_NAME)''"

definition podNameEnvStr :: string where
  "podNameEnvStr = ''${UM_POD_NAME}''"

definition podIPEnv :: envVar where
  "podIPEnv = \<lparr>ev_Name = ''UM_POD_IP'', ev_Value = [],
     ev_ValueFrom = Some (FieldRef [] ''status.podIP'')\<rparr>"

definition podNameEnv :: envVar where
  "podNameEnv = \<lparr>ev_Name = ''UM_POD_NAME'', ev_Value = [],
     ev_ValueFrom = Some (FieldRef [] ''metadata.name'')\<rparr>"

fun getEnvValue :: "envVar list \<Rightarrow> string \<Rightarrow> string" where
  "getEnvValue [] name = []"
| "getEnvValue (e # es) name = (if ev_Name e = name then ev_Value e else getEnvValue es name)"

text \<open>
  \<open>oldMap\<close> holds the last variable of each name; \<open>reflect.DeepEqual\<close> on the structs is
  equality.
\<close>

definition envVarMap :: "envVar list \<Rightarrow> string \<rightharpoonup> envVar" where
  "envVarMap old = foldl (\<lambda>m e. m(ev_Name e \<mapsto> e)) Map.empty old"

fun envVarScan :: "(string \<rightharpoonup> envVar) \<Rightarrow> envVar list \<Rightarrow> bool" where
  "envVarScan oldMap [] = False"
| "envVarScan oldMap (e # es) = (if oldMap (ev_Name e) \<noteq> Some e then True else envVarScan oldMap es)"

definition envVarListNeedUpdate :: "envVar list \<Rightarrow> envVar list \<Rightarrow> bool" where
  "envVarListNeedUpdate old new = envVarScan (envVarMap old) new"

subsection \<open>Resources and affinity\<close>

fun resourceScan :: "env \<Rightarrow> resourceList \<Rightarrow> resourceList \<Rightarrow> bool" where
  "resourceScan \<E> [] rhs = True"
| "resourceScan \<E> ((name, q) # lhs) rhs =
    (case map_of rhs name of None \<Rightarrow> False
     | Some q' \<Rightarrow> if \<not> env_quantity_equal \<E> q q' then False else resourceScan \<E> lhs rhs)"

definition resourceListEqual :: "env \<Rightarrow> resourceList \<Rightarrow> resourceList \<Rightarrow> bool" where
  "resourceListEqual \<E> lhs rhs =
    (if length lhs \<noteq> length rhs then False else resourceScan \<E> lhs rhs)"

definition resourceRequirementsEqual ::
  "env \<Rightarrow> resourceRequirements \<Rightarrow> resourceRequirements \<Rightarrow> bool" where
  "resourceRequirementsEqual \<E> lhs rhs =
    (if \<not> resourceListEqual \<E> (rr_Limits lhs) (rr_Limits rhs) then False
     else if \<not> resourceListEqual \<E> (rr_Requests lhs) (rr_Requests rhs) then False
     else True)"

definition antiAffinityTerm :: "labels \<Rightarrow> string \<Rightarrow> string \<Rightarrow> weightedTerm" where
  "antiAffinityTerm ls namespace topologyKey =
    \<lparr>wt_Weight = 2, wt_MatchLabels = ls, wt_Namespaces = [namespace], wt_TopologyKey = topologyKey\<rparr>"

text \<open>
  The result, and what \<open>crAffinity\<close> points to afterwards. \<open>*affinity = *crAffinity\<close> copies
  the \<open>PodAntiAffinity\<close> pointer: when it is set, the append writes into the struct that the
  custom resource refers to; when it is nil, the copy gets a struct of its own.
\<close>

definition addAntiAffinity ::
  "affinity option \<Rightarrow> labels \<Rightarrow> string \<Rightarrow> string \<Rightarrow> affinity \<times> affinity option" where
  "addAntiAffinity crAffinity ls namespace topologyKey =
    (let term1 = antiAffinityTerm ls namespace topologyKey;
         affinity1 = (case crAffinity of
             None \<Rightarrow> \<lparr>af_NodeAffinity = None, af_PodAffinity = None, af_PodAntiAffinity = None\<rparr>
           | Some a \<Rightarrow> a)
     in case af_PodAntiAffinity affinity1 of
          None \<Rightarrow>
            (affinity1\<lparr>af_PodAntiAffinity := Some \<lparr>pa_Required = [], pa_Preferred = [term1]\<rparr>\<rparr>,
             crAffinity)
        | Some paa \<Rightarrow>
            (let shared = paa\<lparr>pa_Preferred := pa_Preferred paa @ [term1]\<rparr>;
                 affinity2 = affinity1\<lparr>af_PodAntiAffinity := Some shared\<rparr>
             in (affinity2, Some affinity2)))"

definition genPreStopHookLifeCycle :: "string list \<Rightarrow> string list option" where
  "genPreStopHookLifeCycle cmd = Some cmd"

subsection \<open>The pool of Redis clients\<close>

text \<open>
  A client is identified by the options it was made with, here its address. \<open>getClient\<close>
  returns the pooled client or makes and stores one; the lock makes the body atomic.
\<close>

datatype redisClient = RedisClient string

type_synonym redisClientPool = "string \<rightharpoonup> redisClient"

definition newRedisClientPool :: redisClientPool where
  "newRedisClientPool = Map.empty"

definition pool_getClient :: "redisClientPool \<Rightarrow> string \<Rightarrow> redisClient \<times> redisClientPool" where
  "pool_getClient pool redisAddress =
    (case pool redisAddress of
       Some client \<Rightarrow> (client, pool)
     | None \<Rightarrow> (let client = RedisClient redisAddress in (client, pool(redisAddress \<mapsto> client))))"

subsection \<open>Compression\<close>

definition compressString :: "env \<Rightarrow> string \<Rightarrow> goerror + string" where
  "compressString \<E> origin =
    (case env_gzip \<E> origin of Inl e \<Rightarrow> Inl (ErrMsg e) | Inr b \<Rightarrow> Inr (b64_encode b))"

definition decompressString :: "env \<Rightarrow> string \<Rightarrow> goerror + string" where
  "decompressString \<E> dat =
    (case b64_decode dat of
       None \<Rightarrow> Inl (ErrMsg ''illegal base64 data'')
     | Some compressed \<Rightarrow>
         (case env_gunzip \<E> compressed of Inl e \<Rightarrow> Inl (ErrMsg e) | Inr origin \<Rightarrow> Inr origin))"

text \<open>The documented law of the gzip codec: reading what was written gives it back.\<close>

definition gzip_roundtrip :: "env \<Rightarrow> bool" where
  "gzip_roundtrip \<E> \<longleftrightarrow> (\<forall>s b. env_gzip \<E> s = Inr b \<longrightarrow> env_gunzip \<E> b = Inr s)"

lemma decompress_compress:
  "gzip_roundtrip \<E> \<Longrightarrow> compressString \<E> s = Inr d \<Longrightarrow> decompressString \<E> d = Inr s"
  by (auto simp: compressString_def decompressString_def gzip_roundtrip_def b64_decode_encode
      split: sum.splits)

subsection \<open>What the comparisons decide\<close>

lemma int32_shards: "(x :: i32) * 2 = int32_of_int (int_of_u32 x * chunkShardNumber)"
  by (simp add: int32_of_int_def int_of_u32_def chunkShardNumber_def)

lemma envVarMap_snoc: "envVarMap (es @ [e]) = (envVarMap es)(ev_Name e \<mapsto> e)"
  by (simp add: envVarMap_def)

lemma envVarMap_append: "envVarMap (xs @ ys) = envVarMap xs ++ envVarMap ys"
proof (induction ys rule: rev_induct)
  case Nil
  show ?case by (simp add: envVarMap_def)
next
  case (snoc y ys)
  then show ?case by (metis append_assoc envVarMap_snoc map_add_upd)
qed

lemma envVarMap_mem: "envVarMap es n = Some e \<Longrightarrow> e \<in> set es \<and> ev_Name e = n"
  by (induction es rule: rev_induct)
    (auto simp: envVarMap_snoc envVarMap_def [of "[]"] split: if_splits)

lemma envVarMap_dom: "e \<in> set es \<Longrightarrow> \<exists>e'. envVarMap es (ev_Name e) = Some e'"
  by (induction es rule: rev_induct) (auto simp: envVarMap_snoc)

lemma envVarScan_iff: "envVarScan m new \<longleftrightarrow> (\<exists>e \<in> set new. m (ev_Name e) \<noteq> Some e)"
  by (induction new) auto

text \<open>No name is given two different variables.\<close>

definition env_consistent :: "envVar list \<Rightarrow> bool" where
  "env_consistent es \<longleftrightarrow> (\<forall>x \<in> set es. \<forall>y \<in> set es. ev_Name x = ev_Name y \<longrightarrow> x = y)"

text \<open>
  The container environment is the operator's own variables followed by the user's. Compared
  with the user's list it needs no update exactly when that list is consistent: two entries
  of one name but different values always differ from the one kept in \<open>oldMap\<close>.
\<close>

lemma envVarListNeedUpdate_own:
  "envVarListNeedUpdate (base @ new) new \<longleftrightarrow> \<not> env_consistent new"
proof
  assume "envVarListNeedUpdate (base @ new) new"
  then obtain e where e: "e \<in> set new" "envVarMap (base @ new) (ev_Name e) \<noteq> Some e"
    by (auto simp: envVarListNeedUpdate_def envVarScan_iff)
  obtain e' where e': "envVarMap new (ev_Name e) = Some e'" using envVarMap_dom [OF e(1)] by blast
  then have "e' \<in> set new" "ev_Name e' = ev_Name e" "e' \<noteq> e"
    using e(2) envVarMap_mem [OF e'] by (auto simp: envVarMap_append)
  then show "\<not> env_consistent new" using e(1) by (auto simp: env_consistent_def)
next
  assume "\<not> env_consistent new"
  then obtain x y where xy: "x \<in> set new" "y \<in> set new" "ev_Name x = ev_Name y" "x \<noteq> y"
    by (auto simp: env_consistent_def)
  obtain e where "envVarMap new (ev_Name x) = Some e" using envVarMap_dom [OF xy(1)] by blast
  then have "envVarMap (base @ new) (ev_Name x) = Some e" by (simp add: envVarMap_append)
  then have "\<exists>z \<in> set new. envVarMap (base @ new) (ev_Name z) \<noteq> Some z"
    using xy by (metis option.inject)
  then show "envVarListNeedUpdate (base @ new) new"
    by (simp add: envVarListNeedUpdate_def envVarScan_iff)
qed

text \<open>Equality of quantities, as the API documents it, is reflexive.\<close>

definition quantity_refl :: "env \<Rightarrow> bool" where
  "quantity_refl \<E> \<longleftrightarrow> (\<forall>q. env_quantity_equal \<E> q q)"

lemma resourceScan_iff:
  "resourceScan \<E> lhs rhs \<longleftrightarrow>
    (\<forall>(n, q) \<in> set lhs. \<exists>q'. map_of rhs n = Some q' \<and> env_quantity_equal \<E> q q')"
  by (induction \<E> lhs rhs rule: resourceScan.induct) (auto split: option.splits)

lemma resourceListEqual_refl:
  "quantity_refl \<E> \<Longrightarrow> wf_map m \<Longrightarrow> resourceListEqual \<E> m m"
  by (auto simp: resourceListEqual_def resourceScan_iff quantity_refl_def wf_map_def)

definition wf_resources :: "resourceRequirements \<Rightarrow> bool" where
  "wf_resources r \<longleftrightarrow> wf_map (rr_Limits r) \<and> wf_map (rr_Requests r)"

lemma resourceRequirementsEqual_refl:
  "quantity_refl \<E> \<Longrightarrow> wf_resources r \<Longrightarrow> resourceRequirementsEqual \<E> r r"
  by (simp add: resourceRequirementsEqual_def wf_resources_def resourceListEqual_refl)

text \<open>
  On well-formed maps the one-sided scan decides equality of the maps: the lengths agree and
  every left key is on the right, so there is no further right key.
\<close>

lemma resourceListEqual_iff:
  assumes "wf_map lhs" and "wf_map rhs"
  shows "resourceListEqual \<E> lhs rhs \<longleftrightarrow>
    (\<forall>n. rel_option (env_quantity_equal \<E>) (map_of lhs n) (map_of rhs n))"
proof
  assume eq: "resourceListEqual \<E> lhs rhs"
  then have len: "length lhs = length rhs" and scan: "resourceScan \<E> lhs rhs"
    by (auto simp: resourceListEqual_def split: if_splits)
  have sub: "fst ` set lhs \<subseteq> fst ` set rhs"
    using scan by (force simp: resourceScan_iff dest: map_of_SomeD)
  have "card (fst ` set lhs) = card (fst ` set rhs)"
    using assms len by (metis distinct_card length_map list.set_map wf_map_def)
  with sub have keys: "fst ` set lhs = fst ` set rhs" by (simp add: card_subset_eq)
  show "\<forall>n. rel_option (env_quantity_equal \<E>) (map_of lhs n) (map_of rhs n)"
  proof
    fix n
    show "rel_option (env_quantity_equal \<E>) (map_of lhs n) (map_of rhs n)"
    proof (cases "map_of lhs n")
      case None
      then have "map_of rhs n = None" using keys by (simp add: map_of_eq_None_iff)
      with None show ?thesis by simp
    next
      case (Some q)
      then have "(n, q) \<in> set lhs" by (rule map_of_SomeD)
      then show ?thesis using scan Some by (fastforce simp: resourceScan_iff)
    qed
  qed
next
  assume rel: "\<forall>n. rel_option (env_quantity_equal \<E>) (map_of lhs n) (map_of rhs n)"
  have "\<And>n. map_of lhs n = None \<longleftrightarrow> map_of rhs n = None"
    using rel by (metis option.rel_distinct(1,2) option.exhaust)
  then have "fst ` set lhs = fst ` set rhs" by (auto simp: map_of_eq_None_iff)
  then have "length lhs = length rhs"
    using assms by (metis distinct_card length_map list.set_map wf_map_def)
  moreover have "resourceScan \<E> lhs rhs"
    unfolding resourceScan_iff
  proof clarify
    fix n q assume "(n, q) \<in> set lhs"
    then have "map_of lhs n = Some q" using assms(1) by (simp add: wf_map_def)
    then show "\<exists>q'. map_of rhs n = Some q' \<and> env_quantity_equal \<E> q q'"
      using rel by (metis option.rel_cases option.inject option.distinct(1))
  qed
  ultimately show "resourceListEqual \<E> lhs rhs" by (simp add: resourceListEqual_def)
qed

lemma getEnvValue_first [simp]:
  "getEnvValue (value_env n v # es) n = v"
  "m \<noteq> n \<Longrightarrow> getEnvValue (value_env m v # es) n = getEnvValue es n"
  by simp_all

lemma emits_createGuardLoop [emits_intros]:
  "emits P f \<Longrightarrow> emits P (createGuardLoop n err f)"
  by (induction n arbitrary: err) (auto intro!: emits_intros)

lemmas guard_defs = createServiceGuard_def createStatefulSetGuard_def createConfigMapGuard_def
  createSecretGuard_def

lemma emits_guards [emits_intros]:
  "emits P sv \<Longrightarrow> emits P (createServiceGuard sv)"
  "emits P ss \<Longrightarrow> emits P (createStatefulSetGuard ss)"
  "emits P cm \<Longrightarrow> emits P (createConfigMapGuard cm)"
  "emits P sc \<Longrightarrow> emits P (createSecretGuard sc)"
  by (simp_all add: guard_defs emits_createGuardLoop)

lemma emits_getEndpoints [emits_intros]:
  "(\<And>r. P (EvGetEndpoints name ns r)) \<Longrightarrow> emits P (getEndpoints \<E> name ns)"
  unfolding getEndpoints_def by (intro emits_intros)

subsection \<open>Properties\<close>

text \<open>
  C38: With a gzip codec that reads back what it wrote, \<open>decompressString\<close> undoes
  \<open>compressString\<close>: what a broker stores in the ConfigMap it gets back.
\<close>

theorem compression_roundtrip:
  assumes "gzip_roundtrip \<E>" and "compressString \<E> s = Inr d"
  shows "decompressString \<E> d = Inr s"
  using assms by (rule decompress_compress)

theorem compression_roundtrip_witness: "decompressString sample_env ''e30='' = Inr ''{}''"
proof (rule compression_roundtrip)
  show "gzip_roundtrip sample_env" by (simp add: gzip_roundtrip_def sample_env_def)
  show "compressString sample_env ''{}'' = Inr ''e30=''"
    by (simp add: compressString_def sample_env_def b64_sym_def b64_alphabet_def byte_nat_def of_char_def)
qed

text \<open>
  On maps without duplicate keys, \<open>resourceListEqual\<close> holds exactly when both lists give
  every resource name equal quantities, or none.
\<close>

theorem resourceListEqual_decides:
  assumes "wf_map lhs" and "wf_map rhs"
  shows "resourceListEqual \<E> lhs rhs \<longleftrightarrow>
    (\<forall>n. rel_option (env_quantity_equal \<E>) (map_of lhs n) (map_of rhs n))"
  using assms by (rule resourceListEqual_iff)

theorem resourceListEqual_decides_witness:
  "resourceListEqual sample_env [(''cpu'', ''1''), (''memory'', ''2Gi'')] [(''memory'', ''2Gi''), (''cpu'', ''1'')] \<longleftrightarrow>
    (\<forall>n. rel_option (env_quantity_equal sample_env)
      (map_of [(''cpu'', ''1''), (''memory'', ''2Gi'')] n) (map_of [(''memory'', ''2Gi''), (''cpu'', ''1'')] n))"
  by (rule resourceListEqual_decides) (simp_all add: wf_map_def)

text \<open>
  The container environment a component was created with (the operator's variables followed
  by the user's) is reported as out of date against the same user list exactly when that list
  gives one name two different variables.
\<close>

theorem own_environment_needs_update:
  "envVarListNeedUpdate (base @ new) new \<longleftrightarrow> \<not> env_consistent new"
  by (rule envVarListNeedUpdate_own)

text \<open>
  A pod term the operator adds is written through the pointer it shares with the custom
  resource: when the resource already has a \<open>PodAntiAffinity\<close>, the resource's own affinity
  afterwards holds the added term.
\<close>

theorem addAntiAffinity_aliases:
  assumes "af_PodAntiAffinity aff = Some paa"
  shows "snd (addAntiAffinity (Some aff) ls ns key) =
    Some (aff\<lparr>af_PodAntiAffinity :=
      Some (paa\<lparr>pa_Preferred := pa_Preferred paa @ [antiAffinityTerm ls ns key]\<rparr>)\<rparr>)"
  using assms by (simp add: addAntiAffinity_def Let_def)

theorem addAntiAffinity_aliases_witness:
  "snd (addAntiAffinity (Some \<lparr>af_NodeAffinity = None, af_PodAffinity = None,
      af_PodAntiAffinity = Some \<lparr>pa_Required = [], pa_Preferred = []\<rparr>\<rparr>) [] ''ns'' ''key'') =
    Some \<lparr>af_NodeAffinity = None, af_PodAffinity = None,
      af_PodAntiAffinity = Some \<lparr>pa_Required = [], pa_Preferred = [antiAffinityTerm [] ''ns'' ''key'']\<rparr>\<rparr>"
  using addAntiAffinity_aliases [of "\<lparr>af_NodeAffinity = None, af_PodAffinity = None,
      af_PodAntiAffinity = Some \<lparr>pa_Required = [], pa_Preferred = []\<rparr>\<rparr>"
      "\<lparr>pa_Required = [], pa_Preferred = []\<rparr>" "[]" "''ns''" "''key''"] by simp

end
