(* ===== verification/Meta.thy ===== *)
theory Meta
  imports Utils
begin

section \<open>Metadata objects and names (controllers/meta.go)\<close>

text \<open>
  The ConfigMap that holds the brokers' metadata, the Secret that holds the password the
  brokers authenticate with, and the storage name \<open><undermoon>@<namespace>\<close> by which a broker
  addresses its store. \<open>extractStorageName\<close> undoes \<open>brokerStorageName\<close>.
\<close>

definition metaStoreKey :: string where
  "metaStoreKey = ''broker_meta_store''"

definition metaPasswordKey :: string where
  "metaPasswordKey = ''broker_meta_password''"

definition metaServiceName :: string where
  "metaServiceName = ''undermoon-operator-storage''"

definition metaServicePort :: nat where
  "metaServicePort = 9999"

definition MetaConfigMapName :: "string \<Rightarrow> string" where
  "MetaConfigMapName undermoonName = undermoonName @ ''-cfg''"

definition MetaSecretName :: "string \<Rightarrow> string" where
  "MetaSecretName undermoonName = undermoonName @ ''-sc''"

definition createMetaConfigMap :: "undermoon \<Rightarrow> string \<Rightarrow> configMap" where
  "createMetaConfigMap cr initData =
    (let undermoonName = um_Name cr;
         ls = [(''undermoonName'', undermoonName),
               (''undermoonClusterName'', um_ClusterName (um_Spec cr))]
     in \<lparr>cm_Meta = new_meta (MetaConfigMapName undermoonName) (um_Namespace cr) ls,
         cm_Data = [(metaStoreKey, initData)]\<rparr>)"

definition createMetaSecret :: "undermoon \<Rightarrow> string \<Rightarrow> secret" where
  "createMetaSecret cr password =
    (let undermoonName = um_Name cr;
         ls = [(''undermoonName'', undermoonName),
               (''undermoonClusterName'', um_ClusterName (um_Spec cr))]
     in \<lparr>sc_Meta = new_meta (MetaSecretName undermoonName) (um_Namespace cr) ls,
         sc_Data = [(metaPasswordKey, password)]\<rparr>)"

text \<open>\<open>password.Generate(64, 10, 10, false, false)\<close>\<close>

definition genBrokerPassword :: "env \<Rightarrow> string op" where
  "genBrokerPassword \<E> = gen_password \<E>"

definition brokerStorageName :: "string \<Rightarrow> string \<Rightarrow> string" where
  "brokerStorageName undermoonName namespace = undermoonName @ ''@'' @ namespace"

definition metaServiceHost :: "env \<Rightarrow> string" where
  "metaServiceHost \<E> = metaServiceName @ ''.'' @ env_operator_namespace \<E> @ ''.svc.cluster.local''"

definition extractStorageName :: "string \<Rightarrow> goerror + string \<times> string" where
  "extractStorageName name =
    (case splitN2 (CHR ''@'') name of
       [undermooName, namespace] \<Rightarrow>
         if undermooName = [] \<or> namespace = []
         then Inl (ErrMsg (''invalid storage name: '' @ name))
         else Inr (undermooName, namespace)
     | _ \<Rightarrow> Inl (ErrMsg (''invalid storage name: '' @ name)))"

lemma emits_genBrokerPassword [emits_intros]:
  "(\<And>r. P (EvGenPassword r)) \<Longrightarrow> emits P (genBrokerPassword \<E>)"
  unfolding genBrokerPassword_def by (intro emits_intros)

subsection \<open>Storage names\<close>

lemma extract_brokerStorageName:
  assumes "CHR ''@'' \<notin> set undermoonName" and "undermoonName \<noteq> []" and "namespace \<noteq> []"
  shows "extractStorageName (brokerStorageName undermoonName namespace) = Inr (undermoonName, namespace)"
  using assms by (simp add: extractStorageName_def brokerStorageName_def splitN2_append)

text \<open>
  What is accepted is exactly a name with a separator and two non-empty parts, and the parts
  put together give the name back.
\<close>

lemma extractStorageName_iff:
  "extractStorageName name = Inr (u, ns) \<longleftrightarrow>
    name = brokerStorageName u ns \<and> u \<noteq> [] \<and> ns \<noteq> [] \<and> CHR ''@'' \<notin> set u"
proof
  assume ok: "extractStorageName name = Inr (u, ns)"
  from splitN2_cases [of "CHR ''@''" name] show
    "name = brokerStorageName u ns \<and> u \<noteq> [] \<and> ns \<noteq> [] \<and> CHR ''@'' \<notin> set u"
    using ok by (auto simp: extractStorageName_def brokerStorageName_def split: if_splits)
next
  assume "name = brokerStorageName u ns \<and> u \<noteq> [] \<and> ns \<noteq> [] \<and> CHR ''@'' \<notin> set u"
  then show "extractStorageName name = Inr (u, ns)" by (auto intro: extract_brokerStorageName)
qed

text \<open>
  A storage name is accepted exactly when it is \<open>brokerStorageName\<close> of two non-empty
  parts, the first without a separator, and the parts returned are those two.
\<close>

theorem storage_name_roundtrip:
  "extractStorageName name = Inr (u, ns) \<longleftrightarrow>
    name = brokerStorageName u ns \<and> u \<noteq> [] \<and> ns \<noteq> [] \<and> CHR ''@'' \<notin> set u"
  by (rule extractStorageName_iff)

end
