(* ===== verification/Broker.thy ===== *)
theory Broker
  imports Meta
begin

section \<open>Objects of the memory brokers (controllers/broker.go)\<close>

text \<open>
  The services and the StatefulSet of the brokers, and the test whether the running
  StatefulSet still fits the resource. \<open>createBrokerStatefulSet\<close> also returns the custom
  resource, because \<open>addAntiAffinity\<close> may have changed its affinity.
\<close>

definition brokerPort :: nat where
  "brokerPort = 7799"

definition brokerNum :: i32 where
  "brokerNum = 2"

definition brokerContainerName :: string where
  "brokerContainerName = ''broker''"

definition undermoonServiceTypeBroker :: string where
  "undermoonServiceTypeBroker = ''broker''"

definition brokerTopologyKey :: string where
  "brokerTopologyKey = ''undermoon-broker-topology-key''"

definition serviceLabels :: "string \<Rightarrow> undermoon \<Rightarrow> labels" where
  "serviceLabels serviceType cr =
    [(''undermoonService'', serviceType), (''undermoonName'', um_Name cr),
     (''undermoonClusterName'', um_ClusterName (um_Spec cr))]"

definition BrokerServiceName :: "string \<Rightarrow> string" where
  "BrokerServiceName undermoonName = undermoonName @ ''-bk-svc''"

definition BrokerPublicServiceName :: "string \<Rightarrow> string" where
  "BrokerPublicServiceName undermoonName = undermoonName @ ''-broker''"

definition BrokerStatefulSetName :: "string \<Rightarrow> string" where
  "BrokerStatefulSetName undermoonName = undermoonName @ ''-bk-ss''"

definition createBrokerService :: "undermoon \<Rightarrow> service" where
  "createBrokerService cr =
    (let ls = serviceLabels undermoonServiceTypeBroker cr in
     \<lparr>sv_Meta = new_meta (BrokerServiceName (um_Name cr)) (um_Namespace cr) ls,
      sv_Ports = [\<lparr>sp_Name = ''broker-port'', sp_Port = of_nat brokerPort, sp_Protocol = ''TCP''\<rparr>],
      sv_ClusterIP = ''None'', sv_Selector = ls, sv_PublishNotReadyAddresses = False\<rparr>)"

definition createBrokerPublicService :: "undermoon \<Rightarrow> service" where
  "createBrokerPublicService cr =
    (let ls = serviceLabels undermoonServiceTypeBroker cr in
     \<lparr>sv_Meta = new_meta (BrokerPublicServiceName (um_Name cr)) (um_Namespace cr) ls,
      sv_Ports = [\<lparr>sp_Name = ''broker-port'', sp_Port = of_nat brokerPort, sp_Protocol = ''TCP''\<rparr>],
      sv_ClusterIP = [], sv_Selector = ls, sv_PublishNotReadyAddresses = False\<rparr>)"

definition brokerEnv :: "env \<Rightarrow> undermoon \<Rightarrow> envVar list" where
  "brokerEnv \<E> cr =
    [value_env ''RUST_LOG'' ''undermoon=info,mem_broker=info'',
     value_env ''UNDERMOON_ADDRESS'' (''0.0.0.0:'' @ show_nat brokerPort),
     value_env ''UNDERMOON_FAILURE_TTL'' ''60'',
     value_env ''UNDERMOON_FAILURE_QUORUM'' ''2'',
     value_env ''UNDERMOON_MIGRATION_LIMIT'' (show_nat (unat (um_MigrationLimit (um_Spec cr)))),
     value_env ''UNDERMOON_RECOVER_FROM_META_FILE'' ''true'',
     value_env ''UNDERMOON_META_FILENAME'' ''metadata'',
     value_env ''UNDERMOON_AUTO_UPDATE_META_FILE'' ''true'',
     value_env ''UNDERMOON_UPDATE_META_FILE_INTERVAL'' ''10'',
     value_env ''UNDERMOON_REPLICA_ADDRESSES'' '''',
     value_env ''UNDERMOON_SYNC_META_INTERVAL'' ''60'',
     value_env ''UNDERMOON_ENABLE_ORDERED_PROXY'' ''true'',
     value_env ''UNDERMOON_DEBUG'' ''false'',
     value_env ''UNDERMOON_STORAGE_TYPE'' ''http'',
     value_env ''UNDERMOON_STORAGE_NAME'' (brokerStorageName (um_Name cr) (um_Namespace cr)),
     \<lparr>ev_Name = ''UNDERMOON_STORAGE_PASSWORD'', ev_Value = [],
      ev_ValueFrom = Some (SecretKeyRef (MetaSecretName (um_Name cr)) metaPasswordKey)\<rparr>,
     value_env ''UNDERMOON_HTTP_STORAGE_ADDRESS''
       (metaServiceHost \<E> @ '':'' @ show_nat metaServicePort),
     value_env ''UNDERMOON_REFRESH_INTERVAL'' ''5'']"

definition brokerContainer :: "env \<Rightarrow> undermoon \<Rightarrow> container" where
  "brokerContainer \<E> cr =
    \<lparr>c_Name = brokerContainerName,
     c_Image = um_UndermoonImage (um_Spec cr),
     c_ImagePullPolicy = um_UndermoonImagePullPolicy (um_Spec cr),
     c_Command = [''mem_broker''], c_Args = [],
     c_Env = brokerEnv \<E> cr @ um_BrokerEnvVar (um_Spec cr),
     c_Resources = um_BrokerResources (um_Spec cr),
     c_PreStop = None, c_ReadinessProbe = None, c_WorkingDir = [],
     c_VolumeMounts = [], c_VolumeDevices = []\<rparr>"

definition createBrokerStatefulSet :: "env \<Rightarrow> undermoon \<Rightarrow> statefulSet \<times> undermoon" where
  "createBrokerStatefulSet \<E> cr =
    (let undermoonName = um_Name cr;
         ls = serviceLabels undermoonServiceTypeBroker cr;
         container = brokerContainer \<E> cr;
         (aff, crAff) = addAntiAffinity (um_Affinity (um_Spec cr)) ls (um_Namespace cr) brokerTopologyKey;
         podSpec = \<lparr>ps_TerminationGracePeriodSeconds = None,
           ps_Containers = [container],
           ps_Affinity = Some aff,
           ps_NodeSelector = um_NodeSelector (um_Spec cr),
           ps_ImagePullSecrets = um_ImagePullSecrets (um_Spec cr),
           ps_SchedulerName = um_SchedulerName (um_Spec cr),
           ps_Tolerations = um_Tolerations (um_Spec cr),
           ps_Volumes = []\<rparr>
     in (\<lparr>ss_Meta = new_meta (BrokerStatefulSetName undermoonName) (um_Namespace cr) ls,
          ss_Spec = \<lparr>ss_Selector = ls,
            ss_ServiceName = BrokerServiceName undermoonName,
            ss_Replicas = brokerNum,
            ss_TemplateLabels = ls,
            ss_Template = podSpec,
            ss_PodManagementPolicy = ''Parallel'',
            ss_VolumeClaimTemplates = []\<rparr>,
          ss_Status = empty_status\<rparr>,
         cr\<lparr>um_Spec := (um_Spec cr)\<lparr>um_Affinity := crAff\<rparr>\<rparr>))"

text \<open>\<open>curr.Spec.Template.Spec.Containers[i]\<close> panics when there is no such container.\<close>

definition containerAt :: "statefulSet \<Rightarrow> nat \<Rightarrow> container option" where
  "containerAt ss i =
    (let cs = ps_Containers (ss_Template (ss_Spec ss)) in
     if i < length cs then Some (cs ! i) else None)"

definition brokerStatefulSetChanged :: "env \<Rightarrow> undermoon \<Rightarrow> statefulSet \<Rightarrow> goerror + bool" where
  "brokerStatefulSetChanged \<E> cr cur =
    (case containerAt cur 0 of
       None \<Rightarrow> Inl ErrPanic
     | Some container \<Rightarrow> Inr (
         if um_UndermoonImage (um_Spec cr) \<noteq> c_Image container then True
         else if um_UndermoonImagePullPolicy (um_Spec cr) \<noteq> c_ImagePullPolicy container then True
         else if \<not> resourceRequirementsEqual \<E> (um_BrokerResources (um_Spec cr)) (c_Resources container)
         then True
         else if envVarListNeedUpdate (c_Env container) (um_BrokerEnvVar (um_Spec cr)) then True
         else False))"

definition genBrokerFQDN :: "string \<Rightarrow> string \<Rightarrow> string \<Rightarrow> string" where
  "genBrokerFQDN podName undermoonName namespace =
    podName @ ''.'' @ BrokerServiceName undermoonName @ ''.'' @ namespace @ ''.svc.cluster.local''"

definition genBrokerPublicFQDN :: "string \<Rightarrow> string \<Rightarrow> string" where
  "genBrokerPublicFQDN undermoonName namespace =
    BrokerPublicServiceName undermoonName @ ''.'' @ namespace @ ''.svc.cluster.local''"

definition genBrokerAddressFromName :: "string \<Rightarrow> undermoon \<Rightarrow> string" where
  "genBrokerAddressFromName name cr =
    (let host = genBrokerFQDN name (um_Name cr) (um_Namespace cr)
     in host @ '':'' @ show_nat brokerPort)"

subsection \<open>A fresh StatefulSet fits the resource it was made from\<close>

text \<open>
  A rolling update writes the spec of \<open>createBrokerStatefulSet\<close>; the test of the next
  reconciliation then finds nothing to change, exactly when the user's variables are
  consistent. So with an inconsistent list the rolling update never ends.
\<close>

lemma containerAt_broker:
  "ss_Spec cur = ss_Spec (fst (createBrokerStatefulSet \<E> cr)) \<Longrightarrow>
    containerAt cur 0 = Some (brokerContainer \<E> cr)"
  by (simp add: containerAt_def createBrokerStatefulSet_def Let_def split: prod.splits)

lemma brokerStatefulSetChanged_fresh:
  assumes "ss_Spec cur = ss_Spec (fst (createBrokerStatefulSet \<E> cr))"
    and "quantity_refl \<E>" and "wf_resources (um_BrokerResources (um_Spec cr))"
  shows "brokerStatefulSetChanged \<E> cr cur = Inr (\<not> env_consistent (um_BrokerEnvVar (um_Spec cr)))"
  using resourceRequirementsEqual_refl [OF assms(2,3)]
  by (simp add: brokerStatefulSetChanged_def containerAt_broker [OF assms(1)] brokerContainer_def
      envVarListNeedUpdate_own)

text \<open>Making the StatefulSet leaves all of the custom resource but its affinity alone.\<close>

lemma createBroker_frame:
  "\<exists>aff. snd (createBrokerStatefulSet \<E> cr) = cr\<lparr>um_Spec := (um_Spec cr)\<lparr>um_Affinity := aff\<rparr>\<rparr>"
  by (auto simp: createBrokerStatefulSet_def Let_def split: prod.splits)

lemma brokerStatefulSetChanged_frame:
  "brokerStatefulSetChanged \<E> (snd (createBrokerStatefulSet \<E> cr)) cur = brokerStatefulSetChanged \<E> cr cur"
proof -
  obtain aff where "snd (createBrokerStatefulSet \<E> cr) = cr\<lparr>um_Spec := (um_Spec cr)\<lparr>um_Affinity := aff\<rparr>\<rparr>"
    using createBroker_frame by blast
  then show ?thesis by (simp add: brokerStatefulSetChanged_def Let_def cong: option.case_cong if_cong)
qed

end
