(* ===== verification/Coordinator.thy ===== *)
theory Coordinator
  imports Broker
begin

section \<open>Objects of the coordinators (controllers/coordinator.go)\<close>

text \<open>
  The service and the StatefulSet of the coordinators and the test for a rolling update.
  The topology key is the brokers' one, as in the code.
\<close>

definition coordinatorPort :: nat where
  "coordinatorPort = 6699"

definition coordinatorNum :: i32 where
  "coordinatorNum = 2"

definition coordinatorContainerName :: string where
  "coordinatorContainerName = ''coordinator''"

definition undermoonServiceTypeCoordinator :: string where
  "undermoonServiceTypeCoordinator = ''coordinator''"

definition coordinatorTopologyKey :: string where
  "coordinatorTopologyKey = ''undermoon-broker-topology-key''"

definition CoordinatorServiceName :: "string \<Rightarrow> string" where
  "CoordinatorServiceName undermoonName = undermoonName @ ''-cd-svc''"

definition CoordinatorStatefulSetName :: "string \<Rightarrow> string" where
  "CoordinatorStatefulSetName undermoonName = undermoonName @ ''-cd-ss''"

definition createCoordinatorService :: "undermoon \<Rightarrow> service" where
  "createCoordinatorService cr =
    (let ls = serviceLabels undermoonServiceTypeCoordinator cr in
     \<lparr>sv_Meta = new_meta (CoordinatorServiceName (um_Name cr)) (um_Namespace cr) ls,
      sv_Ports = [\<lparr>sp_Name = ''coordinator-port'', sp_Port = of_nat coordinatorPort, sp_Protocol = ''TCP''\<rparr>],
      sv_ClusterIP = ''None'', sv_Selector = ls, sv_PublishNotReadyAddresses = False\<rparr>)"

definition coordinatorEnv :: "undermoon \<Rightarrow> envVar list" where
  "coordinatorEnv cr =
    (let disableFailover = (if um_DisableFailover (um_Spec cr) then ''1'' else ''0'') in
    [value_env ''RUST_LOG'' ''undermoon=info,coordinator=info'',
     value_env ''UNDERMOON_ADDRESS'' (''0.0.0.0:'' @ show_nat coordinatorPort),
     value_env ''UNDERMOON_BROKER_ADDRESS'' '''',
     \<lparr>ev_Name = ''UNDERMOON_REPORTER_ID'', ev_Value = [],
      ev_ValueFrom = Some (FieldRef [] ''metadata.name'')\<rparr>,
     value_env ''UNDERMOON_THREAD_NUMBER'' ''2'',
     value_env ''UNDERMOON_PROXY_TIMEOUT'' ''3'',
     value_env ''UNDERMOON_ENABLE_COMPRESSION'' ''1'',
     value_env ''UNDERMOON_DISABLE_FAILOVER'' disableFailover])"

definition coordinatorContainer :: "undermoon \<Rightarrow> container" where
  "coordinatorContainer cr =
    \<lparr>c_Name = coordinatorContainerName,
     c_Image = um_UndermoonImage (um_Spec cr),
     c_ImagePullPolicy = um_UndermoonImagePullPolicy (um_Spec cr),
     c_Command = [''coordinator''], c_Args = [],
     c_Env = coordinatorEnv cr @ um_CoordinatorEnvVar (um_Spec cr),
     c_Resources = um_CoordinatorResources (um_Spec cr),
     c_PreStop = None, c_ReadinessProbe = None, c_WorkingDir = [],
     c_VolumeMounts = [], c_VolumeDevices = []\<rparr>"

definition createCoordinatorStatefulSet :: "undermoon \<Rightarrow> statefulSet \<times> undermoon" where
  "createCoordinatorStatefulSet cr =
    (let ls = serviceLabels undermoonServiceTypeCoordinator cr;
         container = coordinatorContainer cr;
         (aff, crAff) =
           addAntiAffinity (um_Affinity (um_Spec cr)) ls (um_Namespace cr) coordinatorTopologyKey;
         podSpec = \<lparr>ps_TerminationGracePeriodSeconds = None,
           ps_Containers = [container],
           ps_Affinity = Some aff,
           ps_NodeSelector = um_NodeSelector (um_Spec cr),
           ps_ImagePullSecrets = um_ImagePullSecrets (um_Spec cr),
           ps_SchedulerName = um_SchedulerName (um_Spec cr),
           ps_Tolerations = um_Tolerations (um_Spec cr),
           ps_Volumes = []\<rparr>
     in (\<lparr>ss_Meta = new_meta (CoordinatorStatefulSetName (um_Name cr)) (um_Namespace cr) ls,
          ss_Spec = \<lparr>ss_Selector = ls,
            ss_ServiceName = CoordinatorServiceName (um_Name cr),
            ss_Replicas = coordinatorNum,
            ss_TemplateLabels = ls,
            ss_Template = podSpec,
            ss_PodManagementPolicy = ''Parallel'',
            ss_VolumeClaimTemplates = []\<rparr>,
          ss_Status = empty_status\<rparr>,
         cr\<lparr>um_Spec := (um_Spec cr)\<lparr>um_Affinity := crAff\<rparr>\<rparr>))"

definition coordinatorStatefulSetChanged :: "env \<Rightarrow> undermoon \<Rightarrow> statefulSet \<Rightarrow> goerror + bool" where
  "coordinatorStatefulSetChanged \<E> cr cur =
    (case containerAt cur 0 of
       None \<Rightarrow> Inl ErrPanic
     | Some container \<Rightarrow> Inr (
         if um_UndermoonImage (um_Spec cr) \<noteq> c_Image container then True
         else if um_UndermoonImagePullPolicy (um_Spec cr) \<noteq> c_ImagePullPolicy container then True
         else if \<not> resourceRequirementsEqual \<E> (um_CoordinatorResources (um_Spec cr)) (c_Resources container)
         then True
         else if envVarListNeedUpdate (c_Env container) (um_CoordinatorEnvVar (um_Spec cr)) then True
         else False))"

definition genCoordinatorFQDN :: "string \<Rightarrow> string \<Rightarrow> string \<Rightarrow> string" where
  "genCoordinatorFQDN podName undermoonName namespace =
    podName @ ''.'' @ CoordinatorServiceName undermoonName @ ''.'' @ namespace @ ''.svc.cluster.local''"

definition genCoordinatorAddressFromName :: "string \<Rightarrow> undermoon \<Rightarrow> string" where
  "genCoordinatorAddressFromName name cr =
    (let host = genCoordinatorFQDN name (um_Name cr) (um_Namespace cr)
     in host @ '':'' @ show_nat coordinatorPort)"

lemma containerAt_coordinator:
  "ss_Spec cur = ss_Spec (fst (createCoordinatorStatefulSet cr)) \<Longrightarrow>
    containerAt cur 0 = Some (coordinatorContainer cr)"
  by (simp add: containerAt_def createCoordinatorStatefulSet_def Let_def split: prod.splits)

lemma coordinatorStatefulSetChanged_fresh:
  assumes "ss_Spec cur = ss_Spec (fst (createCoordinatorStatefulSet cr))"
    and "quantity_refl \<E>" and "wf_resources (um_CoordinatorResources (um_Spec cr))"
  shows "coordinatorStatefulSetChanged \<E> cr cur =
    Inr (\<not> env_consistent (um_CoordinatorEnvVar (um_Spec cr)))"
  using resourceRequirementsEqual_refl [OF assms(2,3)]
  by (simp add: coordinatorStatefulSetChanged_def containerAt_coordinator [OF assms(1)]
      coordinatorContainer_def envVarListNeedUpdate_own)

text \<open>Making the StatefulSet leaves all of the custom resource but its affinity alone.\<close>

lemma createCoordinator_frame:
  "\<exists>aff. snd (createCoordinatorStatefulSet cr) = cr\<lparr>um_Spec := (um_Spec cr)\<lparr>um_Affinity := aff\<rparr>\<rparr>"
  by (auto simp: createCoordinatorStatefulSet_def Let_def split: prod.splits)

lemma coordinatorStatefulSetChanged_frame:
  "coordinatorStatefulSetChanged \<E> (snd (createCoordinatorStatefulSet cr)) cur = coordinatorStatefulSetChanged \<E> cr cur"
proof -
  obtain aff where "snd (createCoordinatorStatefulSet cr) = cr\<lparr>um_Spec := (um_Spec cr)\<lparr>um_Affinity := aff\<rparr>\<rparr>"
    using createCoordinator_frame by blast
  then show ?thesis by (simp add: coordinatorStatefulSetChanged_def Let_def cong: option.case_cong if_cong)
qed

end
