(* ===== verification/Storage.thy ===== *)
theory Storage
  imports Coordinator
begin

section \<open>Objects of the storage pods (controllers/storage.go)\<close>

text \<open>
  A storage pod runs one server proxy and two Redis processes. This theory models the two
  services, the StatefulSet with its containers, hooks, probes and scripts, the test for a
  rolling update, and the names and addresses of the pods.
  \<open>createStorageStatefulSet\<close> also returns the custom resource as \<open>addAntiAffinity\<close> leaves it.
\<close>

definition redisPort1 :: nat where "redisPort1 = 7001"

definition redisPort2 :: nat where "redisPort2 = 7002"

definition redisMaxmemoryPodEnvName :: string where
  "redisMaxmemoryPodEnvName = ''REDIS_MAX_MEMORY''"

definition serverProxyContainerName :: string where
  "serverProxyContainerName = ''server-proxy''"

definition serverProxyActiveRedirectionEnvName :: string where
  "serverProxyActiveRedirectionEnvName = ''UNDERMOON_ACTIVE_REDIRECTION''"

definition serverProxyThreadNumberEnvName :: string where
  "serverProxyThreadNumberEnvName = ''UNDERMOON_THREAD_NUMBER''"

definition redisContainerName :: string where
  "redisContainerName = ''redis''"

definition undermoonServiceTypeStorage :: string where
  "undermoonServiceTypeStorage = ''storage''"

definition storageTopologyKey :: string where
  "storageTopologyKey = ''undermoon-storage-topology-key''"

definition redisReplicationOffsetThreshold :: nat where
  "redisReplicationOffsetThreshold = 10000"

definition serverProxyShutdownTime :: nat where
  "serverProxyShutdownTime = 30"

subsection \<open>Names and addresses\<close>

definition StorageServiceName :: "string \<Rightarrow> string" where
  "StorageServiceName undermoonName = undermoonName @ ''-stg-svc''"

definition StoragePublicServiceName :: "string \<Rightarrow> string" where
  "StoragePublicServiceName undermoonName = undermoonName"

definition StorageStatefulSetName :: "string \<Rightarrow> string" where
  "StorageStatefulSetName undermoonName = undermoonName @ ''-stg-ss''"

definition storageStatefulSetPodName :: "string \<Rightarrow> nat \<Rightarrow> string" where
  "storageStatefulSetPodName undermoonName index =
    StorageStatefulSetName undermoonName @ ''-'' @ show_nat index"

text \<open>\<open>for i := 0; i != replicas; i++\<close>, with a count that is never negative.\<close>

definition genStorageNames :: "string \<Rightarrow> nat \<Rightarrow> string list" where
  "genStorageNames undermoonName replicas =
    map (storageStatefulSetPodName undermoonName) [0..<replicas]"

definition genStorageFQDN :: "string \<Rightarrow> string \<Rightarrow> string \<Rightarrow> string" where
  "genStorageFQDN podName undermoonName namespace =
    podName @ ''.'' @ StorageServiceName undermoonName @ ''.'' @ namespace @ ''.svc.cluster.local''"

definition genStorageFQDNFromName :: "string \<Rightarrow> undermoon \<Rightarrow> string" where
  "genStorageFQDNFromName name cr = genStorageFQDN name (um_Name cr) (um_Namespace cr)"

definition genStorageAddressFromName :: "string \<Rightarrow> undermoon \<Rightarrow> string" where
  "genStorageAddressFromName name cr =
    genStorageFQDNFromName name cr @ '':'' @ show_nat (unat (um_Port (um_Spec cr)))"

definition genStorageStatefulSetAddrs :: "undermoon \<Rightarrow> string list" where
  "genStorageStatefulSetAddrs cr =
    (let replicaNum = int_of_u32 (um_ChunkNumber (um_Spec cr)) * chunkShardNumber
     in map (\<lambda>name. genStorageAddressFromName name cr) (genStorageNames (um_Name cr) (nat replicaNum)))"

subsection \<open>Services\<close>

definition createStorageService :: "undermoon \<Rightarrow> service" where
  "createStorageService cr =
    (let ls = serviceLabels undermoonServiceTypeStorage cr in
     \<lparr>sv_Meta = new_meta (StorageServiceName (um_Name cr)) (um_Namespace cr) ls,
      sv_Ports = [\<lparr>sp_Name = ''server-proxy-port'', sp_Port = um_Port (um_Spec cr), sp_Protocol = ''TCP''\<rparr>],
      sv_ClusterIP = ''None'', sv_Selector = ls, sv_PublishNotReadyAddresses = True\<rparr>)"

definition createStoragePublicService :: "undermoon \<Rightarrow> service" where
  "createStoragePublicService cr =
    (let ls = serviceLabels undermoonServiceTypeStorage cr in
     \<lparr>sv_Meta = new_meta (StoragePublicServiceName (um_Name cr)) (um_Namespace cr) ls,
      sv_Ports = [\<lparr>sp_Name = ''server-proxy-public-port'', sp_Port = um_Port (um_Spec cr), sp_Protocol = ''TCP''\<rparr>],
      sv_ClusterIP = [], sv_Selector = ls, sv_PublishNotReadyAddresses = False\<rparr>)"

subsection \<open>Scripts\<close>

text \<open>
  The shell scripts, line by line; the operator passes them on as text. A Go raw string that
  starts after its opening quote with a line break is each line with a line feed before it,
  and one at the end.
\<close>

definition script :: "string list \<Rightarrow> string" where
  "script ls = concat (map (\<lambda>l. CHR 0x0A # l) ls) @ [CHR 0x0A]"

definition serverProxyRunScript :: "string \<Rightarrow> string" where
  \<open>serverProxyRunScript announceAddress = script
    [''#!/bin/sh'',
     ''trap 'echo "server-proxy received sigterm"' TERM;'',
     ''UNDERMOON_ANNOUNCE_ADDRESS="'' @ announceAddress @ ''" server_proxy;'',
     ''echo 'server-proxy wait some time to prevent preStop hook to be killed';'',
     ''sleep 3;'']\<close>

definition serverProxyPreStopScript :: "nat \<Rightarrow> string \<Rightarrow> string \<Rightarrow> string" where
  \<open>serverProxyPreStopScript shutdownTime brokerAddress serverProxyAddress = script
    [''#!/bin/sh'',
     ''set +e;'',
     ''i=0;'',
     ''while [ "${i}" -ne '' @ show_nat shutdownTime @ '' ]; do'',
     [CHR 0x09] @ ''status=$(curl -sS --connect-timeout 3 -XPOST "http://'' @ brokerAddress @
       ''/api/v2/proxies/failover/'' @ serverProxyAddress @
       ''" -o /dev/stderr -w "%{http_code}");'',
     [CHR 0x09] @ ''echo "failover status code: ${status}";'',
     [CHR 0x09] @ ''if [ "${status}" -eq '200' ]; then'',
     [CHR 0x09] @ [CHR 0x09] @ ''break;'',
     [CHR 0x09] @ ''fi;'',
     [CHR 0x09] @ ''i=$((i + 1));'',
     [CHR 0x09] @ ''sleep 1;'',
     ''done;'',
     ''echo 'shutting down server-proxy';'',
     ''printf '*2'' @ [CHR 0x5C] @ ''r'' @ [CHR 0x5C] @ ''n$5'' @ [CHR 0x5C] @ ''r'' @ [CHR 0x5C] @ ''nUMCTL'' @ [CHR 0x5C] @ ''r'' @ [CHR 0x5C] @ ''n$8'' @ [CHR 0x5C] @ ''r'' @ [CHR 0x5C] @ ''nSHUTDOWN'' @ [CHR 0x5C] @ ''r'' @ [CHR 0x5C] @ ''n' | curl telnet://127.0.0.1:5299;'',
     ''echo 'proxy killed';'',
     ''exit 0;'']\<close>

definition redisReadinessScript :: string where
  \<open>redisReadinessScript = script
    [''#!/bin/sh'',
     ''set +e;'',
     ''TAG_FILE="${0}";'',
     ''PORT="${1}";'',
     ''OFFSET_THRESHOLD="${2}";'',
     [],
     ''tag_file_dir=$(dirname "${TAG_FILE}");'',
     ''mkdir -p "${tag_file_dir}";'',
     ''if test -f "${TAG_FILE}"; then'',
     ''    echo "${TAG_FILE} exists";'',
     ''    exit 0;'',
     ''fi;'',
     [],
     ''repl_info=$(redis-cli -h localhost -p "${PORT}" INFO REPLICATION);'',
     ''role=$(echo "${repl_info}" | grep 'role:' | cut -d':' -f2 | tr -d '' @ [CHR 0x27] @ [CHR 0x5C] @ ''r' );'',
     ''echo "role: ${role}";'',
     [],
     ''if [ "${role}" = 'master' ]; then'',
     ''    echo "role: ${role}. Create tag file ${TAG_FILE}";'',
     ''    touch "${TAG_FILE}";'',
     ''    exit 0;'',
     ''fi;'',
     [],
     ''slave_repl_offset=$(echo "${repl_info}" | grep 'master_repl_offset:' | cut -d':' -f2 | tr -d '' @ [CHR 0x27] @ [CHR 0x5C] @ ''r');'',
     ''if [ "${slave_repl_offset}" -eq 0 ]; then'',
     ''    echo "Zero slave_repl_offset. The replica still cannot connect to its master.";'',
     ''    exit 1;'',
     ''fi;'',
     [],
     ''master_host=$(echo "${repl_info}" | grep 'master_host:' | cut -d':' -f2 | tr -d '' @ [CHR 0x27] @ [CHR 0x5C] @ ''r');'',
     ''master_port=$(echo "${repl_info}" | grep 'master_port:' | cut -d':' -f2 | tr -d '' @ [CHR 0x27] @ [CHR 0x5C] @ ''r');'',
     ''echo "master: ${master_host} ${master_port}";'',
     [],
     ''if [ "${master_port}" -eq 0 ]; then'',
     ''    echo "Zero master port. The role is not set yet.";'',
     ''    exit 1;'',
     ''fi;'',
     [],
     ''master_repl_info=$(redis-cli -h "${master_host}" -p "${master_port}" INFO REPLICATION);'',
     ''master_repl_offset=$(echo "${master_repl_info}" | grep 'master_repl_offset:' | cut -d':' -f2 | tr -d '' @ [CHR 0x27] @ [CHR 0x5C] @ ''r');'',
     ''echo "master_repl_offset: ${master_repl_offset} slave_repl_offset: ${slave_repl_offset}";'',
     ''offset=$((master_repl_offset - slave_repl_offset));'',
     ''echo "offset: ${offset}";'',
     [],
     ''if [ "${master_repl_offset}" -gt 0 ] && [ "${offset}" -ge 0 ] && [ "${offset}" -lt "${OFFSET_THRESHOLD}" ]; then'',
     ''    echo "Replication is done. Create tag file ${TAG_FILE}";'',
     ''    touch "${TAG_FILE}";'',
     ''    exit 0;'',
     ''fi;'',
     [],
     ''echo "replica pending on replication";'',
     ''exit 1;'']\<close>

subsection \<open>Probes, hooks and containers\<close>

definition genServerProxyPreStopHook :: "string \<Rightarrow> string \<Rightarrow> string \<Rightarrow> string list option" where
  "genServerProxyPreStopHook undermoonName namespace serverProxyAddress =
    (let brokerAddress = genBrokerPublicFQDN undermoonName namespace @ '':'' @ show_nat brokerPort;
         scr = serverProxyPreStopScript serverProxyShutdownTime brokerAddress serverProxyAddress
     in genPreStopHookLifeCycle [''sh'', ''-c'', scr])"

definition genRedisReadinessProbe :: "nat \<Rightarrow> nat \<Rightarrow> probe" where
  "genRedisReadinessProbe port offsetThreshold =
    \<lparr>pr_Command = [''sh'', ''-c'', redisReadinessScript, ''/redis-state/redis-ready'',
       show_nat port, show_nat offsetThreshold],
     pr_TimeoutSeconds = 3, pr_PeriodSeconds = 5, pr_SuccessThreshold = 1, pr_FailureThreshold = 1\<rparr>"

text \<open>
  The command is a Go string literal with escapes: \<open>\r\n\<close> are the two control characters.
\<close>

definition genServerProxyReadinessProbe :: "u32 \<Rightarrow> probe" where
  \<open>genServerProxyReadinessProbe serverProxyPort =
    (let crlf = [CHR 0x0D, CHR 0x0A];
         checkCmd = ''[ "$(exec 5<>/dev/tcp/localhost/'' @ show_nat (unat serverProxyPort) @
           ''; printf '*2'' @ crlf @ ''$5'' @ crlf @ ''UMCTL'' @ crlf @ ''$5'' @ crlf @ ''READY'' @ crlf @
           [CHR 0x27] @ '' >&5; head -c 4 <&5 | head -c 2)" == ':1' ]''
     in \<lparr>pr_Command = [''bash'', ''-c'', checkCmd],
         pr_TimeoutSeconds = 0, pr_PeriodSeconds = 1, pr_SuccessThreshold = 1, pr_FailureThreshold = 1\<rparr>)\<close>

definition redisEnv :: "u32 \<Rightarrow> envVar list" where
  "redisEnv maxMemory = [podIPEnv, value_env redisMaxmemoryPodEnvName (show_nat (unat maxMemory))]"

definition genRedisContainer :: "nat \<Rightarrow> string \<Rightarrow> u32 \<Rightarrow> nat \<Rightarrow> undermoon \<Rightarrow> container" where
  "genRedisContainer index redisImage maxMemory port cr =
    (let portStr = show_nat port in
    \<lparr>c_Name = redisContainerName @ ''-'' @ show_nat index,
     c_Image = redisImage,
     c_ImagePullPolicy = ''IfNotPresent'',
     c_Command = [''redis-server''],
     c_Args = [''--maxmemory'', ''$('' @ redisMaxmemoryPodEnvName @ '')MB'',
       ''--port'', portStr, ''--slave-announce-port'', portStr,
       ''--slave-announce-ip'', podIPEnvStr, ''--maxmemory-policy'', ''allkeys-lru'',
       ''--slaveof'', ''localhost'', ''0''],
     c_Env = redisEnv maxMemory @ um_RedisEnvVar (um_Spec cr),
     c_Resources = um_RedisResources (um_Spec cr),
     c_PreStop = genPreStopHookLifeCycle [''sleep'', ''30''],
     c_ReadinessProbe = Some (genRedisReadinessProbe port redisReplicationOffsetThreshold),
     c_WorkingDir = ''/data/'' @ show_nat index,
     c_VolumeMounts = um_RedisVolumeMounts (um_Spec cr),
     c_VolumeDevices = um_RedisVolumeDevices (um_Spec cr)\<rparr>)"

definition serverProxyEnv :: "undermoon \<Rightarrow> envVar list" where
  "serverProxyEnv cr =
    [podNameEnv,
     value_env ''RUST_LOG'' ''undermoon=info,server_proxy=info'',
     value_env ''UNDERMOON_ADDRESS'' (''0.0.0.0:'' @ show_nat (unat (um_Port (um_Spec cr)))),
     value_env ''UNDERMOON_AUTO_SELECT_CLUSTER'' ''true'',
     value_env ''UNDERMOON_SLOWLOG_LEN'' ''1024'',
     value_env ''UNDERMOON_SLOWLOG_LOG_SLOWER_THAN'' ''10000'',
     value_env ''UNDERMOON_SLOWLOG_SAMPLE_RATE'' ''1000'',
     value_env ''UNDERMOON_SESSION_CHANNEL_SIZE'' ''4096'',
     value_env ''UNDERMOON_BACKEND_CHANNEL_SIZE'' ''4096'',
     value_env ''UNDERMOON_BACKEND_BATCH_MIN_TIME'' ''20000'',
     value_env ''UNDERMOON_BACKEND_BATCH_MAX_TIME'' ''400000'',
     value_env ''UNDERMOON_SESSION_BATCH_MIN_TIME'' ''20000'',
     value_env ''UNDERMOON_SESSION_BATCH_MAX_TIME'' ''400000'',
     value_env serverProxyActiveRedirectionEnvName (show_bool (um_ActiveRedirection (um_Spec cr))),
     value_env ''UNDERMOON_DEFAULT_REDIRECTION_ADDRESS''
       (genStorageAddressFromName (storageStatefulSetPodName (um_Name cr) 0) cr),
     value_env serverProxyThreadNumberEnvName (show_nat (unat (um_ProxyThreads (um_Spec cr)))),
     value_env ''UNDERMOON_BACKEND_BATCH_STRATEGY'' ''disabled'']"

definition serverProxyContainer :: "undermoon \<Rightarrow> container" where
  "serverProxyContainer cr =
    (let portStr = show_nat (unat (um_Port (um_Spec cr)));
         serverProxyAddress = genStorageFQDNFromName podNameStr cr @ '':'' @ portStr;
         serverProxyAddressEnv = genStorageFQDNFromName podNameEnvStr cr @ '':'' @ portStr in
    \<lparr>c_Name = serverProxyContainerName,
     c_Image = um_UndermoonImage (um_Spec cr),
     c_ImagePullPolicy = um_UndermoonImagePullPolicy (um_Spec cr),
     c_Command = [''sh'', ''-c'', serverProxyRunScript serverProxyAddress], c_Args = [],
     c_Env = serverProxyEnv cr @ um_ProxyEnvVar (um_Spec cr),
     c_Resources = um_ProxyResources (um_Spec cr),
     c_PreStop = genServerProxyPreStopHook (um_Name cr) (um_Namespace cr) serverProxyAddressEnv,
     c_ReadinessProbe = Some (genServerProxyReadinessProbe (um_Port (um_Spec cr))),
     c_WorkingDir = [], c_VolumeMounts = [], c_VolumeDevices = []\<rparr>)"

subsection \<open>The StatefulSet\<close>

definition createStorageStatefulSet :: "undermoon \<Rightarrow> statefulSet \<times> undermoon" where
  "createStorageStatefulSet cr =
    (let ls = serviceLabels undermoonServiceTypeStorage cr;
         redisContainer1 = genRedisContainer 1 (um_RedisImage (um_Spec cr)) (um_MaxMemory (um_Spec cr)) redisPort1 cr;
         redisContainer2 = genRedisContainer 2 (um_RedisImage (um_Spec cr)) (um_MaxMemory (um_Spec cr)) redisPort2 cr;
         (aff, crAff) =
           addAntiAffinity (um_Affinity (um_Spec cr)) ls (um_Namespace cr) storageTopologyKey;
         podSpec = \<lparr>ps_TerminationGracePeriodSeconds = Some (int serverProxyShutdownTime),
           ps_Containers = [serverProxyContainer cr, redisContainer1, redisContainer2],
           ps_Affinity = Some aff,
           ps_NodeSelector = um_NodeSelector (um_Spec cr),
           ps_ImagePullSecrets = um_ImagePullSecrets (um_Spec cr),
           ps_SchedulerName = um_SchedulerName (um_Spec cr),
           ps_Tolerations = um_Tolerations (um_Spec cr),
           ps_Volumes = um_StorageVolumes (um_Spec cr)\<rparr>;
         replicaNum = int32_of_int (int_of_u32 (um_ChunkNumber (um_Spec cr)) * chunkShardNumber)
     in (\<lparr>ss_Meta = new_meta (StorageStatefulSetName (um_Name cr)) (um_Namespace cr) ls,
          ss_Spec = \<lparr>ss_Selector = ls,
            ss_ServiceName = StorageServiceName (um_Name cr),
            ss_Replicas = replicaNum,
            ss_TemplateLabels = ls,
            ss_Template = podSpec,
            ss_PodManagementPolicy = ''Parallel'',
            ss_VolumeClaimTemplates = um_VolumeClaimTemplates (um_Spec cr)\<rparr>,
          ss_Status = empty_status\<rparr>,
         cr\<lparr>um_Spec := (um_Spec cr)\<lparr>um_Affinity := crAff\<rparr>\<rparr>))"

definition storageStatefulSetChanged :: "env \<Rightarrow> undermoon \<Rightarrow> statefulSet \<Rightarrow> goerror + bool" where
  "storageStatefulSetChanged \<E> cr cur =
    (case (containerAt cur 0, containerAt cur 1, containerAt cur 2) of
       (Some proxyC, Some redis1C, Some redis2C) \<Rightarrow>
         (let spec = um_Spec cr;
              redis1ResourceChanged = (\<not> resourceRequirementsEqual \<E> (um_RedisResources spec) (c_Resources redis1C));
              redis2ResourceChanged = (\<not> resourceRequirementsEqual \<E> (um_RedisResources spec) (c_Resources redis2C));
              redis1Maxmemory = getEnvValue (c_Env redis1C) redisMaxmemoryPodEnvName;
              redis2Maxmemory = getEnvValue (c_Env redis2C) redisMaxmemoryPodEnvName;
              specMaxmemory = show_nat (unat (um_MaxMemory spec));
              activeRedirection = getEnvValue (c_Env proxyC) serverProxyActiveRedirectionEnvName;
              threadNumber = getEnvValue (c_Env proxyC) serverProxyThreadNumberEnvName
          in Inr (
            if um_UndermoonImage spec \<noteq> c_Image proxyC then True
            else if um_UndermoonImagePullPolicy spec \<noteq> c_ImagePullPolicy proxyC then True
            else if um_RedisImage spec \<noteq> c_Image redis1C \<or> um_RedisImage spec \<noteq> c_Image redis2C then True
            else if \<not> resourceRequirementsEqual \<E> (um_ProxyResources spec) (c_Resources proxyC) then True
            else if redis1ResourceChanged \<or> redis2ResourceChanged then True
            else if specMaxmemory \<noteq> redis1Maxmemory \<or> specMaxmemory \<noteq> redis2Maxmemory then True
            else if show_bool (um_ActiveRedirection spec) \<noteq> activeRedirection then True
            else if show_nat (unat (um_ProxyThreads spec)) \<noteq> threadNumber then True
            else if envVarListNeedUpdate (c_Env proxyC) (um_ProxyEnvVar spec) then True
            else if envVarListNeedUpdate (c_Env redis1C) (um_RedisEnvVar spec) then True
            else if envVarListNeedUpdate (c_Env redis2C) (um_RedisEnvVar spec) then True
            else False))
     | _ \<Rightarrow> Inl ErrPanic)"

subsection \<open>Facts about the objects\<close>

lemma storage_containers:
  assumes "ss_Spec cur = ss_Spec (fst (createStorageStatefulSet cr))"
  shows "containerAt cur 0 = Some (serverProxyContainer cr)"
    and "containerAt cur 1 = Some (genRedisContainer 1 (um_RedisImage (um_Spec cr))
           (um_MaxMemory (um_Spec cr)) redisPort1 cr)"
    and "containerAt cur 2 = Some (genRedisContainer 2 (um_RedisImage (um_Spec cr))
           (um_MaxMemory (um_Spec cr)) redisPort2 cr)"
  using assms by (simp_all add: containerAt_def createStorageStatefulSet_def Let_def split: prod.splits)

lemma storage_env_values:
  "getEnvValue (c_Env (genRedisContainer i img mm port cr)) redisMaxmemoryPodEnvName = show_nat (unat mm)"
  "getEnvValue (c_Env (serverProxyContainer cr)) serverProxyActiveRedirectionEnvName =
     show_bool (um_ActiveRedirection (um_Spec cr))"
  "getEnvValue (c_Env (serverProxyContainer cr)) serverProxyThreadNumberEnvName =
     show_nat (unat (um_ProxyThreads (um_Spec cr)))"
  by (simp_all add: genRedisContainer_def redisEnv_def podIPEnv_def redisMaxmemoryPodEnvName_def
      serverProxyContainer_def serverProxyEnv_def podNameEnv_def Let_def
      serverProxyActiveRedirectionEnvName_def serverProxyThreadNumberEnvName_def)

text \<open>
  As for the brokers: right after a rolling update there is nothing left to update, exactly
  when the user's lists of variables are consistent.
\<close>

lemma storageStatefulSetChanged_fresh:
  assumes "ss_Spec cur = ss_Spec (fst (createStorageStatefulSet cr))"
    and "quantity_refl \<E>" and "wf_resources (um_ProxyResources (um_Spec cr))"
    and "wf_resources (um_RedisResources (um_Spec cr))"
  shows "storageStatefulSetChanged \<E> cr cur =
    Inr (\<not> (env_consistent (um_ProxyEnvVar (um_Spec cr)) \<and> env_consistent (um_RedisEnvVar (um_Spec cr))))"
  using resourceRequirementsEqual_refl [OF assms(2,3)] resourceRequirementsEqual_refl [OF assms(2,4)]
  by (simp only: storageStatefulSetChanged_def storage_containers [OF assms(1)] storage_env_values
      Let_def prod.case option.case)
    (simp add: serverProxyContainer_def genRedisContainer_def Let_def envVarListNeedUpdate_own)

text \<open>Different pods of one StatefulSet have different names.\<close>

lemma storageStatefulSetPodName_inject [simp]:
  "storageStatefulSetPodName u i = storageStatefulSetPodName u j \<longleftrightarrow> i = j"
  by (simp add: storageStatefulSetPodName_def)

lemma distinct_genStorageNames: "distinct (genStorageNames u n)"
  by (simp add: genStorageNames_def distinct_map inj_on_def)

lemma length_genStorageStatefulSetAddrs:
  "length (genStorageStatefulSetAddrs cr) = 2 * unat (um_ChunkNumber (um_Spec cr))"
  by (simp add: genStorageStatefulSetAddrs_def genStorageNames_def chunkShardNumber_def
      int_of_u32_def Let_def nat_mult_distrib mult.commute)

lemma genStorageAddressFromName_inject [simp]:
  "genStorageAddressFromName a cr = genStorageAddressFromName b cr \<longleftrightarrow> a = b"
  by (simp add: genStorageAddressFromName_def genStorageFQDNFromName_def genStorageFQDN_def)

lemma distinct_genStorageStatefulSetAddrs: "distinct (genStorageStatefulSetAddrs cr)"
  by (simp add: genStorageStatefulSetAddrs_def Let_def distinct_map distinct_genStorageNames inj_on_def)

text \<open>Making the StatefulSet leaves all of the custom resource but its affinity alone.\<close>

lemma createStorage_frame:
  "\<exists>aff. snd (createStorageStatefulSet cr) = cr\<lparr>um_Spec := (um_Spec cr)\<lparr>um_Affinity := aff\<rparr>\<rparr>"
  by (auto simp: createStorageStatefulSet_def Let_def split: prod.splits)

lemma storageStatefulSetChanged_frame:
  "storageStatefulSetChanged \<E> (snd (createStorageStatefulSet cr)) cur = storageStatefulSetChanged \<E> cr cur"
proof -
  obtain aff where "snd (createStorageStatefulSet cr) = cr\<lparr>um_Spec := (um_Spec cr)\<lparr>um_Affinity := aff\<rparr>\<rparr>"
    using createStorage_frame by blast
  then show ?thesis by (simp add: storageStatefulSetChanged_def Let_def cong: option.case_cong if_cong)
qed

text \<open>
  C39: The addresses of the storage pods, which protect proxies from being deregistered, are
  two per chunk and pairwise different.
\<close>

theorem storage_addresses:
  "length (genStorageStatefulSetAddrs cr) = 2 * unat (um_ChunkNumber (um_Spec cr)) \<and>
    distinct (genStorageStatefulSetAddrs cr)"
  by (simp add: length_genStorageStatefulSetAddrs distinct_genStorageStatefulSetAddrs)

end
