(* ===== verification/Broker_Client.thy ===== *)
theory Broker_Client
  imports Utils
begin

section \<open>The HTTP client of the brokers (controllers/broker_client.go)\<close>

text \<open>
  One operation per broker request. Each builds the request, sends it and turns the response
  into a value or an error: a \<open>decode_\<close> function holds the second half, which depends only on
  the response, and the operation composes it with the call.
  \<open>errorIs res code\<close> is the code's \<open>response, ok := res.Error().( *errorResponse)\<close> followed by
  \<open>ok && response.Error == code\<close>.
\<close>

definition errStrAlreadyExists :: string where "errStrAlreadyExists = ''ALREADY_EXISTED''"

definition errStrMigrationRunning :: string where "errStrMigrationRunning = ''MIGRATION_RUNNING''"

definition errStrNoAvailableResource :: string where
  "errStrNoAvailableResource = ''NO_AVAILABLE_RESOURCE''"

definition errStrFreeNodeFound :: string where "errStrFreeNodeFound = ''FREE_NODE_FOUND''"

definition errStrFreeNodeNotFound :: string where "errStrFreeNodeNotFound = ''FREE_NODE_NOT_FOUND''"

definition errStrRetry :: string where "errStrRetry = ''RETRY''"

definition errStrExternalTimeout :: string where "errStrExternalTimeout = ''EXTERNAL_TIMEOUT''"

definition errStrProxyResourceOutOfOrder :: string where
  "errStrProxyResourceOutOfOrder = ''PROXY_RESOURCE_OUT_OF_ORDER''"

lemmas err_strs = errStrAlreadyExists_def errStrMigrationRunning_def errStrNoAvailableResource_def
  errStrFreeNodeFound_def errStrFreeNodeNotFound_def errStrRetry_def errStrExternalTimeout_def
  errStrProxyResourceOutOfOrder_def

definition errorIs :: "http_response \<Rightarrow> string \<Rightarrow> bool" where
  "errorIs res code \<longleftrightarrow> rs_error res = Some code"

definition statusMsg :: "string \<Rightarrow> http_response \<Rightarrow> goerror" where
  "statusMsg what res = ErrMsg (what @ '': invalid status code '' @ show_int (rs_status res))"

definition statusBodyMsg :: "string \<Rightarrow> http_response \<Rightarrow> goerror" where
  "statusBodyMsg what res =
    ErrMsg (what @ '': invalid status code '' @ show_int (rs_status res) @ '': '' @ rs_body res)"

text \<open>\<open>fmt.Sprintf("http://%s/api/%s/...", address, client.apiVersion)\<close>\<close>

definition apiUrl :: "string \<Rightarrow> string \<Rightarrow> string \<Rightarrow> string" where
  "apiUrl address apiVersion path = ''http://'' @ address @ ''/api/'' @ apiVersion @ ''/'' @ path"

definition request :: "http_method \<Rightarrow> string \<Rightarrow> payload \<Rightarrow> http_request" where
  "request m url body = \<lparr>rq_method = m, rq_url = url, rq_body = body\<rparr>"

subsection \<open>Responses\<close>

definition decode_getReplicaAddresses :: "http_response \<Rightarrow> goerror + string list" where
  "decode_getReplicaAddresses res =
    (if rs_status res = 504 \<and> errorIs res errStrExternalTimeout then Inl ErrExternalTimeout
     else if rs_status res \<noteq> 200
     then Inl (statusMsg ''Failed to get replica addresses from broker'' res)
     else (case rs_result res of
             BrokerConfigPayload addresses \<Rightarrow> Inr addresses
           | _ \<Rightarrow> Inl (ErrMsg (''Failed to get replica addresses from broker: invalid response payload ''
                     @ rs_body res))))"

definition decode_getEpoch :: "http_response \<Rightarrow> goerror + int" where
  "decode_getEpoch res =
    (if rs_status res = 504 \<and> errorIs res errStrExternalTimeout then Inl ErrExternalTimeout
     else if rs_status res \<noteq> 200 then Inl (statusMsg ''Failed to get broker epoch'' res)
     else (case parseInt64 (rs_body res) of
             (epoch, None) \<Rightarrow> Inr epoch
           | (epoch, Some e) \<Rightarrow> Inl (ErrMsg (''Invalid epoch from broker: '' @ rs_body res))))"

definition decode_getServerProxies :: "http_response \<Rightarrow> goerror + string list" where
  "decode_getServerProxies res =
    (if rs_status res = 504 \<and> errorIs res errStrExternalTimeout then Inl ErrExternalTimeout
     else if rs_status res \<noteq> 200 then Inl (statusBodyMsg ''Failed to register server proxy'' res)
     else (case rs_result res of QueryServerProxyResponse addresses \<Rightarrow> Inr addresses | _ \<Rightarrow> Inl ErrPanic))"

definition decode_setBrokerReplicas :: "http_response \<Rightarrow> goerror + unit" where
  "decode_setBrokerReplicas res =
    (if rs_status res = 504 \<and> errorIs res errStrExternalTimeout then Inl ErrExternalTimeout
     else if rs_status res = 409 \<and> errorIs res errStrRetry then Inl ErrRetryReconciliation
     else if rs_status res \<noteq> 200 then Inl (statusBodyMsg ''Failed to register server proxy'' res)
     else Inr ())"

definition decode_registerServerProxy :: "http_response \<Rightarrow> goerror + unit" where
  "decode_registerServerProxy res =
    (if rs_status res = 504 \<and> errorIs res errStrExternalTimeout then Inl ErrExternalTimeout
     else if rs_status res = 409 \<and> errorIs res errStrRetry then Inl ErrRetryReconciliation
     else if rs_status res \<noteq> 200 \<and> rs_status res \<noteq> 409
     then Inl (statusBodyMsg ''Failed to register server proxy'' res)
     else Inr ())"

definition decode_deregisterServerProxy :: "http_response \<Rightarrow> goerror + unit" where
  "decode_deregisterServerProxy res =
    (if rs_status res = 504 \<and> errorIs res errStrExternalTimeout then Inl ErrExternalTimeout
     else if rs_status res = 409 \<and> errorIs res errStrRetry then Inl ErrRetryReconciliation
     else if rs_status res \<noteq> 200 \<and> rs_status res \<noteq> 404
     then Inl (statusBodyMsg ''Failed to deregister server proxy'' res)
     else Inr ())"

definition decode_createCluster :: "http_response \<Rightarrow> goerror + unit" where
  "decode_createCluster res =
    (if rs_status res = 200 then Inr ()
     else if rs_status res = 504 \<and> errorIs res errStrExternalTimeout then Inl ErrExternalTimeout
     else if rs_status res = 409 \<and> errorIs res errStrNoAvailableResource then Inl ErrRetryReconciliation
     else if rs_status res = 409 \<and> errorIs res errStrAlreadyExists then Inr ()
     else if rs_status res = 409 \<and> errorIs res errStrRetry then Inl ErrRetryReconciliation
     else Inl (statusBodyMsg ''Failed to register server proxy'' res))"

definition decode_clusterExists :: "string \<Rightarrow> http_response \<Rightarrow> goerror + bool" where
  "decode_clusterExists clusterName res =
    (if rs_status res = 504 \<and> errorIs res errStrExternalTimeout then Inl ErrExternalTimeout
     else if rs_status res \<noteq> 200 then Inl (statusBodyMsg ''Failed to register server proxy'' res)
     else (case rs_result res of
             QueryClusterNamesPayload names \<Rightarrow> Inr (list_ex (\<lambda>name. name = clusterName) names)
           | _ \<Rightarrow> Inl (ErrMsg (''Failed to get cluster names: invalid response payload '' @ rs_body res))))"

definition decode_scaleNodes :: "http_response \<Rightarrow> goerror + unit" where
  "decode_scaleNodes res =
    (let conflict = (rs_status res = 409 \<or> rs_status res = 400) in
     if rs_status res = 200 then Inr ()
     else if rs_status res = 504 \<and> errorIs res errStrExternalTimeout then Inl ErrExternalTimeout
     else if conflict \<and> errorIs res errStrMigrationRunning then Inl ErrMigrationRunning
     else if conflict \<and> errorIs res errStrFreeNodeFound then Inl ErrFreeNodeFound
     else if conflict \<and> errorIs res errStrRetry then Inl ErrRetryReconciliation
     else if conflict \<and> errorIs res errStrProxyResourceOutOfOrder then Inl ErrProxyResourceOutOfOrder
     else Inl (statusBodyMsg ''Failed to change node number'' res))"

definition decode_removeFreeNodes :: "http_response \<Rightarrow> goerror + unit" where
  "decode_removeFreeNodes res =
    (let conflict = (rs_status res = 404 \<or> rs_status res = 409) in
     if rs_status res = 200 then Inr ()
     else if rs_status res = 504 \<and> errorIs res errStrExternalTimeout then Inl ErrExternalTimeout
     else if conflict \<and> errorIs res errStrMigrationRunning then Inl ErrMigrationRunning
     else if conflict \<and> errorIs res errStrFreeNodeNotFound then Inr ()
     else if conflict \<and> errorIs res errStrRetry then Inl ErrRetryReconciliation
     else Inl (statusBodyMsg ''Failed to remove free nodes'' res))"

definition decode_getClusterInfo :: "http_response \<Rightarrow> goerror + clusterInfo" where
  "decode_getClusterInfo res =
    (if rs_status res = 200
     then (case rs_result res of
             ClusterInfoPayload info \<Rightarrow> Inr info
           | _ \<Rightarrow> Inl (ErrMsg (''failed to get cluster info, invalid content '' @ rs_body res)))
     else if rs_status res = 504 \<and> errorIs res errStrExternalTimeout then Inl ErrExternalTimeout
     else (case (rs_status res = 404, rs_error res) of
             (True, Some code) \<Rightarrow> Inl (ErrMsg (''cluster info not found, error code '' @ code))
           | _ \<Rightarrow> Inl (statusBodyMsg ''Failed to get cluster info'' res)))"

definition decode_changeClusterConfig :: "http_response \<Rightarrow> goerror + unit" where
  "decode_changeClusterConfig res =
    (if rs_status res = 200 then Inr ()
     else if rs_status res = 504 \<and> errorIs res errStrExternalTimeout then Inl ErrExternalTimeout
     else (case (rs_status res = 404, rs_error res) of
             (True, Some code) \<Rightarrow> Inl (ErrMsg (''cluster not found, error code '' @ code))
           | _ \<Rightarrow>
             if rs_status res = 409 \<and> errorIs res errStrRetry then Inl ErrRetryReconciliation
             else if rs_status res = 409 \<and> errorIs res errStrMigrationRunning then Inl ErrMigrationRunning
             else Inl (statusBodyMsg ''Failed to update cluster config'' res)))"

subsection \<open>Operations\<close>

definition newServerProxyMeta :: "string \<Rightarrow> string \<Rightarrow> u32 \<Rightarrow> int \<Rightarrow> serverProxyMeta" where
  "newServerProxyMeta podHost nodeIP serverProxyPort index =
    \<lparr>sp_ProxyAddress = podHost @ '':'' @ show_nat (unat serverProxyPort),
     sp_RedisAddresses = (podHost @ '':7001'', podHost @ '':7002''),
     sp_Host = nodeIP, sp_Index = index\<rparr>"

definition send :: "env \<Rightarrow> http_request \<Rightarrow> (http_response \<Rightarrow> goerror + 'a) \<Rightarrow> 'a op" where
  "send \<E> rq decode = bindE (http_call \<E> rq) (\<lambda>res. liftE (decode res))"

definition bc_getReplicaAddresses :: "env \<Rightarrow> string \<Rightarrow> string \<Rightarrow> string list op" where
  "bc_getReplicaAddresses \<E> apiVersion address =
    send \<E> (request GET (apiUrl address apiVersion ''config'') NoBody) decode_getReplicaAddresses"

definition bc_getEpoch :: "env \<Rightarrow> string \<Rightarrow> string \<Rightarrow> int op" where
  "bc_getEpoch \<E> apiVersion address =
    send \<E> (request GET (apiUrl address apiVersion ''epoch'') NoBody) decode_getEpoch"

definition bc_getServerProxies :: "env \<Rightarrow> string \<Rightarrow> string \<Rightarrow> string list op" where
  "bc_getServerProxies \<E> apiVersion address =
    send \<E> (request GET (apiUrl address apiVersion ''proxies/addresses'') NoBody) decode_getServerProxies"

definition bc_setBrokerReplicas :: "env \<Rightarrow> string \<Rightarrow> string \<Rightarrow> string list \<Rightarrow> unit op" where
  "bc_setBrokerReplicas \<E> apiVersion address replicaAddresses =
    send \<E> (request PUT (apiUrl address apiVersion ''config'') (BrokerConfigPayload replicaAddresses))
      decode_setBrokerReplicas"

definition bc_registerServerProxy :: "env \<Rightarrow> string \<Rightarrow> string \<Rightarrow> serverProxyMeta \<Rightarrow> unit op" where
  "bc_registerServerProxy \<E> apiVersion address proxy =
    send \<E> (request POST (apiUrl address apiVersion ''proxies/meta'') (ServerProxyPayload proxy))
      decode_registerServerProxy"

definition bc_deregisterServerProxy :: "env \<Rightarrow> string \<Rightarrow> string \<Rightarrow> string \<Rightarrow> unit op" where
  "bc_deregisterServerProxy \<E> apiVersion address proxyAddress =
    send \<E> (request DELETE (apiUrl address apiVersion (''proxies/meta/'' @ proxyAddress)) NoBody)
      decode_deregisterServerProxy"

definition bc_createCluster :: "env \<Rightarrow> string \<Rightarrow> string \<Rightarrow> string \<Rightarrow> int \<Rightarrow> unit op" where
  "bc_createCluster \<E> apiVersion address clusterName chunkNumber =
    send \<E> (request POST (apiUrl address apiVersion (''clusters/meta/'' @ clusterName))
             (CreateClusterPayload (chunkNumber * chunkNodeNumber)))
      decode_createCluster"

definition bc_clusterExists :: "env \<Rightarrow> string \<Rightarrow> string \<Rightarrow> string \<Rightarrow> bool op" where
  "bc_clusterExists \<E> apiVersion address clusterName =
    send \<E> (request GET (apiUrl address apiVersion ''clusters/names'') NoBody)
      (decode_clusterExists clusterName)"

definition scaleNodesUrl :: "string \<Rightarrow> string \<Rightarrow> string \<Rightarrow> int \<Rightarrow> string" where
  "scaleNodesUrl apiVersion address clusterName chunkNumber =
    apiUrl address apiVersion
      (''clusters/migrations/auto/'' @ clusterName @ ''/'' @ show_int (chunkNumber * chunkNodeNumber))"

definition bc_scaleNodes :: "env \<Rightarrow> string \<Rightarrow> string \<Rightarrow> string \<Rightarrow> int \<Rightarrow> unit op" where
  "bc_scaleNodes \<E> apiVersion address clusterName chunkNumber =
    send \<E> (request POST (scaleNodesUrl apiVersion address clusterName chunkNumber) NoBody)
      decode_scaleNodes"

definition bc_removeFreeNodes :: "env \<Rightarrow> string \<Rightarrow> string \<Rightarrow> string \<Rightarrow> unit op" where
  "bc_removeFreeNodes \<E> apiVersion address clusterName =
    send \<E> (request DELETE (apiUrl address apiVersion (''clusters/free_nodes/'' @ clusterName)) NoBody)
      decode_removeFreeNodes"

definition bc_getClusterInfo :: "env \<Rightarrow> string \<Rightarrow> string \<Rightarrow> string \<Rightarrow> clusterInfo op" where
  "bc_getClusterInfo \<E> apiVersion address clusterName =
    send \<E> (request GET (apiUrl address apiVersion (''clusters/info/'' @ clusterName)) NoBody)
      decode_getClusterInfo"

definition bc_changeClusterConfig :: "env \<Rightarrow> string \<Rightarrow> string \<Rightarrow> string \<Rightarrow> u32 \<Rightarrow> u32 \<Rightarrow> unit op" where
  "bc_changeClusterConfig \<E> apiVersion address clusterName scanInterval scanCount =
    send \<E> (request PATCH (apiUrl address apiVersion (''clusters/config/'' @ clusterName))
             (ClusterConfigPayload (show_nat (unat scanInterval)) (show_nat (unat scanCount))))
      decode_changeClusterConfig"

subsection \<open>The contract the operations share\<close>

text \<open>
  Every operation treats the broker's error codes alike: a timeout of the external storage is
  \<open>ErrExternalTimeout\<close>, and a success means the broker answered with one of the statuses
  the operation accepts. A mutating operation also turns \<open>RETRY\<close> into a retry.
\<close>

locale broker_decoder =
  fixes decode :: "http_response \<Rightarrow> goerror + 'a"
    and accepts :: "http_response \<Rightarrow> bool"
  assumes timeout: "rs_status res = 504 \<Longrightarrow> errorIs res errStrExternalTimeout \<Longrightarrow>
      decode res = Inl ErrExternalTimeout"
    and accepted: "decode res = Inr x \<Longrightarrow> accepts res"
    and no_api_error: "decode res \<noteq> Inl (ErrApi a)"
begin

lemma send_Inr:
  assumes "send \<E> rq decode s = (Inr x, t)"
  shows "\<exists>res. env_http \<E> (w_trace s) rq = Inr res \<and> accepts res \<and> decode res = Inr x \<and>
    w_trace t = w_trace s @ [EvHttp rq (Inr res)] \<and> w_cr t = w_cr s"
  using assms
  by (cases "env_http \<E> (w_trace s) rq")
    (auto simp: send_def bindE_def http_call_def call_def of_text_def Let_def intro: accepted)

lemma send_not_api: "send \<E> rq decode s \<noteq> (Inl (ErrApi a), t)"
  using no_api_error
  by (cases "env_http \<E> (w_trace s) rq")
    (auto simp: send_def bindE_def http_call_def call_def of_text_def Let_def)

end

locale broker_mutator = broker_decoder +
  assumes retry: "rs_status res = 409 \<Longrightarrow> errorIs res errStrRetry \<Longrightarrow>
      decode res = Inl ErrRetryReconciliation"
begin

lemma send_retry:
  "env_http \<E> (w_trace s) rq = Inr res \<Longrightarrow> rs_status res = 409 \<Longrightarrow> errorIs res errStrRetry \<Longrightarrow>
    fst (send \<E> rq decode s) = Inl ErrRetryReconciliation"
  by (simp add: send_def bindE_def http_call_def call_def of_text_def Let_def retry)

end

abbreviation ok200 :: "http_response \<Rightarrow> bool" where
  "ok200 res \<equiv> rs_status res = 200"

interpretation getReplicaAddresses: broker_decoder decode_getReplicaAddresses ok200
  by unfold_locales
    (auto simp: decode_getReplicaAddresses_def statusMsg_def split: payload.splits if_splits)

interpretation getEpoch: broker_decoder decode_getEpoch ok200
  by unfold_locales
    (auto simp: decode_getEpoch_def statusMsg_def split: option.splits if_splits prod.splits)

interpretation getServerProxies: broker_decoder decode_getServerProxies ok200
  by unfold_locales
    (auto simp: decode_getServerProxies_def statusBodyMsg_def split: payload.splits if_splits)

interpretation clusterExists: broker_decoder "decode_clusterExists name" ok200
  by unfold_locales
    (auto simp: decode_clusterExists_def statusBodyMsg_def split: payload.splits if_splits)

interpretation getClusterInfo: broker_decoder decode_getClusterInfo ok200
  by unfold_locales
    (auto simp: decode_getClusterInfo_def statusBodyMsg_def
      split: payload.splits if_splits option.splits bool.splits)

interpretation setBrokerReplicas: broker_mutator decode_setBrokerReplicas ok200
  by unfold_locales
    (auto simp: decode_setBrokerReplicas_def statusBodyMsg_def err_strs errorIs_def split: if_splits)

interpretation registerServerProxy: broker_mutator decode_registerServerProxy
    "\<lambda>res. rs_status res = 200 \<or> rs_status res = 409"
  by unfold_locales
    (auto simp: decode_registerServerProxy_def statusBodyMsg_def err_strs errorIs_def split: if_splits)

interpretation deregisterServerProxy: broker_mutator decode_deregisterServerProxy
    "\<lambda>res. rs_status res = 200 \<or> rs_status res = 404"
  by unfold_locales
    (auto simp: decode_deregisterServerProxy_def statusBodyMsg_def err_strs errorIs_def split: if_splits)

interpretation createCluster: broker_mutator decode_createCluster
    "\<lambda>res. rs_status res = 200 \<or> (rs_status res = 409 \<and> errorIs res errStrAlreadyExists)"
  by unfold_locales
    (auto simp: decode_createCluster_def statusBodyMsg_def err_strs errorIs_def split: if_splits)

interpretation scaleNodes: broker_mutator decode_scaleNodes ok200
  by unfold_locales
    (auto simp: decode_scaleNodes_def statusBodyMsg_def err_strs errorIs_def Let_def split: if_splits)

interpretation removeFreeNodes: broker_mutator decode_removeFreeNodes
    "\<lambda>res. rs_status res = 200 \<or>
       ((rs_status res = 404 \<or> rs_status res = 409) \<and> errorIs res errStrFreeNodeNotFound)"
  by unfold_locales
    (auto simp: decode_removeFreeNodes_def statusBodyMsg_def err_strs errorIs_def Let_def split: if_splits)

interpretation changeClusterConfig: broker_mutator decode_changeClusterConfig ok200
  by unfold_locales
    (auto simp: decode_changeClusterConfig_def statusBodyMsg_def err_strs errorIs_def
      split: if_splits option.splits bool.splits)

subsection \<open>Events\<close>

lemma emits_send [emits_intros]: "(\<And>r. P (EvHttp rq r)) \<Longrightarrow> emits P (send \<E> rq decode)"
  unfolding send_def by (intro emits_intros)

lemmas bc_defs = bc_getReplicaAddresses_def bc_getEpoch_def bc_getServerProxies_def
  bc_setBrokerReplicas_def bc_registerServerProxy_def bc_deregisterServerProxy_def
  bc_createCluster_def bc_clusterExists_def bc_scaleNodes_def bc_removeFreeNodes_def
  bc_getClusterInfo_def bc_changeClusterConfig_def

text \<open>The requests that start a migration, in any cluster: a POST below \<open>migrations/auto\<close>.\<close>

lemma send_run:
  "send \<E> rq decode s =
    ((case env_http \<E> (w_trace s) rq of Inl e \<Rightarrow> Inl (ErrMsg e) | Inr res \<Rightarrow> decode res),
     s\<lparr>w_trace := w_trace s @ [EvHttp rq (env_http \<E> (w_trace s) rq)]\<rparr>)"
  by (cases "env_http \<E> (w_trace s) rq")
    (simp_all add: send_def bindE_def http_call_def call_def of_text_def Let_def)

subsection \<open>The property\<close>

text \<open>
  C31: Every operation reports a timeout of the brokers' external storage as
  \<open>errExternalTimeout\<close>, and every operation that changes the brokers' metadata turns the
  conflict code \<open>RETRY\<close> into a retry of the reconciliation.
\<close>

theorem broker_error_codes:
  fixes res_timeout res_retry :: http_response
  assumes "rs_status res_timeout = 504" and "errorIs res_timeout errStrExternalTimeout"
    and "rs_status res_retry = 409" and "errorIs res_retry errStrRetry"
  shows "decode_getReplicaAddresses res_timeout = Inl ErrExternalTimeout \<and>
    decode_getEpoch res_timeout = Inl ErrExternalTimeout \<and>
    decode_getServerProxies res_timeout = Inl ErrExternalTimeout \<and>
    decode_clusterExists name res_timeout = Inl ErrExternalTimeout \<and>
    decode_getClusterInfo res_timeout = Inl ErrExternalTimeout \<and>
    decode_setBrokerReplicas res_timeout = Inl ErrExternalTimeout \<and>
    decode_registerServerProxy res_timeout = Inl ErrExternalTimeout \<and>
    decode_deregisterServerProxy res_timeout = Inl ErrExternalTimeout \<and>
    decode_createCluster res_timeout = Inl ErrExternalTimeout \<and>
    decode_scaleNodes res_timeout = Inl ErrExternalTimeout \<and>
    decode_removeFreeNodes res_timeout = Inl ErrExternalTimeout \<and>
    decode_changeClusterConfig res_timeout = Inl ErrExternalTimeout \<and>
    decode_setBrokerReplicas res_retry = Inl ErrRetryReconciliation \<and>
    decode_registerServerProxy res_retry = Inl ErrRetryReconciliation \<and>
    decode_deregisterServerProxy res_retry = Inl ErrRetryReconciliation \<and>
    decode_createCluster res_retry = Inl ErrRetryReconciliation \<and>
    decode_scaleNodes res_retry = Inl ErrRetryReconciliation \<and>
    decode_removeFreeNodes res_retry = Inl ErrRetryReconciliation \<and>
    decode_changeClusterConfig res_retry = Inl ErrRetryReconciliation"
  using assms
  by (simp add: getReplicaAddresses.timeout getEpoch.timeout getServerProxies.timeout clusterExists.timeout
      getClusterInfo.timeout setBrokerReplicas.timeout registerServerProxy.timeout
      deregisterServerProxy.timeout createCluster.timeout scaleNodes.timeout removeFreeNodes.timeout
      changeClusterConfig.timeout setBrokerReplicas.retry registerServerProxy.retry
      deregisterServerProxy.retry createCluster.retry scaleNodes.retry removeFreeNodes.retry
      changeClusterConfig.retry)

theorem broker_error_codes_witness:
  "decode_scaleNodes \<lparr>rs_status = 409, rs_body = [], rs_result = NoBody, rs_error = Some ''RETRY''\<rparr> =
    Inl ErrRetryReconciliation"
  using broker_error_codes [of "\<lparr>rs_status = 504, rs_body = [], rs_result = NoBody, rs_error = Some ''EXTERNAL_TIMEOUT''\<rparr>"
      "\<lparr>rs_status = 409, rs_body = [], rs_result = NoBody, rs_error = Some ''RETRY''\<rparr>" "[]"]
  by (simp add: errorIs_def err_strs)

end
