(* ===== verification/Rolling.thy ===== *)
theory Rolling
  imports Utils
begin

section \<open>Getting, creating and updating objects\<close>

text \<open>
  The three controllers repeat two pieces of code for every kind of object: look the object
  up and create it when it is missing, and overwrite the spec of a StatefulSet. They are
  modelled once here and instantiated by the controllers' own functions.
  \<open>rolling_component\<close> is the contract between the two functions a component gives to the
  rolling update: what \<open>create\<close> writes, \<open>changed\<close> accepts.
\<close>

text \<open>
  \<open>err = Get(...); if IsNotFound(err) { err = Create(...); ... } else if err != nil ...\<close>.
  On success the client decodes the server's answer into the object, so the created object is
  the one the server returned.
\<close>

definition getOrCreate :: "'a op \<Rightarrow> 'a op \<Rightarrow> 'a op" where
  "getOrCreate get create =
    tryE get (\<lambda>r. case r of
        Inl e \<Rightarrow> if IsNotFound e then create else throwE e
      | Inr found \<Rightarrow> returnE found)"

text \<open>\<open>controllerutil.SetControllerReference(cr, object, scheme)\<close> on the object's metadata.\<close>

definition setOwner :: "env \<Rightarrow> undermoon \<Rightarrow> objectMeta \<Rightarrow> objectMeta op" where
  "setOwner \<E> cr m = liftE (of_text (env_set_controller_reference \<E> cr m))"

definition getOrCreateService :: "env \<Rightarrow> undermoon \<Rightarrow> service \<Rightarrow> service op" where
  "getOrCreateService \<E> cr sv0 =
    bindE (setOwner \<E> cr (sv_Meta sv0)) (\<lambda>m.
      let sv = sv0\<lparr>sv_Meta := m\<rparr> in
      getOrCreate (k8s_get_service \<E> (om_Name m) (om_Namespace m)) (k8s_create_service \<E> sv))"

definition getOrCreateStatefulSet :: "env \<Rightarrow> undermoon \<Rightarrow> statefulSet \<Rightarrow> statefulSet op" where
  "getOrCreateStatefulSet \<E> cr ss0 =
    bindE (setOwner \<E> cr (ss_Meta ss0)) (\<lambda>m.
      let ss = ss0\<lparr>ss_Meta := m\<rparr> in
      getOrCreate (k8s_get_statefulset \<E> (om_Name m) (om_Namespace m)) (k8s_create_statefulset \<E> ss))"

text \<open>
  \<open>client.Update\<close> guarded by the check of the resource version; a conflict asks for a retry.
  \<open>msg\<close> is the text of the error for an empty version, which each caller words differently.
\<close>

definition updateStatefulSet :: "env \<Rightarrow> string \<Rightarrow> statefulSet \<Rightarrow> statefulSet op" where
  "updateStatefulSet \<E> msg ss =
    (if om_ResourceVersion (ss_Meta ss) = [] then throwE (ErrMsg msg)
     else tryE (k8s_update_statefulset \<E> ss) (\<lambda>r. case r of
         Inl e \<Rightarrow> if IsConflict e then throwE ErrRetryReconciliation else throwE e
       | Inr ss' \<Rightarrow> returnE ss'))"

definition rollStatefulSet ::
  "env \<Rightarrow> string \<Rightarrow> (undermoon \<Rightarrow> statefulSet \<times> undermoon) \<Rightarrow> statefulSet \<Rightarrow> statefulSet op" where
  "rollStatefulSet \<E> what create ss =
    bindE get_cr (\<lambda>cr.
      let (new, cr') = create cr in
      bindE (put_cr cr') (\<lambda>_. 
        updateStatefulSet \<E> (''Empty ResourceVersion when updating '' @ what @ '': '' @ um_Name cr')
          (ss\<lparr>ss_Spec := ss_Spec new\<rparr>)))"

text \<open>Looking up or creating a StatefulSet made from the current custom resource.\<close>

definition ensureStatefulSet ::
  "env \<Rightarrow> (undermoon \<Rightarrow> statefulSet \<times> undermoon) \<Rightarrow> statefulSet op" where
  "ensureStatefulSet \<E> create =
    bindE get_cr (\<lambda>cr.
      let (ss, cr') = create cr in
      bindE (put_cr cr') (\<lambda>_. getOrCreateStatefulSet \<E> cr' ss))"

subsection \<open>The contract of a component under rolling update\<close>

locale rolling_component =
  fixes create :: "undermoon \<Rightarrow> statefulSet \<times> undermoon"
    and changed :: "undermoon \<Rightarrow> statefulSet \<Rightarrow> goerror + bool"
    and settled :: "undermoon \<Rightarrow> bool"
  assumes changed_fresh: "settled cr \<Longrightarrow> ss_Spec cur = ss_Spec (fst (create cr)) \<Longrightarrow>
      changed cr cur = Inr False"
    and changed_frame: "changed (snd (create cr)) cur = changed cr cur"
begin

text \<open>
  A successful rolling update whose spec the API server stored leaves nothing to update: the
  check with the custom resource as the update left it answers no.
\<close>

lemma roll_settles:
  assumes "rollStatefulSet \<E> what create ss s = (Inr ss', t)"
    and "settled (w_cr s)"
    and "ss_Spec ss' = ss_Spec (fst (create (w_cr s)))"
  shows "changed (w_cr t) ss' = Inr False"
proof -
  obtain new cr' where c: "create (w_cr s) = (new, cr')" by (cases "create (w_cr s)")
  have "w_cr t = cr'"
    using assms(1) c
    by (auto simp: rollStatefulSet_def get_cr_def put_cr_def bindE_def updateStatefulSet_def tryE_def
        k8s_update_statefulset_def call_def Let_def split: if_splits sum.splits prod.splits)
  then show ?thesis
    using changed_frame [of "w_cr s" ss'] changed_fresh [OF assms(2,3)] c by simp
qed

end

subsection \<open>Facts about the shared code\<close>

lemma updateStatefulSet_Inr:
  "updateStatefulSet \<E> msg ss s = (Inr ss', t) \<longleftrightarrow>
    om_ResourceVersion (ss_Meta ss) \<noteq> [] \<and> env_update_statefulset \<E> (w_trace s) ss = Inr ss' \<and>
    t = s\<lparr>w_trace := w_trace s @ [EvUpdateStatefulSet ss (Inr ss')]\<rparr>"
  by (cases "env_update_statefulset \<E> (w_trace s) ss")
    (auto simp: updateStatefulSet_def tryE_def k8s_update_statefulset_def call_def of_api_def
      Let_def IsConflict_def)

lemma emits_getOrCreate [emits_intros]:
  "emits P get \<Longrightarrow> emits P create \<Longrightarrow> emits P (getOrCreate get create)"
  unfolding getOrCreate_def by (intro emits_intros)

lemma emits_setOwner [emits_intros]: "emits P (setOwner \<E> cr m)"
  unfolding setOwner_def by (intro emits_intros)

lemma emits_getOrCreateService [emits_intros]:
  "(\<And>n ns r. P (EvGetService n ns r)) \<Longrightarrow> (\<And>sv r. P (EvCreateService sv r)) \<Longrightarrow>
    emits P (getOrCreateService \<E> cr sv)"
  unfolding getOrCreateService_def by (intro emits_intros)

lemma emits_getOrCreateStatefulSet [emits_intros]:
  "(\<And>n ns r. P (EvGetStatefulSet n ns r)) \<Longrightarrow> (\<And>ss r. P (EvCreateStatefulSet ss r)) \<Longrightarrow>
    emits P (getOrCreateStatefulSet \<E> cr ss)"
  unfolding getOrCreateStatefulSet_def by (intro emits_intros)

lemma emits_updateStatefulSet [emits_intros]:
  "(\<And>r. P (EvUpdateStatefulSet ss r)) \<Longrightarrow> emits P (updateStatefulSet \<E> msg ss)"
  unfolding updateStatefulSet_def by (intro emits_intros)

lemma emits_rollStatefulSet [emits_intros]:
  "(\<And>ss r. P (EvUpdateStatefulSet ss r)) \<Longrightarrow> emits P (rollStatefulSet \<E> what create ss)"
  unfolding rollStatefulSet_def by (intro emits_intros)

lemma emits_ensureStatefulSet [emits_intros]:
  "(\<And>n ns r. P (EvGetStatefulSet n ns r)) \<Longrightarrow> (\<And>ss r. P (EvCreateStatefulSet ss r)) \<Longrightarrow>
    emits P (ensureStatefulSet \<E> create)"
  unfolding ensureStatefulSet_def by (intro emits_intros)

text \<open>
  The race the guards are for: the object is missing, another writer creates it first, and the
  second round finds it. The guard then returns the other writer's object.
\<close>

lemma guard_lost_race:
  assumes "get s = (Inl (ErrApi NotFound), s1)" and "create s1 = (Inl (ErrApi AlreadyExists), s2)"
    and "get s2 = (Inr found, s3)"
  shows "createGuardLoop (Suc (Suc n)) err (getOrCreate get create) s = (Inr found, s3)"
  using assms by (simp add: getOrCreate_def tryE_def IsNotFound_def IsAlreadyExists_def)

text \<open>Any other error ends the guard at once and is returned unchanged.\<close>

lemma guard_other_error:
  assumes "f s = (Inl e, t)" and "\<not> IsAlreadyExists e"
  shows "createGuardLoop (Suc n) err f s = (Inl e, t)"
  using assms by (simp add: tryE_def)

lemma guard_success:
  "f s = (Inr x, t) \<Longrightarrow> createGuardLoop (Suc n) err f s = (Inr x, t)"
  by (simp add: tryE_def)

subsection \<open>Where the objects come from\<close>

text \<open>The StatefulSet was answered by the API server.\<close>

definition sts_seen :: "statefulSet \<Rightarrow> trace \<Rightarrow> bool" where
  "sts_seen ss tr \<longleftrightarrow> (\<exists>n ns x. EvGetStatefulSet n ns (Inr ss) \<in> set tr \<or>
     EvCreateStatefulSet x (Inr ss) \<in> set tr \<or> EvUpdateStatefulSet x (Inr ss) \<in> set tr)"

lemma sts_seen_append [simp]: "sts_seen ss (xs @ ys) \<longleftrightarrow> sts_seen ss xs \<or> sts_seen ss ys"
  by (auto simp: sts_seen_def)

lemma lasting_sts_seen: "lasting (sts_seen ss)"
  by (simp add: lasting_def)

lemma getOrCreateStatefulSet_seen:
  "getOrCreateStatefulSet \<E> cr ss s = (Inr ss', t) \<Longrightarrow> sts_seen ss' (new_events s t)"
  by (auto simp: getOrCreateStatefulSet_def getOrCreate_def bindE_eq_Inr tryE_def setOwner_def
      k8s_get_statefulset_def k8s_create_statefulset_def call_def of_api_def Let_def new_events_def
      map_sum_def sts_seen_def split: sum.splits if_splits)

lemma ensureStatefulSet_seen:
  assumes "ensureStatefulSet \<E> create s = (Inr ss', t)"
  shows "sts_seen ss' (new_events s t)"
proof -
  obtain ss cr' where c: "create (w_cr s) = (ss, cr')" by fastforce
  then have "getOrCreateStatefulSet \<E> cr' ss (s\<lparr>w_cr := cr'\<rparr>) = (Inr ss', t)"
    using assms by (simp add: ensureStatefulSet_def bindE_def get_cr_def put_cr_def)
  from getOrCreateStatefulSet_seen [OF this] show ?thesis by (simp add: new_events_def)
qed

lemma createGuardLoop_seen:
  assumes "emits P f" and "\<And>s x t. f s = (Inr x, t) \<Longrightarrow> sts_seen x (new_events s t)"
  shows "createGuardLoop n err f s = (Inr x, t) \<Longrightarrow> sts_seen x (new_events s t)"
proof (induction n arbitrary: err s)
  case 0
  then show ?case by simp
next
  case (Suc n)
  obtain r u where fr: "f s = (r, u)" by (cases "f s")
  show ?case
  proof (cases r)
    case (Inr y)
    then show ?thesis using Suc.prems fr assms(2) by (simp add: tryE_def)
  next
    case (Inl e)
    then have run: "createGuardLoop n e f u = (Inr x, t)"
      using Suc.prems fr by (auto simp: tryE_def split: if_splits)
    have "new_events s t = new_events s u @ new_events u t"
      using emits_trace_mono [OF assms(1) fr]
        emits_trace_mono [OF emits_createGuardLoop [OF assms(1)] run] by (rule new_events_trans)
    then show ?thesis using Suc.IH [OF run] by simp
  qed
qed

lemma guarded_ensure_seen:
  assumes "createStatefulSetGuard (ensureStatefulSet \<E> create) s = (Inr ss, t)"
  shows "sts_seen ss (new_events s t)"
proof -
  have "emits (\<lambda>_. True) (ensureStatefulSet \<E> create)" by (intro emits_intros TrueI)
  then show ?thesis
    using assms createGuardLoop_seen ensureStatefulSet_seen unfolding createStatefulSetGuard_def by blast
qed

subsection \<open>The property\<close>

text \<open>
  The race the guards are for: the StatefulSet is missing, another writer creates it between
  the lookup and the creation, and the guard then returns the object of the other writer.
\<close>

theorem lost_creation_race:
  fixes ss :: statefulSet and s :: world
  defines "name \<equiv> om_Name (ss_Meta ss)" and "ns \<equiv> om_Namespace (ss_Meta ss)"
  defines "e1 \<equiv> EvGetStatefulSet name ns (Inl NotFound)" and "e2 \<equiv> EvCreateStatefulSet ss (Inl AlreadyExists)"
  assumes owner: "env_set_controller_reference \<E> cr (ss_Meta ss) = Inr (ss_Meta ss)"
    and get1: "env_get_statefulset \<E> (w_trace s) name ns = Inl NotFound"
    and create: "env_create_statefulset \<E> (w_trace s @ [e1]) ss = Inl AlreadyExists"
    and get2: "env_get_statefulset \<E> (w_trace s @ [e1, e2]) name ns = Inr found"
  shows "createStatefulSetGuard (getOrCreateStatefulSet \<E> cr ss) s =
    (Inr found, s\<lparr>w_trace := w_trace s @ [e1, e2, EvGetStatefulSet name ns (Inr found)]\<rparr>)"
proof -
  let ?s1 = "s\<lparr>w_trace := w_trace s @ [e1]\<rparr>" and ?s2 = "s\<lparr>w_trace := w_trace s @ [e1, e2]\<rparr>"
  let ?s3 = "s\<lparr>w_trace := w_trace s @ [e1, e2, EvGetStatefulSet name ns (Inr found)]\<rparr>"
  have body: "getOrCreateStatefulSet \<E> cr ss =
      getOrCreate (k8s_get_statefulset \<E> name ns) (k8s_create_statefulset \<E> ss)"
    using owner by (auto simp: getOrCreateStatefulSet_def setOwner_def of_text_def bindE_def name_def ns_def)
  have "k8s_get_statefulset \<E> name ns s = (Inl (ErrApi NotFound), ?s1)"
    using get1 by (simp add: k8s_get_statefulset_def call_def of_api_def e1_def)
  moreover have "k8s_create_statefulset \<E> ss ?s1 = (Inl (ErrApi AlreadyExists), ?s2)"
    using create by (simp add: k8s_create_statefulset_def call_def of_api_def e2_def)
  moreover have "k8s_get_statefulset \<E> name ns ?s2 = (Inr found, ?s3)"
    using get2 by (simp add: k8s_get_statefulset_def call_def of_api_def)
  ultimately show ?thesis
    unfolding createStatefulSetGuard_def body eval_nat_numeral by (rule guard_lost_race)
qed

definition race_sts :: "string \<Rightarrow> statefulSet" where
  "race_sts version =
    \<lparr>ss_Meta = (new_meta ''um-bk-ss'' ''default'' [])\<lparr>om_ResourceVersion := version\<rparr>,
     ss_Spec = \<lparr>ss_Selector = [], ss_ServiceName = [], ss_Replicas = 2, ss_TemplateLabels = [],
       ss_Template = \<lparr>ps_TerminationGracePeriodSeconds = None, ps_Containers = [], ps_Affinity = None,
         ps_NodeSelector = [], ps_ImagePullSecrets = [], ps_SchedulerName = [], ps_Tolerations = [],
         ps_Volumes = []\<rparr>,
       ss_PodManagementPolicy = [], ss_VolumeClaimTemplates = []\<rparr>,
     ss_Status = empty_status\<rparr>"

text \<open>An API server on which another writer creates the object after the first lookup.\<close>

definition race_env :: env where
  "race_env = sample_env
    \<lparr>env_get_statefulset := (\<lambda>tr n ns. if tr = [] then Inl NotFound else Inr (race_sts ''7'')),
     env_create_statefulset := (\<lambda>tr x. Inl AlreadyExists)\<rparr>"

theorem lost_creation_race_witness:
  "fst (createStatefulSetGuard (getOrCreateStatefulSet race_env sample_cr (race_sts [])) sample_world) =
    Inr (race_sts ''7'')"
  by (subst lost_creation_race [where found = "race_sts ''7''"])
    (simp_all add: race_env_def sample_env_def sample_world_def)

end
