(* ===== verification/Meta_Controller.thy ===== *)
theory Meta_Controller
  imports Meta Storage Broker_Client Rolling
begin

section \<open>The metadata controller (controllers/meta_controller.go)\<close>

text \<open>
  Keeps the master broker's metadata in line with the resource: the replicas, the registry of
  server proxies, the cluster, its configuration and its size; and implements the external
  store the brokers save their metadata in: a ConfigMap updated by compare-and-swap on its
  resource version. \<open>v\<close> is the API version of the broker client; \<open>master\<close> is the address of the
  master broker.
\<close>

subsection \<open>The brokers' metadata\<close>

definition setBrokerReplicas :: "env \<Rightarrow> string \<Rightarrow> string \<Rightarrow> string list \<Rightarrow> unit op" where
  "setBrokerReplicas \<E> v master replicaAddresses =
    bindE (bc_setBrokerReplicas \<E> v master replicaAddresses) (\<lambda>_.
      foreachE (\<lambda>replicaAddress. bc_setBrokerReplicas \<E> v replicaAddress []) replicaAddresses)"

text \<open>Only \<open>errRetryReconciliation\<close> ends the loops; other errors are logged.\<close>

definition orLog :: "unit op \<Rightarrow> unit op" where
  "orLog m = tryE m (\<lambda>r. case r of
      Inl e \<Rightarrow> if e = ErrRetryReconciliation then throwE e else returnE ()
    | Inr _ \<Rightarrow> returnE ())"

definition registerServerProxies :: "env \<Rightarrow> string \<Rightarrow> string \<Rightarrow> serverProxyMeta list \<Rightarrow> unit op" where
  "registerServerProxies \<E> v master proxies =
    foreachE (\<lambda>proxy. orLog (bc_registerServerProxy \<E> v master proxy)) proxies"

definition keepSet :: "undermoon \<Rightarrow> serverProxyMeta list \<Rightarrow> string set" where
  "keepSet cr proxies = set (genStorageStatefulSetAddrs cr) \<union> set (map sp_ProxyAddress proxies)"

definition deregisterServerProxies :: "env \<Rightarrow> string \<Rightarrow> string \<Rightarrow> serverProxyMeta list \<Rightarrow> unit op" where
  "deregisterServerProxies \<E> v master proxies =
    bindE (bc_getServerProxies \<E> v master) (\<lambda>existingProxies. bindE get_cr (\<lambda>cr.
      let deleteList = filter (\<lambda>a. a \<notin> keepSet cr proxies) existingProxies in
      foreachE (\<lambda>deleteAddress. orLog (bc_deregisterServerProxy \<E> v master deleteAddress)) deleteList))"

definition reconcileServerProxyRegistry ::
  "env \<Rightarrow> string \<Rightarrow> string \<Rightarrow> serverProxyMeta list \<Rightarrow> unit op" where
  "reconcileServerProxyRegistry \<E> v master proxies =
    bindE (registerServerProxies \<E> v master proxies) (\<lambda>_. deregisterServerProxies \<E> v master proxies)"

definition createCluster :: "env \<Rightarrow> string \<Rightarrow> string \<Rightarrow> unit op" where
  "createCluster \<E> v master =
    bindE get_cr (\<lambda>cr.
    bindE (bc_clusterExists \<E> v master (um_ClusterName (um_Spec cr))) (\<lambda>exists.
      if exists then returnE ()
      else bc_createCluster \<E> v master (um_ClusterName (um_Spec cr))
             (int_of_u32 (um_ChunkNumber (um_Spec cr)))))"

definition changeClusterConfig :: "env \<Rightarrow> string \<Rightarrow> string \<Rightarrow> unit op" where
  "changeClusterConfig \<E> v master =
    bindE get_cr (\<lambda>cr.
    tryE (bc_changeClusterConfig \<E> v master (um_ClusterName (um_Spec cr))
           (um_MigrationScanInterval (um_Spec cr)) (um_MigrationScanCount (um_Spec cr))) (\<lambda>r. case r of
        Inl e \<Rightarrow> if e = ErrMigrationRunning then throwE ErrRetryReconciliation else throwE e
      | Inr _ \<Rightarrow> returnE ()))"

definition removeFreeNodesStep :: "env \<Rightarrow> string \<Rightarrow> string \<Rightarrow> string \<Rightarrow> bool \<Rightarrow> unit op" where
  "removeFreeNodesStep \<E> v master clusterName retry =
    tryE (bc_removeFreeNodes \<E> v master clusterName) (\<lambda>r. case r of
        Inl e \<Rightarrow> if e = ErrMigrationRunning then throwE ErrRetryReconciliation else throwE e
      | Inr _ \<Rightarrow> if retry then throwE ErrRetryReconciliation else returnE ())"

text \<open>
  Free nodes of an earlier scaling block \<open>scaleNodes\<close>; they are removed and the scaling is
  tried again in the next pass.
\<close>

definition changeNodeNumber :: "env \<Rightarrow> string \<Rightarrow> string \<Rightarrow> unit op" where
  "changeNodeNumber \<E> v master =
    bindE get_cr (\<lambda>cr.
      let chunkNumber = int_of_u32 (um_ChunkNumber (um_Spec cr));
          clusterName = um_ClusterName (um_Spec cr) in
      tryE (bc_scaleNodes \<E> v master clusterName chunkNumber) (\<lambda>r. case r of
          Inr _ \<Rightarrow> removeFreeNodesStep \<E> v master clusterName False
        | Inl e \<Rightarrow>
            if e = ErrFreeNodeFound then removeFreeNodesStep \<E> v master clusterName True
            else if e = ErrMigrationRunning \<or> e = ErrProxyResourceOutOfOrder
            then throwE ErrRetryReconciliation
            else throwE e))"

definition changeMeta :: "env \<Rightarrow> string \<Rightarrow> string \<Rightarrow> clusterInfo \<Rightarrow> unit op" where
  "changeMeta \<E> v master info =
    (if ci_IsMigrating info then throwE ErrRetryReconciliation
     else tryE (changeNodeNumber \<E> v master) (\<lambda>r. case r of
         Inl e \<Rightarrow> if e = ErrMigrationRunning then throwE ErrRetryReconciliation else throwE e
       | Inr _ \<Rightarrow> returnE ()))"

definition getClusterInfo :: "env \<Rightarrow> string \<Rightarrow> string \<Rightarrow> clusterInfo op" where
  "getClusterInfo \<E> v master =
    bindE get_cr (\<lambda>cr. bc_getClusterInfo \<E> v master (um_ClusterName (um_Spec cr)))"

definition reconcileMeta ::
  "env \<Rightarrow> string \<Rightarrow> string \<Rightarrow> string list \<Rightarrow> serverProxyMeta list \<Rightarrow> bool \<Rightarrow> clusterInfo op" where
  "reconcileMeta \<E> v master replicaAddresses proxies storageReady =
    bindE (setBrokerReplicas \<E> v master replicaAddresses) (\<lambda>_.
    bindE (reconcileServerProxyRegistry \<E> v master proxies) (\<lambda>_.
      if \<not> storageReady then throwE ErrRetryReconciliation
      else bindE (createCluster \<E> v master) (\<lambda>_.
           bindE (changeClusterConfig \<E> v master) (\<lambda>_.
           getClusterInfo \<E> v master))))"

subsection \<open>The ConfigMap and the Secret\<close>

definition getOrCreateConfigMap :: "env \<Rightarrow> configMap op" where
  "getOrCreateConfigMap \<E> =
    bindE (liftE (compressString \<E> ''{}'')) (\<lambda>initData.
    bindE get_cr (\<lambda>cr.
      let configmap = createMetaConfigMap cr initData in
      bindE (setOwner \<E> cr (cm_Meta configmap)) (\<lambda>m.
        getOrCreate (k8s_get_configmap \<E> (om_Name m) (om_Namespace m))
          (k8s_create_configmap \<E> (configmap\<lparr>cm_Meta := m\<rparr>)))))"

definition getOrCreateMetaSecret :: "env \<Rightarrow> secret op" where
  "getOrCreateMetaSecret \<E> =
    bindE (genBrokerPassword \<E>) (\<lambda>password.
    bindE get_cr (\<lambda>cr.
      let sec = createMetaSecret cr password in
      bindE (setOwner \<E> cr (sc_Meta sec)) (\<lambda>m.
        getOrCreate (k8s_get_secret \<E> (om_Name m) (om_Namespace m))
          (k8s_create_secret \<E> (sec\<lparr>sc_Meta := m\<rparr>)))))"

definition createMeta :: "env \<Rightarrow> unit op" where
  "createMeta \<E> =
    bindE (createConfigMapGuard (getOrCreateConfigMap \<E>)) (\<lambda>_.
    bindE (createSecretGuard (getOrCreateMetaSecret \<E>)) (\<lambda>_. returnE ()))"

definition checkMetaSecret :: "env \<Rightarrow> string \<Rightarrow> string \<Rightarrow> string \<Rightarrow> bool op" where
  "checkMetaSecret \<E> undermoonName namespace password =
    tryE (k8s_get_secret \<E> (MetaSecretName undermoonName) namespace) (\<lambda>r. case r of
        Inl e \<Rightarrow> if IsNotFound e then returnE False else throwE e
      | Inr found \<Rightarrow>
          (case map_of (sc_Data found) metaPasswordKey of
             None \<Rightarrow> throwE (ErrMsg ''meta secret is deleted'')
           | Some secretPassword \<Rightarrow> returnE (secretPassword = password)))"

subsection \<open>The external store\<close>

record externalStore =
  es_Version :: string
  es_Store :: json_object

definition getConfigMap :: "env \<Rightarrow> string \<Rightarrow> string \<Rightarrow> configMap op" where
  "getConfigMap \<E> undermoonName namespace =
    k8s_get_configmap \<E> (MetaConfigMapName undermoonName) namespace"

definition decodeStore :: "env \<Rightarrow> configMap \<Rightarrow> goerror + externalStore" where
  "decodeStore \<E> configmap =
    (case map_of (cm_Data configmap) metaStoreKey of
       None \<Rightarrow> Inl (ErrMsg ''configmap is deleted'')
     | Some dat \<Rightarrow>
         (case decompressString \<E> dat of
            Inl e \<Rightarrow> Inl e
          | Inr text \<Rightarrow>
              (case env_json_unmarshal \<E> text of
                 Inl e \<Rightarrow> Inl (ErrMsg e)
               | Inr store \<Rightarrow>
                   Inr \<lparr>es_Version = om_ResourceVersion (cm_Meta configmap), es_Store = store\<rparr>)))"

definition getExternalStore :: "env \<Rightarrow> string \<Rightarrow> string \<Rightarrow> externalStore op" where
  "getExternalStore \<E> undermoonName namespace =
    bindE (getConfigMap \<E> undermoonName namespace) (\<lambda>configmap. liftE (decodeStore \<E> configmap))"

text \<open>
  An object whose data is empty is decoded with a nil map, and the assignment to the key then
  panics. When the store cannot be encoded the function reports success.
\<close>

definition updateExternalStore :: "env \<Rightarrow> string \<Rightarrow> string \<Rightarrow> externalStore \<Rightarrow> unit op" where
  "updateExternalStore \<E> undermoonName namespace store =
    bindE (getConfigMap \<E> undermoonName namespace) (\<lambda>configmap.
      if om_ResourceVersion (cm_Meta configmap) \<noteq> es_Version store then throwE ErrExternalStoreConflict
      else case env_json_marshal \<E> (es_Store store) of
          Inl _ \<Rightarrow> returnE ()
        | Inr dat \<Rightarrow>
            bindE (liftE (compressString \<E> dat)) (\<lambda>compressedData.
              if cm_Data configmap = [] then throwE ErrPanic
              else tryE (k8s_update_configmap \<E>
                     (configmap\<lparr>cm_Data := AList.update metaStoreKey compressedData (cm_Data configmap)\<rparr>))
                   (\<lambda>r. case r of
                       Inl e \<Rightarrow> if IsConflict e then throwE ErrExternalStoreConflict else throwE e
                     | Inr _ \<Rightarrow> returnE ())))"

definition initExternalStore :: "env \<Rightarrow> string \<Rightarrow> string \<Rightarrow> json_object \<Rightarrow> unit op" where
  "initExternalStore \<E> undermoonName namespace store =
    bindE (getExternalStore \<E> undermoonName namespace) (\<lambda>currStore.
      if length (es_Store currStore) \<noteq> 0 then returnE ()
      else updateExternalStore \<E> undermoonName namespace (currStore\<lparr>es_Store := store\<rparr>))"

definition initOrUpdateExternalStore :: "env \<Rightarrow> string \<Rightarrow> string \<Rightarrow> externalStore \<Rightarrow> unit op" where
  "initOrUpdateExternalStore \<E> undermoonName namespace store =
    (if length (es_Version store) = 0
     then initExternalStore \<E> undermoonName namespace (es_Store store)
     else updateExternalStore \<E> undermoonName namespace store)"

subsection \<open>Which requests the operations send\<close>

text \<open>The request that starts a migration, and the one that removes a proxy from the registry.\<close>

definition is_scale_request :: "event \<Rightarrow> bool" where
  "is_scale_request e \<longleftrightarrow>
    (\<exists>v master name n r. e = EvHttp (request POST (scaleNodesUrl v master name n) NoBody) r)"

definition is_deregister :: "string \<Rightarrow> string \<Rightarrow> string \<Rightarrow> event \<Rightarrow> bool" where
  "is_deregister v master a e \<longleftrightarrow>
    (\<exists>r. e = EvHttp (request DELETE (apiUrl master v (''proxies/meta/'' @ a)) NoBody) r)"

lemma is_scale_request_simps [simp]:
  "m \<noteq> POST \<Longrightarrow> \<not> is_scale_request (EvHttp (request m url body) r)"
  "body \<noteq> NoBody \<Longrightarrow> \<not> is_scale_request (EvHttp (request m url body) r)"
  "\<not> is_scale_request (EvGetConfigMap n ns a1)" "\<not> is_scale_request (EvGetSecret n ns a2)"
  "\<not> is_scale_request (EvGetService n ns a3)" "\<not> is_scale_request (EvGetStatefulSet n ns a4)"
  "\<not> is_scale_request (EvGetEndpoints n ns a5)" "\<not> is_scale_request (EvCreateConfigMap cm a6)"
  "\<not> is_scale_request (EvCreateSecret sc a7)" "\<not> is_scale_request (EvCreateService sv a8)"
  "\<not> is_scale_request (EvCreateStatefulSet ss a9)" "\<not> is_scale_request (EvUpdateStatefulSet ss a10)"
  "\<not> is_scale_request (EvPatchMaster cr addr a11)" "\<not> is_scale_request (EvUpdateStatus cr a12)"
  "\<not> is_scale_request (EvNow now)" "\<not> is_scale_request (EvGenPassword a13)"
  "\<not> is_scale_request (EvRedisConfigSet a b a14)" "\<not> is_scale_request (EvGetCR n ns a15)"
  by (auto simp: is_scale_request_def request_def)

lemma emits_orLog [emits_intros]: "emits P m \<Longrightarrow> emits P (orLog m)"
  unfolding orLog_def by (intro emits_intros)

lemma emits_setBrokerReplicas [emits_intros]:
  "(\<And>a x r. P (EvHttp (request PUT (apiUrl a v ''config'') (BrokerConfigPayload x)) r)) \<Longrightarrow>
    emits P (setBrokerReplicas \<E> v master replicas)"
  unfolding setBrokerReplicas_def bc_defs by (intro emits_intros)

lemma emits_registerServerProxies [emits_intros]:
  "(\<And>x r. P (EvHttp (request POST (apiUrl master v ''proxies/meta'') (ServerProxyPayload x)) r)) \<Longrightarrow>
    emits P (registerServerProxies \<E> v master proxies)"
  unfolding registerServerProxies_def bc_defs by (intro emits_intros)

lemma emits_deregisterServerProxies [emits_intros]:
  "(\<And>r. P (EvHttp (request GET (apiUrl master v ''proxies/addresses'') NoBody) r)) \<Longrightarrow>
    (\<And>a r. P (EvHttp (request DELETE (apiUrl master v (''proxies/meta/'' @ a)) NoBody) r)) \<Longrightarrow>
    emits P (deregisterServerProxies \<E> v master proxies)"
  unfolding deregisterServerProxies_def bc_defs by (intro emits_intros)

lemma emits_reconcileServerProxyRegistry [emits_intros]:
  "(\<And>rq r. rq_method rq = POST \<longrightarrow> rq_body rq \<noteq> NoBody \<Longrightarrow> P (EvHttp rq r)) \<Longrightarrow>
    emits P (reconcileServerProxyRegistry \<E> v master proxies)"
  unfolding reconcileServerProxyRegistry_def by (intro emits_intros) (simp_all add: request_def)

lemma emits_reconcileMeta:
  "(\<And>rq r. rq_method rq = POST \<longrightarrow> rq_body rq \<noteq> NoBody \<Longrightarrow> P (EvHttp rq r)) \<Longrightarrow>
    emits P (reconcileMeta \<E> v master replicas proxies ready)"
  unfolding reconcileMeta_def createCluster_def changeClusterConfig_def getClusterInfo_def bc_defs
  by (intro emits_intros) (simp_all add: request_def)

text \<open>A pass over the metadata sends no scaling request and changes no Kubernetes object.\<close>

lemma reconcileMeta_idle: "emits (\<lambda>e. \<not> is_scale_request e) (reconcileMeta \<E> v m rs ps b)"
  by (rule emits_reconcileMeta) (auto simp: is_scale_request_def request_def)

lemma reconcileMeta_http: "emits (\<lambda>e. \<exists>rq r. e = EvHttp rq r) (reconcileMeta \<E> v m rs ps b)"
  by (rule emits_reconcileMeta) blast

lemma changeMeta_http: "emits (\<lambda>e. \<exists>rq r. e = EvHttp rq r) (changeMeta \<E> v m info)"
  unfolding changeMeta_def changeNodeNumber_def removeFreeNodesStep_def bc_defs
  by (intro emits_intros) simp_all

lemma emits_createMeta [emits_intros]:
  "(\<And>n ns r. P (EvGetConfigMap n ns r)) \<Longrightarrow> (\<And>cm r. P (EvCreateConfigMap cm r)) \<Longrightarrow>
    (\<And>n ns r. P (EvGetSecret n ns r)) \<Longrightarrow> (\<And>sc r. P (EvCreateSecret sc r)) \<Longrightarrow>
    (\<And>r. P (EvGenPassword r)) \<Longrightarrow> emits P (createMeta \<E>)"
  unfolding createMeta_def getOrCreateConfigMap_def getOrCreateMetaSecret_def by (intro emits_intros)

subsection \<open>The registry of proxies\<close>

text \<open>
  A proxy is removed only when it is neither an address of the StatefulSet the resource asks
  for nor among the proxies the pass found.
\<close>

lemma is_deregister_simps [simp]:
  "m \<noteq> DELETE \<Longrightarrow> \<not> is_deregister v master a (EvHttp (request m url body) r)"
  by (auto simp: is_deregister_def request_def apiUrl_def)

text \<open>
  C13: \<open>deregisterServerProxies\<close> removes an address from the registry only if the broker listed it in
  this call and it is neither an address of the StatefulSet the resource asks for nor one of the
  proxies the pass found.
\<close>

theorem deregister_not_kept:
  assumes "deregisterServerProxies \<E> v master proxies s = (r, t)"
    and "e \<in> set (new_events s t)" and "is_deregister v master a e"
  shows "a \<notin> keepSet (w_cr s) proxies \<and>
    (\<exists>res. EvHttp (request GET (apiUrl master v ''proxies/addresses'') NoBody) (Inr res) \<in> set (new_events s t) \<and>
      (\<exists>as. rs_result res = QueryServerProxyResponse as \<and> a \<in> set as))"
proof -
  let ?get = "bc_getServerProxies \<E> v master"
  let ?loop = "\<lambda>as. foreachE (\<lambda>a. orLog (bc_deregisterServerProxy \<E> v master a))
      (filter (\<lambda>a. a \<notin> keepSet (w_cr s) proxies) as)"
  obtain q u where q: "?get s = (q, u)" by fastforce
  have ev: "w_trace u = w_trace s @ [EvHttp (request GET (apiUrl master v ''proxies/addresses'') NoBody)
      (env_http \<E> (w_trace s) (request GET (apiUrl master v ''proxies/addresses'') NoBody))]"
    and cr: "w_cr u = w_cr s"
    using q by (auto simp: bc_getServerProxies_def send_run)
  show ?thesis
  proof (cases q)
    case (Inl x)
    then have "t = u" using assms(1) q by (simp add: deregisterServerProxies_def bindE_def)
    then have "e = EvHttp (request GET (apiUrl master v ''proxies/addresses'') NoBody)
        (env_http \<E> (w_trace s) (request GET (apiUrl master v ''proxies/addresses'') NoBody))"
      using assms(2) ev by (simp add: new_events_def)
    then show ?thesis using assms(3) by simp
  next
    case (Inr as)
    have run: "?loop as u = (r, t)"
      using assms(1) q Inr cr by (simp add: deregisterServerProxies_def bindE_def get_cr_def)
    have "emits (\<lambda>e. \<forall>a. is_deregister v master a e \<longrightarrow> a \<in> set as \<and> a \<notin> keepSet (w_cr s) proxies) (?loop as)"
      unfolding bc_defs by (intro emits_intros) (auto simp: is_deregister_def request_def apiUrl_def)
    from emitsE [OF this run] obtain new where new: "w_trace t = w_trace u @ new"
      "\<forall>e \<in> set new. \<forall>a. is_deregister v master a e \<longrightarrow> a \<in> set as \<and> a \<notin> keepSet (w_cr s) proxies" .
    have e: "e \<in> set new" using assms(2,3) new(1) ev by (auto simp: new_events_def)
    obtain res where "env_http \<E> (w_trace s) (request GET (apiUrl master v ''proxies/addresses'') NoBody) = Inr res"
      "decode_getServerProxies res = Inr as"
      using q Inr unfolding bc_getServerProxies_def send_run by (auto split: sum.splits)
    moreover from this have "rs_result res = QueryServerProxyResponse as"
      by (auto simp: decode_getServerProxies_def statusBodyMsg_def split: if_splits payload.splits)
    moreover have "new_events s t = EvHttp (request GET (apiUrl master v ''proxies/addresses'') NoBody)
        (env_http \<E> (w_trace s) (request GET (apiUrl master v ''proxies/addresses'') NoBody)) # new"
      using new(1) ev by (simp add: new_events_def)
    ultimately show ?thesis using e new(2) assms(3) by auto
  qed
qed

subsection \<open>The external store is a compare-and-swap register\<close>

definition withStore :: "configMap \<Rightarrow> string \<Rightarrow> configMap" where
  "withStore cm dat = cm\<lparr>cm_Data := AList.update metaStoreKey dat (cm_Data cm)\<rparr>"

lemma updateExternalStore_run:
  "updateExternalStore \<E> u ns store s =
    (case env_get_configmap \<E> (w_trace s) (MetaConfigMapName u) ns of
       Inl e \<Rightarrow> (Inl (ErrApi e),
         s\<lparr>w_trace := w_trace s @ [EvGetConfigMap (MetaConfigMapName u) ns (Inl e)]\<rparr>)
     | Inr cm \<Rightarrow>
         let read = EvGetConfigMap (MetaConfigMapName u) ns (Inr cm);
             t = s\<lparr>w_trace := w_trace s @ [read]\<rparr> in
         if om_ResourceVersion (cm_Meta cm) \<noteq> es_Version store then (Inl ErrExternalStoreConflict, t)
         else (case env_json_marshal \<E> (es_Store store) of
             Inl _ \<Rightarrow> (Inr (), t)
           | Inr dat \<Rightarrow> (case compressString \<E> dat of
                 Inl e \<Rightarrow> (Inl e, t)
               | Inr c \<Rightarrow>
                   if cm_Data cm = [] then (Inl ErrPanic, t)
                   else let x = env_update_configmap \<E> (w_trace t) (withStore cm c) in
                     (case x of Inl e \<Rightarrow> Inl (if e = Conflict then ErrExternalStoreConflict else ErrApi e)
                      | Inr _ \<Rightarrow> Inr (),
                      t\<lparr>w_trace := w_trace t @ [EvUpdateConfigMap (withStore cm c) x]\<rparr>))))"
  by (auto simp: updateExternalStore_def getConfigMap_def bindE_def k8s_get_configmap_def call_def of_api_def
      k8s_update_configmap_def tryE_def IsConflict_def withStore_def Let_def split: sum.splits)

lemma updateExternalStore_write:
  assumes "updateExternalStore \<E> u ns store s = (r, t)"
    and "EvUpdateConfigMap cm x \<in> set (new_events s t)"
  shows "\<exists>cm0 d c. new_events s t = [EvGetConfigMap (MetaConfigMapName u) ns (Inr cm0), EvUpdateConfigMap cm x] \<and>
    om_ResourceVersion (cm_Meta cm0) = es_Version store \<and>
    env_json_marshal \<E> (es_Store store) = Inr d \<and> compressString \<E> d = Inr c \<and> cm = withStore cm0 c"
  using assms unfolding updateExternalStore_run
  by (auto simp: Let_def new_events_def split: sum.splits if_splits)

text \<open>
  The optimistic concurrency of the API server, for one ConfigMap: \<open>stored\<close> is what it holds
  after a trace, other writers included; a read returns it; an update is accepted exactly when
  it carries the version held, and is then what is held.
\<close>

definition cas_server :: "env \<Rightarrow> string \<Rightarrow> string \<Rightarrow> (trace \<Rightarrow> configMap) \<Rightarrow> bool" where
  "cas_server \<E> name ns stored \<longleftrightarrow>
    (\<forall>tr. env_get_configmap \<E> tr name ns = Inr (stored tr)) \<and>
    (\<forall>tr. om_Name (cm_Meta (stored tr)) = name \<and> om_Namespace (cm_Meta (stored tr)) = ns) \<and>
    (\<forall>tr cm. om_Name (cm_Meta cm) = name \<and> om_Namespace (cm_Meta cm) = ns \<longrightarrow>
      (if om_ResourceVersion (cm_Meta cm) = om_ResourceVersion (cm_Meta (stored tr))
       then \<exists>cm'. env_update_configmap \<E> tr cm = Inr cm' \<and> cm_Data cm' = cm_Data cm \<and>
              stored (tr @ [EvUpdateConfigMap cm (Inr cm')]) = cm'
       else env_update_configmap \<E> tr cm = Inl Conflict))"

text \<open>The law of package encoding/json: decoding what was encoded gives it back.\<close>

definition json_roundtrip :: "env \<Rightarrow> bool" where
  "json_roundtrip \<E> \<longleftrightarrow> (\<forall>v d. env_json_marshal \<E> v = Inr d \<longrightarrow> env_json_unmarshal \<E> d = Inr v)"

lemma decodeStore_withStore:
  assumes "gzip_roundtrip \<E>" and "json_roundtrip \<E>"
    and "env_json_marshal \<E> store = Inr d" and "compressString \<E> d = Inr c"
    and "cm_Data cm = cm_Data (withStore cm0 c)"
  shows "decodeStore \<E> cm = Inr \<lparr>es_Version = om_ResourceVersion (cm_Meta cm), es_Store = store\<rparr>"
  using assms decompress_compress [OF assms(1,4)]
  by (simp add: decodeStore_def withStore_def update_conv json_roundtrip_def)


text \<open>
  C12: \<open>initExternalStore\<close> writes only over a store that it has just read as empty, under the version
  it read: a store that has been initialised is never overwritten without its version.
\<close>

theorem initExternalStore_write:
  assumes "initExternalStore \<E> u ns store s = (r, t)"
    and "EvUpdateConfigMap cm x \<in> set (new_events s t)"
  shows "\<exists>cm0 st. EvGetConfigMap (MetaConfigMapName u) ns (Inr cm0) \<in> set (new_events s t) \<and>
    decodeStore \<E> cm0 = Inr st \<and> es_Store st = [] \<and>
    om_ResourceVersion (cm_Meta cm) = om_ResourceVersion (cm_Meta cm0)"
proof -
  obtain y where y: "env_get_configmap \<E> (w_trace s) (MetaConfigMapName u) ns = y" by simp
  let ?u = "s\<lparr>w_trace := w_trace s @ [EvGetConfigMap (MetaConfigMapName u) ns y]\<rparr>"
  have get: "getExternalStore \<E> u ns s =
    ((case y of Inl e \<Rightarrow> Inl (ErrApi e) | Inr cm0 \<Rightarrow> decodeStore \<E> cm0), ?u)"
    using y by (auto simp: getExternalStore_def getConfigMap_def bindE_def k8s_get_configmap_def call_def
        of_api_def Let_def split: sum.splits)
  show ?thesis
  proof (cases "case y of Inl e \<Rightarrow> Inl (ErrApi e) | Inr cm0 \<Rightarrow> decodeStore \<E> cm0")
    case (Inl e)
    then show ?thesis using assms get by (auto simp: initExternalStore_def bindE_def new_events_def)
  next
    case (Inr st)
    show ?thesis
    proof (cases "es_Store st = []")
      case False
      then show ?thesis using assms get Inr by (auto simp: initExternalStore_def bindE_def new_events_def)
    next
      case True
      have run: "updateExternalStore \<E> u ns (st\<lparr>es_Store := store\<rparr>) ?u = (r, t)"
        using assms(1) get Inr True by (simp add: initExternalStore_def bindE_def)
      obtain cm0 where cm0: "y = Inr cm0" "decodeStore \<E> cm0 = Inr st"
        using Inr by (auto split: sum.splits)
      have ver: "es_Version st = om_ResourceVersion (cm_Meta cm0)"
        using cm0(2) by (auto simp: decodeStore_def split: option.splits sum.splits)
      have em: "emits (\<lambda>_. True) (updateExternalStore \<E> u ns (st\<lparr>es_Store := store\<rparr>))"
        unfolding updateExternalStore_def getConfigMap_def by (intro emits_intros TrueI)
      have "w_trace t = w_trace s @ (EvGetConfigMap (MetaConfigMapName u) ns y # new_events ?u t)"
        by (subst emits_trace_mono [OF em run]) simp
      then have new: "new_events s t = EvGetConfigMap (MetaConfigMapName u) ns y # new_events ?u t"
        by (rule new_events_append)
      then have "EvUpdateConfigMap cm x \<in> set (new_events ?u t)" using assms(2) by simp
      from updateExternalStore_write [OF run this] ver show ?thesis
        using cm0 True new by (intro exI [of _ cm0] exI [of _ st]) (auto simp: withStore_def)
    qed
  qed
qed

subsection \<open>More properties, and the properties at concrete inputs\<close>

text \<open>
  A store that cannot be encoded as JSON is dropped silently: \<open>updateExternalStore\<close> returns
  success although nothing was written.
\<close>

theorem unencodable_store_reported_written:
  assumes "env_get_configmap \<E> (w_trace s) (MetaConfigMapName u) ns = Inr cm"
    and "om_ResourceVersion (cm_Meta cm) = es_Version store"
    and "env_json_marshal \<E> (es_Store store) = Inl e"
  shows "updateExternalStore \<E> u ns store s =
    (Inr (), s\<lparr>w_trace := w_trace s @ [EvGetConfigMap (MetaConfigMapName u) ns (Inr cm)]\<rparr>)"
  using assms by (simp add: updateExternalStore_run Let_def)

definition sample_cm :: "string \<Rightarrow> configMap" where
  "sample_cm version =
    \<lparr>cm_Meta = (new_meta ''um-cfg'' ''default'' [])\<lparr>om_ResourceVersion := version\<rparr>,
     cm_Data = [(metaStoreKey, ''e30='')]\<rparr>"

theorem unencodable_store_reported_written_witness:
  "fst (updateExternalStore
      (sample_env\<lparr>env_get_configmap := (\<lambda>tr n ns. Inr (sample_cm ''7'')), env_json_marshal := (\<lambda>v. Inl ''unsupported'')\<rparr>)
      ''um'' ''default'' \<lparr>es_Version = ''7'', es_Store = []\<rparr> sample_world) = Inr ()"
  by (subst unencodable_store_reported_written [where cm = "sample_cm ''7''" and e = "''unsupported''"])
    (simp_all add: sample_env_def sample_cm_def)

text \<open>
  C23: Free nodes left over by an earlier scaling are removed and the scaling is tried again:
  when the broker refuses to scale because of them and then removes them, \<open>changeNodeNumber\<close>
  has sent those two requests and asks for a retry.
\<close>

theorem free_nodes_removed_then_retried:
  fixes s :: world and v master :: string
  defines "name \<equiv> um_ClusterName (um_Spec (w_cr s))"
    and "n \<equiv> int_of_u32 (um_ChunkNumber (um_Spec (w_cr s)))"
  defines "scale \<equiv> request POST (scaleNodesUrl v master name n) NoBody"
    and "remove \<equiv> request DELETE (apiUrl master v (''clusters/free_nodes/'' @ name)) NoBody"
  assumes "env_http \<E> (w_trace s) scale = Inr res1" and "rs_status res1 = 409" and "errorIs res1 errStrFreeNodeFound"
    and "env_http \<E> (w_trace s @ [EvHttp scale (Inr res1)]) remove = Inr res2" and "rs_status res2 = 200"
  shows "changeNodeNumber \<E> v master s =
    (Inl ErrRetryReconciliation,
     s\<lparr>w_trace := w_trace s @ [EvHttp scale (Inr res1), EvHttp remove (Inr res2)]\<rparr>)"
proof -
  have code: "decode_scaleNodes res1 = Inl ErrFreeNodeFound"
    using assms(6,7) by (auto simp: decode_scaleNodes_def errorIs_def err_strs Let_def)
  have ok: "decode_removeFreeNodes res2 = Inr ()" using assms(9) by (simp add: decode_removeFreeNodes_def)
  let ?s1 = "s\<lparr>w_trace := w_trace s @ [EvHttp scale (Inr res1)]\<rparr>"
  have 1: "bc_scaleNodes \<E> v master name n s = (Inl ErrFreeNodeFound, ?s1)"
    using assms(5) code by (simp add: bc_scaleNodes_def send_run scale_def)
  have 2: "bc_removeFreeNodes \<E> v master name ?s1 =
      (Inr (), s\<lparr>w_trace := w_trace s @ [EvHttp scale (Inr res1), EvHttp remove (Inr res2)]\<rparr>)"
    using assms(8) ok by (simp add: bc_removeFreeNodes_def send_run remove_def)
  show ?thesis
    using 1 2 unfolding name_def n_def
    by (simp add: changeNodeNumber_def bindE_def get_cr_def tryE_def removeFreeNodesStep_def Let_def)
qed

definition http_error :: "int \<Rightarrow> string \<Rightarrow> http_response" where
  "http_error status code = \<lparr>rs_status = status, rs_body = [], rs_result = NoBody, rs_error = Some code\<rparr>"

definition free_nodes_env :: env where
  "free_nodes_env = sample_env\<lparr>env_http := (\<lambda>tr rq. if rq_method rq = POST
     then Inr (http_error 409 ''FREE_NODE_FOUND'') else Inr (ok_response NoBody))\<rparr>"

theorem free_nodes_removed_then_retried_witness:
  "fst (changeNodeNumber free_nodes_env ''v3'' ''a:1'' sample_world) = Inl ErrRetryReconciliation"
  by (subst free_nodes_removed_then_retried [where ?res1.0 = "http_error 409 ''FREE_NODE_FOUND''"
        and ?res2.0 = "ok_response NoBody"])
    (simp_all add: free_nodes_env_def sample_env_def http_error_def ok_response_def errorIs_def err_strs request_def)

text \<open>A broker that lists one proxy nobody needs, and removes it.\<close>

definition stale_proxy_env :: env where
  "stale_proxy_env = sample_env\<lparr>env_http := (\<lambda>tr rq.
     Inr (ok_response (if rq_method rq = GET then QueryServerProxyResponse [''old:6000''] else NoBody)))\<rparr>"

theorem deregister_not_kept_witness:
  "''old:6000'' \<notin> keepSet sample_cr []"
proof -
  define t where "t = snd (deregisterServerProxies stale_proxy_env ''v3'' ''a:1'' [] sample_world)"
  have run: "deregisterServerProxies stale_proxy_env ''v3'' ''a:1'' [] sample_world =
      (fst (deregisterServerProxies stale_proxy_env ''v3'' ''a:1'' [] sample_world), t)" by (simp add: t_def)
  have keep: "''old:6000'' \<notin> keepSet sample_cr []"
    by (simp add: keepSet_def genStorageStatefulSetAddrs_def genStorageNames_def Let_def image_iff
        genStorageAddressFromName_def genStorageFQDNFromName_def genStorageFQDN_def
        storageStatefulSetPodName_def StorageStatefulSetName_def sample_cr_def)
  let ?rq = "request DELETE (apiUrl ''a:1'' ''v3'' (''proxies/meta/'' @ ''old:6000'')) NoBody"
  have "EvHttp ?rq (Inr (ok_response NoBody)) \<in> set (new_events sample_world t)"
    using keep
    by (simp add: t_def deregisterServerProxies_def bindE_def bc_defs send_run stale_proxy_env_def
        sample_env_def ok_response_def decode_getServerProxies_def get_cr_def Let_def sample_world_def
        orLog_def tryE_def request_def decode_deregisterServerProxy_def new_events_def)
  then show ?thesis
    using deregister_not_kept [OF run, of _ "''old:6000''"] by (auto simp: is_deregister_def sample_world_def)
qed

text \<open>
  A server that holds one ConfigMap: an accepted write replaces it and makes its version longer.
\<close>

fun held_step :: "configMap \<Rightarrow> event \<Rightarrow> configMap" where
  "held_step cur (EvUpdateConfigMap cm (Inr cm')) =
    (if om_Name (cm_Meta cm') = om_Name (cm_Meta cur) \<and> om_Namespace (cm_Meta cm') = om_Namespace (cm_Meta cur)
     then cm' else cur)"
| "held_step cur _ = cur"

definition held :: "trace \<Rightarrow> configMap" where
  "held tr = foldl held_step (sample_cm ''7'') tr"

definition json_one :: "json_object \<Rightarrow> string + string" where
  "json_one v = (case v of [] \<Rightarrow> Inr ''{}''
     | [(k, Opaque x)] \<Rightarrow> if k = ''a'' then Inr (''a'' @ x) else Inl ''unsupported''
     | _ \<Rightarrow> Inl ''unsupported'')"

definition json_one_back :: "string \<Rightarrow> string + json_object" where
  "json_one_back s = (if s = ''{}'' then Inr [] else Inr [(''a'', Opaque (tl s))])"

definition held_env :: env where
  "held_env = sample_env
    \<lparr>env_get_configmap := (\<lambda>tr n ns. Inr (held tr)),
     env_update_configmap := (\<lambda>tr cm.
       if om_ResourceVersion (cm_Meta cm) = om_ResourceVersion (cm_Meta (held tr))
       then Inr (cm\<lparr>cm_Meta := (cm_Meta cm)\<lparr>om_ResourceVersion := CHR ''1'' # om_ResourceVersion (cm_Meta cm)\<rparr>\<rparr>)
       else Inl Conflict),
     env_json_marshal := json_one, env_json_unmarshal := json_one_back\<rparr>"

lemma held_step_name:
  "om_Name (cm_Meta (held_step cur e)) = om_Name (cm_Meta cur) \<and>
   om_Namespace (cm_Meta (held_step cur e)) = om_Namespace (cm_Meta cur)"
  by (cases "(cur, e)" rule: held_step.cases) auto

lemma held_name: "om_Name (cm_Meta (held tr)) = ''um-cfg'' \<and> om_Namespace (cm_Meta (held tr)) = ''default''"
proof (induction tr rule: rev_induct)
  case Nil
  show ?case by (simp add: held_def sample_cm_def)
next
  case (snoc e tr)
  then show ?case using held_step_name [of "held tr" e] by (simp add: held_def)
qed

lemma held_server: "cas_server held_env (MetaConfigMapName ''um'') ''default'' held"
  using held_name by (auto simp: cas_server_def held_env_def MetaConfigMapName_def) (simp add: held_def)

lemma held_codecs: "gzip_roundtrip held_env" "json_roundtrip held_env"
  by (auto simp: gzip_roundtrip_def json_roundtrip_def held_env_def sample_env_def json_one_def json_one_back_def
      split: list.splits prod.splits opaque.splits if_splits)

definition written :: "(goerror + unit) \<times> world" where
  "written = updateExternalStore held_env ''um'' ''default''
    \<lparr>es_Version = ''7'', es_Store = [(''a'', Opaque ''x'')]\<rparr> sample_world"

lemma written_ok: "fst written = Inr ()"
  by (simp add: written_def updateExternalStore_run Let_def held_env_def sample_env_def sample_world_def
      held_def sample_cm_def json_one_def compressString_def withStore_def)


definition initialised :: "(goerror + unit) \<times> world" where
  "initialised = initExternalStore held_env ''um'' ''default'' [(''a'', Opaque ''x'')] sample_world"

theorem initExternalStore_write_witness:
  "\<exists>cm x cm0 st. EvUpdateConfigMap cm x \<in> set (new_events sample_world (snd initialised)) \<and>
    EvGetConfigMap ''um-cfg'' ''default'' (Inr cm0) \<in> set (new_events sample_world (snd initialised)) \<and>
    decodeStore held_env cm0 = Inr st \<and> es_Store st = []"
proof -
  have run: "initExternalStore held_env ''um'' ''default'' [(''a'', Opaque ''x'')] sample_world =
      (fst initialised, snd initialised)" by (simp add: initialised_def)
  have dec: "decompressString held_env ''e30='' = Inr ''{}''"
  proof (rule decompress_compress [OF held_codecs(1)])
    show "compressString held_env ''{}'' = Inr ''e30=''"
      by (simp add: compressString_def held_env_def sample_env_def b64_sym_def b64_alphabet_def byte_nat_def of_char_def)
  qed
  then have st: "decodeStore held_env (sample_cm ''7'') = Inr \<lparr>es_Version = ''7'', es_Store = []\<rparr>"
    by (simp add: decodeStore_def sample_cm_def held_env_def json_one_back_def)
  have get: "env_get_configmap held_env tr n ns = Inr (held tr)" for tr n ns by (simp add: held_env_def)
  have "\<exists>cm x. EvUpdateConfigMap cm x \<in> set (new_events sample_world (snd initialised))"
    by (simp add: initialised_def initExternalStore_def getExternalStore_def getConfigMap_def bindE_def
        k8s_get_configmap_def call_def of_api_def Let_def sample_world_def get held_def st
        updateExternalStore_run new_events_def)
      (simp add: sample_cm_def held_env_def sample_env_def json_one_def compressString_def)
  then obtain cm x where "EvUpdateConfigMap cm x \<in> set (new_events sample_world (snd initialised))" by blast
  from initExternalStore_write [OF run this] this show ?thesis by (auto simp: MetaConfigMapName_def)
qed

end
