(* ===== verification/Meta_Server.thy ===== *)
theory Meta_Server
  imports Meta_Controller
begin

section \<open>The HTTP server of the external store (controllers/meta_server.go)\<close>

text \<open>
  The handlers behind \<open>/api/v1/store/:storageName\<close>. The web framework (gin) is not part of
  the repository: how it runs a chain of handlers is the parameter \<open>gin\<close> of the model, with the
  documented laws as the predicate \<open>gin_laws\<close>. A handler works on the request context, may
  write responses, and ends either by calling \<open>c.Next()\<close>, which in every handler here is its
  last statement, or by returning.
\<close>

subsection \<open>Context and handlers\<close>

text \<open>
  \<open>gc_Body\<close> is what \<open>ShouldBindJSON\<close> decodes the body to; \<open>gc_CrName\<close> and \<open>gc_Namespace\<close> are
  the two keys handlers set; \<open>gc_Responses\<close> the statuses and bodies written, oldest first. The
  first one is the status the client receives.
\<close>

datatype response_body = TextBody string | ErrorBody goerror | StoreBody externalStore

record ginContext =
  gc_StorageName :: string
  gc_Authorization :: string
  gc_Body :: "string + externalStore"
  gc_CrName :: "string option"
  gc_Namespace :: "string option"
  gc_Responses :: "(nat \<times> response_body) list"

datatype handler_end = CallsNext | Returns

type_synonym handler = "ginContext \<Rightarrow> (ginContext \<times> handler_end) op"

definition respond :: "nat \<Rightarrow> string \<Rightarrow> ginContext \<Rightarrow> ginContext" where
  "respond code text c = c\<lparr>gc_Responses := gc_Responses c @ [(code, TextBody text)]\<rparr>"

definition respondJSON :: "nat \<Rightarrow> externalStore \<Rightarrow> ginContext \<Rightarrow> ginContext" where
  "respondJSON code store c = c\<lparr>gc_Responses := gc_Responses c @ [(code, StoreBody store)]\<rparr>"

definition codeInvalidBasicAuth :: string where "codeInvalidBasicAuth = ''INVALID_BASIC_AUTH''"

definition codeInvalidStorageName :: string where "codeInvalidStorageName = ''INVALID_STORAGE_NAME''"

definition codeStorageNameNotFound :: string where
  "codeStorageNameNotFound = ''UNDERMOON_STORAGE_NAME_NOT_FOUND''"

definition codeIncorrectPassword :: string where "codeIncorrectPassword = ''INCORRECT_PASSWORD''"

definition codeVersionConflict :: string where "codeVersionConflict = ''VERSION_CONFLICT''"

text \<open>
  \<open>c.String(code, fmt.Sprintf("%s", err))\<close>: the body is the text of the error. A panic is not
  an error value: it leaves the handler and its callers.
\<close>

definition respondErr :: "nat \<Rightarrow> goerror \<Rightarrow> ginContext \<Rightarrow> ginContext" where
  "respondErr code err c = c\<lparr>gc_Responses := gc_Responses c @ [(code, ErrorBody err)]\<rparr>"

definition endWith :: "nat \<Rightarrow> goerror \<Rightarrow> handler" where
  "endWith code err c =
    (if err = ErrPanic then throwE err else returnE (respondErr code err c, Returns))"

definition extractCtx :: handler where
  "extractCtx c =
    (if length (gc_StorageName c) = 0
     then returnE (respond 404 codeStorageNameNotFound c, Returns)
     else case extractStorageName (gc_StorageName c) of
         Inl _ \<Rightarrow> returnE (respond 400 codeInvalidStorageName c, Returns)
       | Inr (undermoonName, namespace) \<Rightarrow>
           returnE (c\<lparr>gc_CrName := Some undermoonName, gc_Namespace := Some namespace\<rparr>, CallsNext))"

text \<open>The keys are only ever set to strings, so the type assertions succeed.\<close>

definition retrieveCtx :: "ginContext \<Rightarrow> ginContext \<times> (string \<times> string) option" where
  "retrieveCtx c =
    (case gc_CrName c of
       None \<Rightarrow> (respond 500 ''cannot get username in context'' c, None)
     | Some undermoonName \<Rightarrow>
         (case gc_Namespace c of
            None \<Rightarrow> (respond 500 ''cannot get username in context'' c, None)
          | Some ns \<Rightarrow> (c, Some (undermoonName, ns))))"

text \<open>The credentials of the header, or the reason \<open>basicAuth\<close> gives for refusing it.\<close>

definition credentials :: "string \<Rightarrow> (string \<times> string) option" where
  "credentials header =
    (case splitN2 (CHR '' '') header of
       [scheme, encoded] \<Rightarrow>
         if scheme \<noteq> ''Basic'' then None
         else (case b64_decode encoded of
             None \<Rightarrow> None
           | Some payload \<Rightarrow>
               (case splitN2 (CHR '':'') payload of
                  [username, password] \<Rightarrow> Some (username, password)
                | _ \<Rightarrow> None))
     | _ \<Rightarrow> None)"

definition basicAuth :: "env \<Rightarrow> handler" where
  "basicAuth \<E> c =
    (case retrieveCtx c of
       (c', None) \<Rightarrow> returnE (c', Returns)
     | (c', Some (undermoonName, namespace)) \<Rightarrow>
         if length (gc_StorageName c) = 0
         then returnE (respond 404 codeStorageNameNotFound c, Returns)
         else case credentials (gc_Authorization c) of
             None \<Rightarrow> returnE (respond 401 codeInvalidBasicAuth c, Returns)
           | Some (username, password) \<Rightarrow>
               if gc_StorageName c \<noteq> username
               then returnE (respond 401 codeInvalidBasicAuth c, Returns)
               else tryE (checkMetaSecret \<E> undermoonName namespace password) (\<lambda>r. case r of
                   Inl _ \<Rightarrow> returnE (respond 401 codeInvalidBasicAuth c, Returns)
                 | Inr correct \<Rightarrow>
                     if \<not> correct then returnE (respond 401 codeIncorrectPassword c, Returns)
                     else returnE (c, CallsNext)))"

definition handleGetMeta :: "env \<Rightarrow> handler" where
  "handleGetMeta \<E> c =
    (case retrieveCtx c of
       (c', None) \<Rightarrow> returnE (c', Returns)
     | (c', Some (undermoonName, namespace)) \<Rightarrow>
         tryE (getExternalStore \<E> undermoonName namespace) (\<lambda>r. case r of
             Inl e \<Rightarrow> endWith 500 e c
           | Inr store \<Rightarrow> returnE (respondJSON 200 store c, Returns)))"

definition handleUpdateMeta :: "env \<Rightarrow> handler" where
  "handleUpdateMeta \<E> c =
    (case retrieveCtx c of
       (c', None) \<Rightarrow> returnE (c', Returns)
     | (c', Some (undermoonName, namespace)) \<Rightarrow>
         (case gc_Body c of
            Inl e \<Rightarrow> returnE (respond 400 e c, Returns)
          | Inr store \<Rightarrow>
              tryE (initOrUpdateExternalStore \<E> undermoonName namespace store) (\<lambda>r. case r of
                  Inl e \<Rightarrow>
                    if e = ErrExternalStoreConflict then returnE (respond 409 codeVersionConflict c, Returns)
                    else endWith 400 e c
                | Inr _ \<Rightarrow> returnE (respond 200 [] c, Returns))))"

subsection \<open>Routes\<close>

definition getChain :: "env \<Rightarrow> handler list" where
  "getChain \<E> = [extractCtx, handleGetMeta \<E>]"

text \<open>The logger that is added to the update group does not touch the context.\<close>

definition putChain :: "env \<Rightarrow> handler list" where
  "putChain \<E> = [extractCtx, basicAuth \<E>, handleUpdateMeta \<E>]"

type_synonym chain_runner = "handler list \<Rightarrow> ginContext \<Rightarrow> ginContext op"

definition serveGet :: "chain_runner \<Rightarrow> env \<Rightarrow> ginContext \<Rightarrow> ginContext op" where
  "serveGet gin \<E> c = gin (getChain \<E>) c"

definition servePut :: "chain_runner \<Rightarrow> env \<Rightarrow> ginContext \<Rightarrow> ginContext op" where
  "servePut gin \<E> c = gin (putChain \<E>) c"

text \<open>
  The documented behaviour of gin: \<open>Next\<close> runs the pending handlers of the chain, and so does
  returning, because only \<open>Abort\<close>, which no handler here calls, prevents pending handlers from
  being called.
\<close>

definition gin_laws :: "chain_runner \<Rightarrow> bool" where
  "gin_laws gin \<longleftrightarrow>
    (\<forall>c. gin [] c = returnE c) \<and>
    (\<forall>h hs c. gin (h # hs) c = bindE (h c) (\<lambda>(c', _). gin hs c'))"

fun run_all :: chain_runner where
  "run_all [] c = returnE c"
| "run_all (h # hs) c = bindE (h c) (\<lambda>(c', _). run_all hs c')"

lemma gin_laws_run_all: "gin_laws run_all"
  by (simp add: gin_laws_def)

subsection \<open>What the update route does\<close>

definition authorised :: "env \<Rightarrow> ginContext \<Rightarrow> string \<Rightarrow> string \<Rightarrow> world \<Rightarrow> bool" where
  "authorised \<E> c u ns s \<longleftrightarrow>
    (\<exists>password sec. credentials (gc_Authorization c) = Some (gc_StorageName c, password) \<and>
      env_get_secret \<E> (w_trace s) (MetaSecretName u) ns = Inr sec \<and>
      map_of (sc_Data sec) metaPasswordKey = Some password)"

definition fresh_request :: "ginContext \<Rightarrow> bool" where
  "fresh_request c \<longleftrightarrow> gc_CrName c = None \<and> gc_Namespace c = None \<and> gc_Responses c = []"

lemma extractCtx_ok:
  "extractStorageName (gc_StorageName c) = Inr (u, ns) \<Longrightarrow>
    extractCtx c s = (Inr (c\<lparr>gc_CrName := Some u, gc_Namespace := Some ns\<rparr>, CallsNext), s)"
  by (auto simp: extractCtx_def extractStorageName_def split: if_splits list.splits)

lemma checkMetaSecret_run:
  "checkMetaSecret \<E> u ns password s =
    ((case env_get_secret \<E> (w_trace s) (MetaSecretName u) ns of
        Inl e \<Rightarrow> if e = NotFound then Inr False else Inl (ErrApi e)
      | Inr sec \<Rightarrow> (case map_of (sc_Data sec) metaPasswordKey of
            None \<Rightarrow> Inl (ErrMsg ''meta secret is deleted'')
          | Some p \<Rightarrow> Inr (p = password))),
     s\<lparr>w_trace := w_trace s @ [EvGetSecret (MetaSecretName u) ns
        (env_get_secret \<E> (w_trace s) (MetaSecretName u) ns)]\<rparr>)"
  by (auto simp: checkMetaSecret_def tryE_def k8s_get_secret_def call_def of_api_def IsNotFound_def
      Let_def split: sum.splits option.splits)

lemma basicAuth_run:
  assumes "gc_CrName c = Some u" and "gc_Namespace c = Some ns" and "gc_StorageName c \<noteq> []"
  shows "\<exists>x e c'. basicAuth \<E> c s = (Inr (c', e), s\<lparr>w_trace := w_trace s @ x\<rparr>) \<and>
    (\<forall>ev \<in> set x. \<exists>r. ev = EvGetSecret (MetaSecretName u) ns r) \<and>
    (if authorised \<E> c u ns s then c' = c \<and> e = CallsNext
     else e = Returns \<and> (\<exists>text. c' = respond 401 text c))"
proof (cases "credentials (gc_Authorization c)")
  case None
  then show ?thesis
    using assms by (intro exI [of _ "[]"]) (auto simp: basicAuth_def retrieveCtx_def authorised_def)
next
  case (Some cred)
  obtain user password where cred: "cred = (user, password)" by (cases cred)
  show ?thesis
  proof (cases "gc_StorageName c = user")
    case False
    then show ?thesis
      using assms Some cred
      by (intro exI [of _ "[]"]) (auto simp: basicAuth_def retrieveCtx_def authorised_def)
  next
    case True
    let ?ev = "EvGetSecret (MetaSecretName u) ns (env_get_secret \<E> (w_trace s) (MetaSecretName u) ns)"
    show ?thesis
      using assms Some cred True
      by (intro exI [of _ "[?ev]"])
        (auto simp: basicAuth_def retrieveCtx_def authorised_def tryE_def checkMetaSecret_run
          split: sum.splits option.splits)
  qed
qed

text \<open>
  The three handlers composed as gin runs them: the update is attempted whatever the password
  check said, and only the order of the responses tells.
\<close>

lemma handleUpdateMeta_run:
  assumes "gc_CrName c = Some u" and "gc_Namespace c = Some ns" and "gc_Body c = Inr store"
  shows "\<exists>code body. handleUpdateMeta \<E> c s =
    (if fst (initOrUpdateExternalStore \<E> u ns store s) = Inl ErrPanic then Inl ErrPanic
     else Inr (c\<lparr>gc_Responses := gc_Responses c @ [(code, body)]\<rparr>, Returns),
     snd (initOrUpdateExternalStore \<E> u ns store s))"
  using assms
  by (cases "initOrUpdateExternalStore \<E> u ns store s")
    (auto simp: handleUpdateMeta_def retrieveCtx_def tryE_def endWith_def respond_def respondErr_def
      split: sum.splits)

lemma servePut_run:
  assumes "gin_laws gin" and "extractStorageName (gc_StorageName c) = Inr (u, ns)"
    and "gc_Responses c = []" and "gc_Body c = Inr store"
  shows "\<exists>x r. servePut gin \<E> c s =
      (r, snd (initOrUpdateExternalStore \<E> u ns store (s\<lparr>w_trace := w_trace s @ x\<rparr>))) \<and>
    (\<forall>ev \<in> set x. \<exists>r. ev = EvGetSecret (MetaSecretName u) ns r) \<and>
    (if fst (initOrUpdateExternalStore \<E> u ns store (s\<lparr>w_trace := w_trace s @ x\<rparr>)) = Inl ErrPanic
     then r = Inl ErrPanic
     else \<exists>c'. r = Inr c' \<and> (authorised \<E> c u ns s \<or> fst (hd (gc_Responses c')) = 401))"
proof -
  let ?c = "c\<lparr>gc_CrName := Some u, gc_Namespace := Some ns\<rparr>"
  have gin: "\<And>c. gin [] c = returnE c" "\<And>h hs c. gin (h # hs) c = bindE (h c) (\<lambda>(c', _). gin hs c')"
    using assms(1) by (simp_all add: gin_laws_def)
  have "gc_StorageName ?c \<noteq> []" using assms(2) by (auto simp: extractStorageName_iff brokerStorageName_def)
  then obtain x e c' where auth: "basicAuth \<E> ?c s = (Inr (c', e), s\<lparr>w_trace := w_trace s @ x\<rparr>)"
    and x: "\<forall>ev \<in> set x. \<exists>r. ev = EvGetSecret (MetaSecretName u) ns r"
    and dec: "if authorised \<E> ?c u ns s then c' = ?c \<and> e = CallsNext
       else e = Returns \<and> (\<exists>text. c' = respond 401 text ?c)"
    using basicAuth_run [of ?c u ns \<E> s] by auto
  have keys: "gc_CrName c' = Some u" "gc_Namespace c' = Some ns" "gc_Body c' = Inr store"
    using dec assms(4) by (auto simp: respond_def split: if_splits)
  let ?upd = "initOrUpdateExternalStore \<E> u ns store (s\<lparr>w_trace := w_trace s @ x\<rparr>)"
  obtain code body where upd: "handleUpdateMeta \<E> c' (s\<lparr>w_trace := w_trace s @ x\<rparr>) =
      (if fst ?upd = Inl ErrPanic then Inl ErrPanic
       else Inr (c'\<lparr>gc_Responses := gc_Responses c' @ [(code, body)]\<rparr>, Returns), snd ?upd)"
    using handleUpdateMeta_run [OF keys] by blast
  let ?c' = "c'\<lparr>gc_Responses := gc_Responses c' @ [(code, body)]\<rparr>"
  have run: "servePut gin \<E> c s = (if fst ?upd = Inl ErrPanic then Inl ErrPanic else Inr ?c', snd ?upd)"
    by (simp add: servePut_def putChain_def gin bindE_def extractCtx_ok [OF assms(2)] auth upd)
  have first: "authorised \<E> c u ns s \<or> fst (hd (gc_Responses ?c')) = 401"
    using dec assms(3) by (auto simp: respond_def authorised_def split: if_splits)
  show ?thesis
    using x first by (intro exI [of _ x] exI [of _ "if fst ?upd = Inl ErrPanic then Inl ErrPanic else Inr ?c'"])
      (simp add: run)
qed

subsection \<open>Properties\<close>

text \<open>
  C24: The password check of the update route does not protect the store: with the documented
  rule that only \<open>Abort\<close> keeps pending handlers from being called, a request whose credentials
  are missing or wrong is answered 401 (unless the update panics) and its body goes through
  the update of the store all the same.
\<close>

theorem unauthorised_put_still_updates:
  assumes "gin_laws gin" and "extractStorageName (gc_StorageName c) = Inr (u, ns)"
    and "gc_Responses c = []" and "gc_Body c = Inr store" and "\<not> authorised \<E> c u ns s"
  shows "\<exists>x r. servePut gin \<E> c s =
      (r, snd (initOrUpdateExternalStore \<E> u ns store (s\<lparr>w_trace := w_trace s @ x\<rparr>))) \<and>
    (\<forall>ev \<in> set x. \<exists>r. ev = EvGetSecret (MetaSecretName u) ns r) \<and>
    (if fst (initOrUpdateExternalStore \<E> u ns store (s\<lparr>w_trace := w_trace s @ x\<rparr>)) = Inl ErrPanic
     then r = Inl ErrPanic else \<exists>c'. r = Inr c' \<and> fst (hd (gc_Responses c')) = 401)"
  using servePut_run [OF assms(1-4), of \<E> s] assms(5) by metis

text \<open>A request without an \<open>Authorization\<close> header.\<close>

definition anonymous_put :: ginContext where
  "anonymous_put = \<lparr>gc_StorageName = ''um@default'', gc_Authorization = [],
     gc_Body = Inr \<lparr>es_Version = ''7'', es_Store = [(''a'', Opaque ''x'')]\<rparr>,
     gc_CrName = None, gc_Namespace = None, gc_Responses = []\<rparr>"

lemma anonymous_put_refused: "\<not> authorised held_env anonymous_put ''um'' ''default'' s"
  by (simp add: authorised_def anonymous_put_def credentials_def)

lemma held_env_update:
  assumes "held y = sample_cm ''7''"
  shows "\<exists>t cm cm'. updateExternalStore held_env ''um'' ''default''
      \<lparr>es_Version = ''7'', es_Store = [(''a'', Opaque ''x'')]\<rparr> \<lparr>w_trace = y, w_cr = sample_cr\<rparr> = (Inr (), t) \<and>
    EvUpdateConfigMap cm (Inr cm') \<in> set (w_trace t)"
proof -
  have get: "env_get_configmap held_env tr n ns = Inr (held tr)" for tr n ns by (simp add: held_env_def)
  obtain c where c: "compressString held_env ''ax'' = Inr c"
    by (simp add: compressString_def held_env_def sample_env_def)
  have json: "env_json_marshal held_env [(''a'', Opaque ''x'')] = Inr ''ax''"
    by (simp add: held_env_def json_one_def)
  have same: "held (y @ [EvGetConfigMap n ns r]) = held y" for n ns r by (simp add: held_def)
  have cm: "om_ResourceVersion (cm_Meta (sample_cm ''7'')) = ''7''" "cm_Data (sample_cm ''7'') \<noteq> []"
    by (simp_all add: sample_cm_def)
  have upd: "\<exists>cm'. env_update_configmap held_env (y @ [EvGetConfigMap n ns r]) (withStore (sample_cm ''7'') c) = Inr cm'"
    for n ns r
    using same [of n ns r] assms cm(1) by (simp add: held_env_def withStore_def)
  obtain cm' where "env_update_configmap held_env
      (y @ [EvGetConfigMap (MetaConfigMapName ''um'') ''default'' (Inr (sample_cm ''7''))])
      (withStore (sample_cm ''7'') c) = Inr cm'"
    using upd by blast
  then show ?thesis by (auto simp: updateExternalStore_run get assms cm json c Let_def)
qed

theorem unauthorised_put_still_updates_witness:
  "\<exists>c' t cm cm'. servePut run_all held_env anonymous_put sample_world = (Inr c', t) \<and>
    fst (hd (gc_Responses c')) = 401 \<and> EvUpdateConfigMap cm (Inr cm') \<in> set (w_trace t)"
proof -
  let ?store = "\<lparr>es_Version = ''7'', es_Store = [(''a'', Opaque ''x'')]\<rparr>"
  have name: "extractStorageName (gc_StorageName anonymous_put) = Inr (''um'', ''default'')"
    by (simp add: anonymous_put_def extractStorageName_def)
  obtain x r where x: "servePut run_all held_env anonymous_put sample_world = (r,
      snd (initOrUpdateExternalStore held_env ''um'' ''default'' ?store (sample_world\<lparr>w_trace := w_trace sample_world @ x\<rparr>)))"
    and secret: "\<forall>ev \<in> set x. \<exists>r. ev = EvGetSecret (MetaSecretName ''um'') ''default'' r"
    and code: "if fst (initOrUpdateExternalStore held_env ''um'' ''default'' ?store
        (sample_world\<lparr>w_trace := w_trace sample_world @ x\<rparr>)) = Inl ErrPanic
      then r = Inl ErrPanic else \<exists>c'. r = Inr c' \<and> fst (hd (gc_Responses c')) = 401"
    using unauthorised_put_still_updates [OF gin_laws_run_all name _ _ anonymous_put_refused, of ?store sample_world]
    by (auto simp: anonymous_put_def)
  have "\<forall>ev \<in> set y. \<exists>r. ev = EvGetSecret (MetaSecretName ''um'') ''default'' r \<Longrightarrow> held y = sample_cm ''7''" for y
    by (induction y rule: rev_induct) (auto simp: held_def)
  then have held: "held x = sample_cm ''7''" using secret by blast
  obtain t cm cm' where upd: "initOrUpdateExternalStore held_env ''um'' ''default'' ?store
      (sample_world\<lparr>w_trace := w_trace sample_world @ x\<rparr>) = (Inr (), t)"
    and ev: "EvUpdateConfigMap cm (Inr cm') \<in> set (w_trace t)"
    using held_env_update [OF held] by (auto simp: initOrUpdateExternalStore_def sample_world_def)
  show ?thesis using x code ev by (auto simp: upd)
qed

text \<open>
  A storage name that does not parse is answered with an error status on both routes and
  nothing is read or written.
\<close>

theorem invalid_name_idle:
  assumes "gin_laws gin" and "extractStorageName (gc_StorageName c) = Inl e" and "fresh_request c"
  shows "(\<exists>c'. servePut gin \<E> c s = (Inr c', s) \<and> fst (hd (gc_Responses c')) \<in> {400, 404}) \<and>
    (\<exists>c'. serveGet gin \<E> c s = (Inr c', s) \<and> fst (hd (gc_Responses c')) \<in> {400, 404})"
proof -
  have gin: "\<And>c. gin [] c = returnE c" "\<And>h hs c. gin (h # hs) c = bindE (h c) (\<lambda>(c', _). gin hs c')"
    using assms(1) by (simp_all add: gin_laws_def)
  show ?thesis
    using assms(2,3)
    by (simp add: servePut_def serveGet_def putChain_def getChain_def gin bindE_def extractCtx_def
        basicAuth_def handleUpdateMeta_def handleGetMeta_def retrieveCtx_def respond_def fresh_request_def)
qed

theorem invalid_name_idle_witness:
  "\<exists>c'. serveGet run_all sample_env (anonymous_put\<lparr>gc_StorageName := ''um''\<rparr>) sample_world = (Inr c', sample_world) \<and>
    fst (hd (gc_Responses c')) \<in> {400, 404}"
proof -
  have bad: "extractStorageName (gc_StorageName (anonymous_put\<lparr>gc_StorageName := ''um''\<rparr>)) =
      Inl (ErrMsg ''invalid storage name: um'')"
    by (simp add: extractStorageName_def)
  have fresh: "fresh_request (anonymous_put\<lparr>gc_StorageName := ''um''\<rparr>)"
    by (simp add: fresh_request_def anonymous_put_def)
  from invalid_name_idle [OF gin_laws_run_all bad fresh, of sample_env sample_world] show ?thesis by blast
qed

end
