(* ===== verification/Operator_Process.thy ===== *)
theory Operator_Process
  imports Meta_Server Ranked_Runs
begin

section \<open>The process of the operator (main.go, controllers/meta_server.go, undermoon_controller.go)\<close>

text \<open>
  \<open>serve\<close> runs the HTTP server in two goroutines, one that accepts connections and one that
  shuts the server down when the context ends; \<open>main\<close> starts it beside the manager of the reconciler. As in
  the service of the checker, a turn lets one goroutine go on. The package net/http is modelled by its documented
  behaviour: after \<open>Shutdown\<close> was called \<open>ListenAndServe\<close> returns \<open>ErrServerClosed\<close>, and
  \<open>Shutdown\<close> waits for the requests being served, or returns the error of its context when that
  ends first. \<open>log.Fatal\<close> and \<open>os.Exit\<close> end the process without running deferred calls.
\<close>

subsection \<open>The HTTP server\<close>

text \<open>Why the process ends: a branch of \<open>main\<close>, or a \<open>log.Fatal\<close> of \<open>serve\<close>.\<close>

datatype stop_reason =
    SchemePanics string
  | BadFlags string
  | NoConfig string
  | NoManager string
  | NoController string
  | ManagerFailed string
  | ListenFailed string
  | ShutdownFailed string
  | MainReturned

fun exitCode :: "stop_reason \<Rightarrow> nat" where
  "exitCode MainReturned = 0"
| "exitCode (SchemePanics e) = 2"
| "exitCode (BadFlags e) = 2"
| "exitCode _ = 1"

text \<open>The network: opening the address, accepting the n-th connection, and what \<open>Shutdown\<close> returns, given how many requests are being served and whether its context has ended.\<close>

record http_env =
  he_listen :: "string \<Rightarrow> string option"
  he_accept :: "nat \<Rightarrow> string option"
  he_shutdown :: "nat \<Rightarrow> bool \<Rightarrow> string option"

definition shutdown_law :: "http_env \<Rightarrow> bool" where
  "shutdown_law E \<longleftrightarrow> (\<forall>n. n > 0 \<longrightarrow> (\<exists>e. he_shutdown E n True = Some e))"

datatype listener = Opens | Accepts | ListenerReturned

datatype shutdowner = AwaitsDone | ShutsDown | ShutdownReturned

record meta_serve =
  ms_listener :: listener
  ms_shutdowner :: shutdowner
  ms_closed :: bool
  ms_accepted :: nat
  ms_active :: nat

definition serve :: meta_serve where
  "serve = \<lparr>ms_listener = Opens, ms_shutdowner = AwaitsDone, ms_closed = False, ms_accepted = 0, ms_active = 0\<rparr>"

definition serverAddr :: string where
  "serverAddr = '':'' @ show_nat metaServicePort"

text \<open>The first function of the group, up to the first connection; and a connection.\<close>

definition listenTurn :: "http_env \<Rightarrow> meta_serve \<Rightarrow> (stop_reason + meta_serve) option" where
  "listenTurn E m =
    (if ms_listener m = ListenerReturned then None
     else if ms_closed m then Some (Inr (m\<lparr>ms_listener := ListenerReturned\<rparr>))
     else if ms_listener m = Opens
     then Some (case he_listen E serverAddr of
         Some e \<Rightarrow> Inl (ListenFailed e)
       | None \<Rightarrow> Inr (m\<lparr>ms_listener := Accepts\<rparr>))
     else None)"

definition connectionTurn :: "http_env \<Rightarrow> meta_serve \<Rightarrow> (stop_reason + meta_serve) option" where
  "connectionTurn E m =
    (if ms_listener m = Accepts \<and> \<not> ms_closed m
     then Some (case he_accept E (ms_accepted m) of
         Some e \<Rightarrow> Inl (ListenFailed e)
       | None \<Rightarrow> Inr (m\<lparr>ms_accepted := Suc (ms_accepted m), ms_active := Suc (ms_active m)\<rparr>))
     else None)"

definition answerTurn :: "meta_serve \<Rightarrow> (stop_reason + meta_serve) option" where
  "answerTurn m = (if ms_active m > 0 then Some (Inr (m\<lparr>ms_active := ms_active m - 1\<rparr>)) else None)"

text \<open>The second one. The context of the group ends with that of the caller, or with an error, which only it returns.\<close>

definition shutdownTurn :: "http_env \<Rightarrow> bool \<Rightarrow> meta_serve \<Rightarrow> (stop_reason + meta_serve) option" where
  "shutdownTurn E ended m =
    (case ms_shutdowner m of
       AwaitsDone \<Rightarrow> if ended then Some (Inr (m\<lparr>ms_closed := True, ms_shutdowner := ShutsDown\<rparr>)) else None
     | ShutsDown \<Rightarrow> Some (case he_shutdown E (ms_active m) ended of
           Some e \<Rightarrow> Inl (ShutdownFailed e)
         | None \<Rightarrow> Inr (m\<lparr>ms_shutdowner := ShutdownReturned\<rparr>))
     | ShutdownReturned \<Rightarrow> None)"

datatype http_turn = Listener | Connection | Answer | Shutdowner

definition httpTurn :: "http_env \<Rightarrow> bool \<Rightarrow> http_turn \<Rightarrow> meta_serve \<Rightarrow> (stop_reason + meta_serve) option" where
  "httpTurn E ended l m = (case l of
     Listener \<Rightarrow> listenTurn E m | Connection \<Rightarrow> connectionTurn E m | Answer \<Rightarrow> answerTurn m
   | Shutdowner \<Rightarrow> shutdownTurn E ended m)"

definition errExit :: string where
  "errExit = ''exit error''"

text \<open>\<open>group.Wait()\<close>: the error of the second function, once both have returned.\<close>

definition serveReturns :: "meta_serve \<Rightarrow> string option" where
  "serveReturns m =
    (if ms_listener m = ListenerReturned \<and> ms_shutdowner m = ShutdownReturned then Some errExit else None)"

text \<open>The server is up until its context has ended; from then on it is closed first.\<close>

definition serve_inv :: "bool \<Rightarrow> meta_serve \<Rightarrow> bool" where
  "serve_inv ended m \<longleftrightarrow>
    (ms_closed m \<longleftrightarrow> ms_shutdowner m \<noteq> AwaitsDone) \<and> (ms_closed m \<longrightarrow> ended) \<and>
    (ms_listener m = ListenerReturned \<longrightarrow> ms_closed m) \<and>
    (ms_listener m = Opens \<longrightarrow> ms_accepted m = 0) \<and> ms_active m \<le> ms_accepted m"

lemma serve_inv_start: "serve_inv ended serve"
  by (simp add: serve_inv_def serve_def)

lemma serve_inv_ended: "serve_inv ended m \<Longrightarrow> serve_inv True m"
  by (auto simp: serve_inv_def)

lemma httpTurn_inv: "serve_inv ended m \<Longrightarrow> httpTurn E ended l m = Some (Inr m') \<Longrightarrow> serve_inv ended m'"
  by (auto simp: httpTurn_def listenTurn_def connectionTurn_def answerTurn_def shutdownTurn_def serve_inv_def
      split: http_turn.splits shutdowner.splits option.splits if_splits)

subsection \<open>The server ends with its context\<close>

definition endingTurn :: "http_env \<Rightarrow> http_turn \<Rightarrow> stop_reason + meta_serve \<Rightarrow> (stop_reason + meta_serve) option" where
  "endingTurn E l s = (case s of Inl why \<Rightarrow> None | Inr m \<Rightarrow> httpTurn E True l m)"

definition http_over :: "stop_reason + meta_serve \<Rightarrow> bool" where
  "http_over s \<longleftrightarrow> (case s of Inl why \<Rightarrow> True | Inr m \<Rightarrow> serveReturns m \<noteq> None)"

definition http_inv :: "stop_reason + meta_serve \<Rightarrow> bool" where
  "http_inv s \<longleftrightarrow> (case s of Inl why \<Rightarrow> True | Inr m \<Rightarrow> serve_inv True m)"

definition http_rank :: "stop_reason + meta_serve \<Rightarrow> nat" where
  "http_rank s = (case s of
     Inl why \<Rightarrow> 0
   | Inr m \<Rightarrow> (case ms_listener m of Opens \<Rightarrow> 3 | Accepts \<Rightarrow> 2 | ListenerReturned \<Rightarrow> 1) +
       (case ms_shutdowner m of AwaitsDone \<Rightarrow> 2 | ShutsDown \<Rightarrow> 1 | ShutdownReturned \<Rightarrow> 0))"

definition own_goroutine :: "http_turn \<Rightarrow> bool" where
  "own_goroutine l \<longleftrightarrow> l = Listener \<or> l = Shutdowner"

interpretation http: ranked_system "endingTurn E" own_goroutine http_inv http_rank http_over for E
proof
  fix s l t
  assume inv: "http_inv s" and "endingTurn E l s = Some t"
  then obtain m where m: "s = Inr m" "serve_inv True m" "httpTurn E True l m = Some t"
    by (cases s) (auto simp: endingTurn_def http_inv_def)
  then show "http_inv t" using httpTurn_inv by (cases t) (auto simp: http_inv_def)
  show "http_rank t < http_rank s" if "own_goroutine l"
    using that m
    by (auto simp: own_goroutine_def httpTurn_def listenTurn_def shutdownTurn_def http_rank_def
        split: shutdowner.splits listener.splits option.splits if_splits)
  show "http_rank t \<le> http_rank s" if "\<not> own_goroutine l"
    using that m
    by (auto simp: own_goroutine_def httpTurn_def connectionTurn_def answerTurn_def http_rank_def
        split: http_turn.splits option.splits if_splits)
next
  fix s l l' t
  assume "own_goroutine l" and ready: "endingTurn E l s \<noteq> None" and "\<not> own_goroutine l'"
    and turn: "endingTurn E l' s = Some t" and "\<not> http_over t"
  then obtain m n where "s = Inr m" "t = Inr n" "httpTurn E True l' m = Some (Inr n)"
    by (cases s; cases t) (auto simp: endingTurn_def http_over_def)
  then have n: "ms_listener n = ms_listener m" "ms_shutdowner n = ms_shutdowner m" "ms_closed n = ms_closed m"
    using \<open>\<not> own_goroutine l'\<close>
    by (auto simp: own_goroutine_def httpTurn_def connectionTurn_def answerTurn_def
        split: http_turn.splits option.splits if_splits)
  show "endingTurn E l t \<noteq> None"
    using \<open>own_goroutine l\<close> ready n \<open>s = _\<close> \<open>t = _\<close>
    by (auto simp: own_goroutine_def endingTurn_def httpTurn_def listenTurn_def shutdownTurn_def
        split: shutdowner.splits if_splits)
next
  fix s assume inv: "http_inv s" and over: "\<not> http_over s"
  then obtain m where m: "s = Inr m" "serve_inv True m" "serveReturns m = None"
    by (cases s) (auto simp: http_over_def http_inv_def)
  show "\<exists>l. own_goroutine l \<and> endingTurn E l s \<noteq> None"
  proof (cases "ms_shutdowner m = ShutdownReturned")
    case True
    then have "endingTurn E Listener s \<noteq> None"
      using m by (auto simp: endingTurn_def httpTurn_def listenTurn_def serve_inv_def serveReturns_def split: if_splits)
    then show ?thesis by (auto simp: own_goroutine_def)
  next
    case False
    then have "endingTurn E Shutdowner s \<noteq> None"
      using m by (cases "ms_shutdowner m") (simp_all add: endingTurn_def httpTurn_def shutdownTurn_def)
    then show ?thesis by (auto simp: own_goroutine_def)
  qed
qed

subsection \<open>The reconciler and the manager\<close>

text \<open>What \<open>NewUndermoonReconciler\<close> wires: both controllers that talk to a broker use the version of the environment variable.\<close>

record brokerClient =
  cl_apiVersion :: string
  cl_contentType :: string

definition newBrokerClient :: "string \<Rightarrow> brokerClient" where
  "newBrokerClient version = \<lparr>cl_apiVersion = version, cl_contentType = ''application/json''\<rparr>"

record umReconciler =
  re_brokerClient :: brokerClient
  re_metaClient :: brokerClient
  re_coordPool :: redisClientPool

definition newBrokerController :: "string \<Rightarrow> brokerClient" where
  "newBrokerController version = newBrokerClient version"

definition newMetaController :: "string \<Rightarrow> brokerClient" where
  "newMetaController version = newBrokerClient version"

definition newCoordinatorController :: redisClientPool where
  "newCoordinatorController = newRedisClientPool"

definition NewUndermoonReconciler :: "(string \<Rightarrow> string) \<Rightarrow> umReconciler" where
  "NewUndermoonReconciler getenv =
    (let brokerAPIVersion = getenv ''UNDERMOON_OPERATOR_BROKER_API_VERSION'' in
     \<lparr>re_brokerClient = newBrokerController brokerAPIVersion,
      re_metaClient = newMetaController brokerAPIVersion, re_coordPool = newCoordinatorController\<rparr>)"

record manager_options =
  mo_MetricsBindAddress :: string
  mo_Port :: nat
  mo_LeaderElection :: bool
  mo_LeaderElectionID :: string

record controller_spec =
  ct_For :: string
  ct_Owns :: "string list"
  ct_MaxConcurrentReconciles :: nat

definition SetupWithManager :: "(controller_spec \<Rightarrow> string option) \<Rightarrow> string option" where
  "SetupWithManager complete =
    complete \<lparr>ct_For = ''Undermoon'', ct_Owns = [''StatefulSet'', ''Service''], ct_MaxConcurrentReconciles = 1\<rparr>"

subsection \<open>The process\<close>

text \<open>
  What is outside: the registration of the types, the flags given, the Kubernetes configuration, the
  manager, which runs until it is told to stop or fails, and the network. \<open>None\<close> is success.
\<close>

record operator_env =
  oe_scheme :: "string option"
  oe_flags :: "string + string option \<times> bool option"
  oe_getenv :: "string \<Rightarrow> string"
  oe_config :: "string option"
  oe_manager :: "manager_options \<Rightarrow> string option"
  oe_complete :: "controller_spec \<Rightarrow> string option"
  oe_start :: "string option"
  oe_http :: http_env

text \<open>The flags with their defaults, and the options of the manager.\<close>

definition managerOptions :: "string option \<times> bool option \<Rightarrow> manager_options" where
  "managerOptions flags = (case flags of (metricsAddr, enableLeaderElection) \<Rightarrow>
     \<lparr>mo_MetricsBindAddress = (case metricsAddr of None \<Rightarrow> '':8080'' | Some a \<Rightarrow> a), mo_Port = 9443,
      mo_LeaderElection = (case enableLeaderElection of None \<Rightarrow> False | Some b \<Rightarrow> b),
      mo_LeaderElectionID = ''3bbec2d2.doyoubi.mydomain''\<rparr>)"

datatype main_at = AtInit | AtFlags | AtManager manager_options | AtSetup | AtStart | AtReturn

record operator_state =
  os_main :: main_at
  os_reconciler :: "umReconciler option"
  os_http :: "meta_serve option"
  os_cancelled :: bool
  os_exit :: "stop_reason option"

definition operatorStart :: operator_state where
  "operatorStart = \<lparr>os_main = AtInit, os_reconciler = None, os_http = None, os_cancelled = False, os_exit = None\<rparr>"

text \<open>\<open>RunHTTPServer\<close> starts when the reconciler is made; \<open>cancel\<close> is deferred, so only a return of \<open>main\<close> calls it.\<close>

definition operatorMain :: "operator_env \<Rightarrow> operator_state \<Rightarrow> operator_state" where
  "operatorMain E s =
    (case os_main s of
       AtInit \<Rightarrow>
         (case oe_scheme E of
            Some e \<Rightarrow> s\<lparr>os_exit := Some (SchemePanics e)\<rparr>
          | None \<Rightarrow> s\<lparr>os_main := AtFlags\<rparr>)
     | AtFlags \<Rightarrow>
         (case oe_flags E of
            Inl e \<Rightarrow> s\<lparr>os_exit := Some (BadFlags e)\<rparr>
          | Inr flags \<Rightarrow> s\<lparr>os_main := AtManager (managerOptions flags)\<rparr>)
     | AtManager options \<Rightarrow>
         (case oe_config E of
            Some e \<Rightarrow> s\<lparr>os_exit := Some (NoConfig e)\<rparr>
          | None \<Rightarrow>
              (case oe_manager E options of
                 Some e \<Rightarrow> s\<lparr>os_exit := Some (NoManager e)\<rparr>
               | None \<Rightarrow> s\<lparr>os_reconciler := Some (NewUndermoonReconciler (oe_getenv E)),
                   os_http := Some serve, os_main := AtSetup\<rparr>))
     | AtSetup \<Rightarrow>
         (case SetupWithManager (oe_complete E) of
            Some e \<Rightarrow> s\<lparr>os_exit := Some (NoController e)\<rparr>
          | None \<Rightarrow> s\<lparr>os_main := AtStart\<rparr>)
     | AtStart \<Rightarrow>
         (case oe_start E of
            Some e \<Rightarrow> s\<lparr>os_exit := Some (ManagerFailed e)\<rparr>
          | None \<Rightarrow> s\<lparr>os_cancelled := True, os_main := AtReturn\<rparr>)
     | AtReturn \<Rightarrow> s\<lparr>os_exit := Some MainReturned\<rparr>)"

datatype operator_turn = MainGoes | HttpGoes http_turn

definition operatorTurn :: "operator_env \<Rightarrow> operator_turn \<Rightarrow> operator_state \<Rightarrow> operator_state option" where
  "operatorTurn E l s =
    (if os_exit s \<noteq> None then None
     else case l of
         MainGoes \<Rightarrow> Some (operatorMain E s)
       | HttpGoes h \<Rightarrow>
           (case os_http s of
              None \<Rightarrow> None
            | Some m \<Rightarrow>
                (case httpTurn (oe_http E) (os_cancelled s) h m of
                   None \<Rightarrow> None
                 | Some (Inl why) \<Rightarrow> Some (s\<lparr>os_exit := Some why\<rparr>)
                 | Some (Inr m') \<Rightarrow> Some (s\<lparr>os_http := Some m'\<rparr>))))"

inductive operating :: "operator_env \<Rightarrow> operator_state \<Rightarrow> bool" for E where
  begins: "operating E operatorStart"
| goes_on: "operating E s \<Longrightarrow> operatorTurn E l s = Some t \<Longrightarrow> operating E t"

text \<open>Each reason to end with what made it happen.\<close>

definition stop_cause :: "operator_env \<Rightarrow> operator_state \<Rightarrow> stop_reason \<Rightarrow> bool" where
  "stop_cause E s why = (case why of
     SchemePanics e \<Rightarrow> oe_scheme E = Some e
   | BadFlags e \<Rightarrow> oe_flags E = Inl e
   | NoConfig e \<Rightarrow> oe_config E = Some e
   | NoManager e \<Rightarrow> (\<exists>options. oe_manager E options = Some e)
   | NoController e \<Rightarrow> SetupWithManager (oe_complete E) = Some e
   | ManagerFailed e \<Rightarrow> oe_start E = Some e \<and> \<not> os_cancelled s
   | ListenFailed e \<Rightarrow> os_http s \<noteq> None \<and> (he_listen (oe_http E) serverAddr = Some e \<or> (\<exists>n. he_accept (oe_http E) n = Some e))
   | ShutdownFailed e \<Rightarrow> oe_start E = None \<and> os_cancelled s
   | MainReturned \<Rightarrow> oe_start E = None \<and> os_cancelled s)"

definition operator_inv :: "operator_env \<Rightarrow> operator_state \<Rightarrow> bool" where
  "operator_inv E s \<longleftrightarrow>
    (os_cancelled s \<longleftrightarrow> os_main s = AtReturn) \<and> (os_cancelled s \<longrightarrow> oe_start E = None) \<and>
    (os_main s \<in> {AtSetup, AtStart, AtReturn} \<longleftrightarrow> os_http s \<noteq> None) \<and>
    (os_http s = None \<longleftrightarrow> os_reconciler s = None) \<and>
    (case os_http s of None \<Rightarrow> True | Some m \<Rightarrow> serve_inv (os_cancelled s) m) \<and>
    (case os_exit s of None \<Rightarrow> True | Some why \<Rightarrow> stop_cause E s why)"

lemma operatorMain_inv: "operator_inv E s \<Longrightarrow> os_exit s = None \<Longrightarrow> operator_inv E (operatorMain E s)"
  by (cases "os_main s")
    (auto simp: operatorMain_def operator_inv_def stop_cause_def serve_inv_start dest: serve_inv_ended
      split: option.split sum.split)

lemma httpTurn_killed:
  assumes "httpTurn H ended h m = Some (Inl why)" and "serve_inv ended m"
  shows "(\<exists>e. why = ListenFailed e \<and> (he_listen H serverAddr = Some e \<or> (\<exists>n. he_accept H n = Some e))) \<or>
    (\<exists>e. why = ShutdownFailed e \<and> ended)"
proof (cases h)
  case Shutdowner
  then show ?thesis
    using assms by (cases "ms_shutdowner m") (auto simp: httpTurn_def shutdownTurn_def serve_inv_def split: if_splits option.splits)
qed (use assms(1) in \<open>auto simp: httpTurn_def listenTurn_def connectionTurn_def answerTurn_def split: if_splits option.splits\<close>)

lemma operatorTurn_inv:
  assumes "operator_inv E s" and "operatorTurn E l s = Some t"
  shows "operator_inv E t"
proof (cases l)
  case MainGoes
  then show ?thesis using assms operatorMain_inv by (auto simp: operatorTurn_def split: if_splits)
next
  case (HttpGoes h)
  then obtain m r where m: "os_exit s = None" "os_http s = Some m"
      "httpTurn (oe_http E) (os_cancelled s) h m = Some r"
      "t = (case r of Inl why \<Rightarrow> s\<lparr>os_exit := Some why\<rparr> | Inr m' \<Rightarrow> s\<lparr>os_http := Some m'\<rparr>)"
    using assms(2) by (auto simp: operatorTurn_def split: if_splits option.splits sum.splits)
  have inv: "serve_inv (os_cancelled s) m" using assms(1) m(2) unfolding operator_inv_def by (elim conjE) (simp only: option.case)
  show ?thesis
  proof (cases r)
    case (Inl why)
    then show ?thesis
      using httpTurn_killed [OF _ inv, of "oe_http E" h why] m inv assms(1)
      by (auto simp: operator_inv_def stop_cause_def split: stop_reason.split)
  next
    case (Inr m')
    then show ?thesis using httpTurn_inv [OF inv, of "oe_http E" h m'] m assms(1) by (auto simp: operator_inv_def)
  qed
qed

lemma operating_inv: "operating E s \<Longrightarrow> operator_inv E s"
proof (induction rule: operating.induct)
  case begins
  show ?case by (simp add: operator_inv_def operatorStart_def)
next
  case (goes_on s l t)
  from operatorTurn_inv [OF goes_on.IH goes_on.hyps(2)] show ?case .
qed

subsection \<open>What the process does\<close>


text \<open>The turns of a list, one after the other.\<close>

primrec operate :: "operator_env \<Rightarrow> operator_turn list \<Rightarrow> operator_state \<Rightarrow> operator_state" where
  "operate E [] s = s"
| "operate E (l # ls) s = operate E ls (case operatorTurn E l s of None \<Rightarrow> s | Some t \<Rightarrow> t)"

lemma operating_operate: "operating E s \<Longrightarrow> operating E (operate E ls s)"
  by (induction ls arbitrary: s) (auto intro: operating.goes_on split: option.split)

text \<open>A network where an address or a connection may fail, and where \<open>Shutdown\<close> does what it promises.\<close>

definition sample_http :: "string option \<Rightarrow> http_env" where
  "sample_http e = \<lparr>he_listen = (\<lambda>_. e), he_accept = (\<lambda>_. None),
     he_shutdown = (\<lambda>n ended. if n > 0 \<and> ended then Some ''context canceled'' else None)\<rparr>"

definition sample_operator :: "string option \<Rightarrow> operator_env" where
  "sample_operator e = \<lparr>oe_scheme = None, oe_flags = Inr (None, Some True), oe_getenv = (\<lambda>_. ''v3''),
     oe_config = None, oe_manager = (\<lambda>_. None), oe_complete = (\<lambda>_. None), oe_start = None, oe_http = sample_http e\<rparr>"


text \<open>
  C26: When the manager is told to stop while a request is being served, the exit code depends on who goes
  first: \<open>main\<close> returns with 0, but if the goroutine of the server sees the end of the context before that, it hands
  the ended context to \<open>Shutdown\<close>, which therefore does not wait for the request, and ends the process with 1.
\<close>

theorem stop_races_with_request:
  assumes "operating E s" and "os_exit s = None" and "os_cancelled s" and "os_http s = Some m"
    and "ms_active m > 0" and "ms_shutdowner m = AwaitsDone" and "shutdown_law (oe_http E)"
  shows "(\<exists>t. operating E t \<and> operatorTurn E MainGoes s = Some t \<and> os_exit t = Some MainReturned \<and> exitCode MainReturned = 0) \<and>
    (\<exists>t e. operating E t \<and> t = operate E [HttpGoes Shutdowner, HttpGoes Shutdowner] s \<and>
      os_exit t = Some (ShutdownFailed e) \<and> exitCode (ShutdownFailed e) = 1 \<and>
      (\<exists>m'. os_http t = Some m' \<and> ms_active m' = ms_active m))"
proof -
  have "os_main s = AtReturn" using operating_inv [OF assms(1)] assms(3) by (simp add: operator_inv_def)
  then have "operatorTurn E MainGoes s = Some (s\<lparr>os_exit := Some MainReturned\<rparr>)"
    using assms(2) by (simp add: operatorTurn_def operatorMain_def)
  moreover obtain e where "he_shutdown (oe_http E) (ms_active m) True = Some e"
    using assms(5,7) unfolding shutdown_law_def by blast
  then have "operate E [HttpGoes Shutdowner, HttpGoes Shutdowner] s =
      s\<lparr>os_http := Some (m\<lparr>ms_closed := True, ms_shutdowner := ShutsDown\<rparr>), os_exit := Some (ShutdownFailed e)\<rparr>"
    using assms(2-6) by (simp add: operatorTurn_def httpTurn_def shutdownTurn_def)
  ultimately show ?thesis
    using operating.goes_on [OF assms(1)] operating_operate [OF assms(1), of "[HttpGoes Shutdowner, HttpGoes Shutdowner]"]
    by (intro conjI) (auto intro!: exI [of _ e])
qed

theorem stop_races_with_request_witness:
  "\<exists>s t e. operating (sample_operator None) s \<and> os_exit s = None \<and>
    t = operate (sample_operator None) [HttpGoes Shutdowner, HttpGoes Shutdowner] s \<and> os_exit t = Some (ShutdownFailed e)"
proof -
  let ?s = "operate (sample_operator None) [MainGoes, MainGoes, MainGoes, MainGoes, HttpGoes Listener, HttpGoes Connection, MainGoes] operatorStart"
  let ?m = "serve\<lparr>ms_listener := Accepts, ms_accepted := 1, ms_active := 1\<rparr>"
  have s: "os_exit ?s = None" "os_cancelled ?s" "os_http ?s = Some ?m" "ms_active ?m > 0" "ms_shutdowner ?m = AwaitsDone"
    by (simp_all add: operatorTurn_def operatorMain_def operatorStart_def sample_operator_def sample_http_def SetupWithManager_def
        httpTurn_def listenTurn_def connectionTurn_def serve_def)
  have law: "shutdown_law (oe_http (sample_operator None))"
    by (simp add: shutdown_law_def sample_operator_def sample_http_def)
  have run: "operating (sample_operator None) ?s" by (rule operating_operate) (rule operating.begins)
  from stop_races_with_request [OF run s law] run s(1) show ?thesis by blast
qed

text \<open>The states \<open>serve\<close> may be in, before and after the end of its context.\<close>

inductive serve_runs :: "http_env \<Rightarrow> bool \<Rightarrow> meta_serve \<Rightarrow> bool" for E where
  opens: "serve_runs E False serve"
| turn: "serve_runs E ended m \<Longrightarrow> httpTurn E ended l m = Some (Inr m') \<Longrightarrow> serve_runs E ended m'"
| ends: "serve_runs E ended m \<Longrightarrow> serve_runs E True m"

lemma serve_runs_inv: "serve_runs E ended m \<Longrightarrow> serve_inv ended m"
  by (induction rule: serve_runs.induct) (auto intro: serve_inv_start httpTurn_inv serve_inv_ended)

definition fatal :: "stop_reason \<Rightarrow> bool" where
  "fatal why \<longleftrightarrow> (\<exists>e. why = ListenFailed e \<or> why = ShutdownFailed e)"

lemma ending_run:
  assumes "scheduled (endingTurn E) ls \<sigma>" and "\<sigma> 0 = Inr m" and "serve_inv True m"
  shows "case \<sigma> n of Inl why \<Rightarrow> fatal why | Inr m' \<Rightarrow> serve_inv True m'"
proof (induction n)
  case (Suc n)
  show ?case
  proof (cases "\<sigma> n")
    case (Inl why)
    then show ?thesis using Suc scheduledD [OF assms(1), of n] by (simp add: endingTurn_def)
  next
    case (Inr m')
    then have inv: "serve_inv True m'" using Suc by simp
    have "\<sigma> (Suc n) = (case httpTurn E True (ls n) m' of None \<Rightarrow> Inr m' | Some t \<Rightarrow> t)"
      using scheduledD [OF assms(1), of n] Inr
      by (cases "httpTurn E True (ls n) m'") (simp_all add: endingTurn_def)
    then show ?thesis
      using httpTurn_inv [OF inv, of E "ls n"] httpTurn_killed [OF _ inv, of E "ls n"] inv
      by (auto simp: fatal_def split: option.split sum.split)
  qed
qed (use assms(2,3) in simp)

text \<open>
  C27: Once its context has ended, \<open>serve\<close> returns \<open>errExit\<close> under every schedule that is fair to its two goroutines,
  whatever connections and requests do, unless a \<open>log.Fatal\<close> ends the process first.
\<close>

theorem serve_ends:
  assumes "serve_runs E ended m" and "scheduled (endingTurn E) ls \<sigma>" and "\<sigma> 0 = Inr m"
    and "fair (endingTurn E) own_goroutine ls \<sigma>"
  shows "\<exists>n. case \<sigma> n of Inl why \<Rightarrow> fatal why | Inr m' \<Rightarrow> serveReturns m' = Some errExit"
proof -
  have inv: "serve_inv True m" using serve_runs_inv [OF assms(1)] by (rule serve_inv_ended)
  have "http_inv (\<sigma> 0)" using assms(3) inv by (simp add: http_inv_def)
  from http.ends [OF assms(2,4) this] obtain n where "http_over (\<sigma> n)" by blast
  then show ?thesis
    using ending_run [OF assms(2,3) inv, of n]
    by (intro exI [of _ n]) (auto simp: http_over_def serveReturns_def split: sum.splits if_splits)
qed

theorem serve_ends_witness:
  "\<exists>\<sigma> (n::nat). \<sigma> 0 = Inr serve \<and> (case \<sigma> n of Inl why \<Rightarrow> fatal why | Inr m' \<Rightarrow> serveReturns m' = Some errExit) \<and>
    serveReturns serve = None"
proof -
  let ?E = "sample_http None"
  let ?ls = "\<lambda>n. if n < 3 then [Listener, Shutdowner, Shutdowner] ! n else Listener"
  let ?\<sigma> = "run_of (endingTurn ?E) ?ls (Inr serve)"
  have "?\<sigma> 4 = Inr (serve\<lparr>ms_listener := ListenerReturned, ms_shutdowner := ShutdownReturned, ms_closed := True\<rparr>)"
    by (simp add: eval_nat_numeral endingTurn_def httpTurn_def listenTurn_def shutdownTurn_def serve_def sample_http_def)
  then have "endingTurn ?E l (?\<sigma> 4) = None" for l
    by (cases l) (simp_all add: endingTurn_def httpTurn_def listenTurn_def shutdownTurn_def connectionTurn_def answerTurn_def serve_def)
  then have "fair (endingTurn ?E) own_goroutine ?ls ?\<sigma>" by (rule fair_stuck)
  moreover have start: "?\<sigma> 0 = Inr serve" by simp
  ultimately obtain n where "case ?\<sigma> n of Inl why \<Rightarrow> fatal why | Inr m' \<Rightarrow> serveReturns m' = Some errExit"
    using serve_ends [OF serve_runs.opens scheduled_run_of start] by blast
  then have "?\<sigma> 0 = Inr serve \<and> (case ?\<sigma> n of Inl why \<Rightarrow> fatal why | Inr m' \<Rightarrow> serveReturns m' = Some errExit) \<and>
      serveReturns serve = None"
    by (simp add: serveReturns_def serve_def)
  then have "\<exists>n. ?\<sigma> 0 = Inr serve \<and> (case ?\<sigma> n of Inl why \<Rightarrow> fatal why | Inr m' \<Rightarrow> serveReturns m' = Some errExit) \<and>
      serveReturns serve = None" by (rule exI)
  then show ?thesis by (rule exI [where x = "?\<sigma>"])
qed

end
