(* ===== verification/Deep_Copy.thy ===== *)
theory Deep_Copy
  imports Main "HOL-Library.State_Monad" "HOL-Library.Finite_Map" "HOL-Library.List_Lexorder" "HOL-Library.Char_ord"
begin

section \<open>Deep copies of the custom resource (api/v1alpha1/zz_generated.deepcopy.go)\<close>

text \<open>
  Slices, maps and pointers are addresses of an explicit store, so that sharing is visible: an assignment copies
  the addresses of a struct, a deep copy does not. A value of a library type is its data without
  references, of a type \<open>'p\<close> that is not looked into, and its references; the \<open>DeepCopyInto\<close> of the library types are
  parameters with the law \<open>lawful\<close>. A slice is one array whose length and
  capacity agree. The receiver is read from one address and the copy written to another.
\<close>

subsection \<open>The store\<close>

type_synonym addr = nat

datatype 'p val = Node 'p "addr option list"

text \<open>A value of \<open>UndermoonSpec\<close> in memory: the fields without references, then the others in their order.\<close>

record 'p mem_spec =
  sp_Plain :: 'p
  sp_BrokerEnvVar :: "addr option"
  sp_CoordinatorEnvVar :: "addr option"
  sp_ProxyEnvVar :: "addr option"
  sp_RedisEnvVar :: "addr option"
  sp_BrokerResources :: "'p val"
  sp_CoordinatorResources :: "'p val"
  sp_ProxyResources :: "'p val"
  sp_RedisResources :: "'p val"
  sp_Affinity :: "addr option"
  sp_NodeSelector :: "addr option"
  sp_ImagePullSecrets :: "addr option"
  sp_Tolerations :: "addr option"
  sp_StorageVolumes :: "addr option"
  sp_RedisVolumeMounts :: "addr option"
  sp_RedisVolumeDevices :: "addr option"
  sp_VolumeClaimTemplates :: "addr option"

record 'p mem_status =
  ss_Plain :: 'p
  ss_ScaleDownWaitTimestamp :: 'p

record 'p mem_undermoon =
  mu_TypeMeta :: 'p
  mu_ObjectMeta :: "'p val"
  mu_Spec :: "'p mem_spec"
  mu_Status :: "'p mem_status"

record 'p mem_list =
  ml_TypeMeta :: 'p
  ml_ListMeta :: "'p val"
  ml_Items :: "addr option"

text \<open>What an address holds: an array, of length one behind a pointer, or a map.\<close>

datatype 'p cell =
    Vals "'p val list"
  | StrMap "(string, string) fmap"
  | Undermoons "'p mem_undermoon list"
  | Lists "'p mem_list list"
  | Specs "'p mem_spec list"
  | Statuses "'p mem_status list"

type_synonym 'p heap = "'p cell list"

type_synonym ('p, 'a) mem = "('p heap, 'a) state"

text \<open>The value itself, without addresses.\<close>

datatype 'p tree = Tree 'p "'p sub option list"
  and 'p sub = Elems "'p tree list" | Entries "(string, string) fmap"

text \<open>\<open>den n h v t\<close>: in the store \<open>h\<close> the value \<open>v\<close> is \<open>t\<close>, and all that it refers to lies at \<open>n\<close> or above.\<close>

inductive den :: "nat \<Rightarrow> 'p heap \<Rightarrow> 'p val \<Rightarrow> 'p tree \<Rightarrow> bool"
  and den_ptr :: "nat \<Rightarrow> 'p heap \<Rightarrow> addr option \<Rightarrow> 'p sub option \<Rightarrow> bool"
  for n h where
  node: "list_all2 (den_ptr n h) ps ss \<Longrightarrow> den n h (Node d ps) (Tree d ss)"
| nil: "den_ptr n h None None"
| vals: "n \<le> a \<Longrightarrow> a < length h \<Longrightarrow> h ! a = Vals vs \<Longrightarrow> list_all2 (den n h) vs ts \<Longrightarrow>
    den_ptr n h (Some a) (Some (Elems ts))"
| entries: "n \<le> a \<Longrightarrow> a < length h \<Longrightarrow> h ! a = StrMap m \<Longrightarrow> den_ptr n h (Some a) (Some (Entries m))"

inductive_simps den_ptr_None [simp]: "den_ptr n h None t"
inductive_simps den_ptr_nil [simp]: "den_ptr n h p None"
inductive_simps den_ptr_Some: "den_ptr n h (Some a) t"
inductive_simps den_Node: "den n h (Node d ps) t"

text \<open>A value only depends on the addresses it may refer to.\<close>

lemma den_frame:
  assumes "\<And>a. n \<le> a \<Longrightarrow> a < length h \<Longrightarrow> a < length h' \<and> h' ! a = h ! a" and "k \<le> n"
  shows "den n h v t \<Longrightarrow> den k h' v t" and "den_ptr n h p s \<Longrightarrow> den_ptr k h' p s"
proof (induction rule: den_den_ptr.inducts)
  case (node ps ss d)
  then show ?case by (auto intro!: den_den_ptr.node elim: list.rel_mono_strong)
next
  case (vals a vs ts)
  then show ?case using assms by (intro den_den_ptr.vals [of k a h' vs]) (auto elim: list.rel_mono_strong)
next
  case (entries a m)
  then show ?case using assms by (intro den_den_ptr.entries) auto
qed (rule den_den_ptr.nil)

subsection \<open>The generated functions\<close>

definition reads :: "('p heap \<Rightarrow> 'a) \<Rightarrow> ('p, 'a) mem" where
  "reads f = State (\<lambda>h. (f h, h))"

definition modifies :: "('p heap \<Rightarrow> 'p heap) \<Rightarrow> ('p, unit) mem" where
  "modifies f = State (\<lambda>h. ((), f h))"

text \<open>\<open>new\<close> and \<open>make\<close>: an address not used so far.\<close>

definition alloc :: "'p cell \<Rightarrow> ('p, addr) mem" where
  "alloc c = State (\<lambda>h. (length h, h @ [c]))"

fun vals_of :: "'p cell \<Rightarrow> 'p val list" where
  "vals_of (Vals vs) = vs" | "vals_of c = []"

fun undermoons_of :: "'p cell \<Rightarrow> 'p mem_undermoon list" where
  "undermoons_of (Undermoons us) = us" | "undermoons_of c = []"

fun entries_of :: "'p cell \<Rightarrow> (string, string) fmap" where
  "entries_of (StrMap m) = m" | "entries_of c = fmempty"

text \<open>The loop \<open>for i := range *in { (*in)[i].DeepCopyInto(&(*out)[i]) }\<close>.\<close>

primrec copyElems ::
  "('v list \<Rightarrow> 'p cell) \<Rightarrow> ('p cell \<Rightarrow> 'v list) \<Rightarrow> ('v \<Rightarrow> ('p, 'v) mem) \<Rightarrow> addr \<Rightarrow> addr \<Rightarrow> nat list \<Rightarrow> ('p, unit) mem" where
  "copyElems wrap elems copy src out [] = State_Monad.return ()"
| "copyElems wrap elems copy src out (i # is) = do {
     v \<leftarrow> reads (\<lambda>h. elems (h ! src) ! i);
     v' \<leftarrow> copy v;
     _ \<leftarrow> modifies (\<lambda>h. h[out := wrap ((elems (h ! out))[i := v'])]);
     copyElems wrap elems copy src out is }"

definition copySlice ::
  "('v list \<Rightarrow> 'p cell) \<Rightarrow> ('p cell \<Rightarrow> 'v list) \<Rightarrow> 'v \<Rightarrow> ('v \<Rightarrow> ('p, 'v) mem) \<Rightarrow> addr option \<Rightarrow> ('p, addr option) mem" where
  "copySlice wrap elems zero copy p = (case p of
     None \<Rightarrow> State_Monad.return None
   | Some src \<Rightarrow> do {
       n \<leftarrow> reads (\<lambda>h. length (elems (h ! src)));
       out \<leftarrow> alloc (wrap (replicate n zero));
       _ \<leftarrow> copyElems wrap elems copy src out [0..<n];
       State_Monad.return (Some out) })"

text \<open>\<open>new(v1.Affinity)\<close>, which is filled in.\<close>

definition copyPointer :: "'p val \<Rightarrow> ('p val \<Rightarrow> ('p, 'p val) mem) \<Rightarrow> addr option \<Rightarrow> ('p, addr option) mem" where
  "copyPointer zero copy p = (case p of
     None \<Rightarrow> State_Monad.return None
   | Some src \<Rightarrow> do {
       out \<leftarrow> alloc (Vals [zero]);
       _ \<leftarrow> copyElems Vals vals_of copy src out [0];
       State_Monad.return (Some out) })"

text \<open>\<open>copy(*out, *in)\<close>, which assigns the elements.\<close>

definition assignSlice :: "'p val \<Rightarrow> addr option \<Rightarrow> ('p, addr option) mem" where
  "assignSlice zero p = (case p of
     None \<Rightarrow> State_Monad.return None
   | Some src \<Rightarrow> do {
       n \<leftarrow> reads (\<lambda>h. length (vals_of (h ! src)));
       out \<leftarrow> alloc (Vals (replicate n zero));
       _ \<leftarrow> modifies (\<lambda>h. h[out := Vals (vals_of (h ! src))]);
       State_Monad.return (Some out) })"

text \<open>The loop over a map, in the order in which its entries are visited.\<close>

primrec storeEntries :: "addr \<Rightarrow> (string \<times> string) list \<Rightarrow> ('p, unit) mem" where
  "storeEntries out [] = State_Monad.return ()"
| "storeEntries out (kv # kvs) = do {
     _ \<leftarrow> modifies (\<lambda>h. h[out := StrMap (fmupd (fst kv) (snd kv) (entries_of (h ! out)))]);
     storeEntries out kvs }"

definition copyMap :: "((string, string) fmap \<Rightarrow> (string \<times> string) list) \<Rightarrow> addr option \<Rightarrow> ('p, addr option) mem" where
  "copyMap ranging p = (case p of
     None \<Rightarrow> State_Monad.return None
   | Some src \<Rightarrow> do {
       m \<leftarrow> reads (\<lambda>h. entries_of (h ! src));
       out \<leftarrow> alloc (StrMap fmempty);
       _ \<leftarrow> storeEntries out (ranging m);
       State_Monad.return (Some out) })"

text \<open>The library: the zero values, the order of a range, and the \<open>DeepCopyInto\<close> of its types.\<close>

record 'p library =
  li_zero :: 'p
  li_zeroVal :: "'p val"
  li_range :: "(string, string) fmap \<Rightarrow> (string \<times> string) list"
  li_EnvVar :: "'p val \<Rightarrow> ('p, 'p val) mem"
  li_ResourceRequirements :: "'p val \<Rightarrow> ('p, 'p val) mem"
  li_Affinity :: "'p val \<Rightarrow> ('p, 'p val) mem"
  li_Toleration :: "'p val \<Rightarrow> ('p, 'p val) mem"
  li_Volume :: "'p val \<Rightarrow> ('p, 'p val) mem"
  li_VolumeMount :: "'p val \<Rightarrow> ('p, 'p val) mem"
  li_PersistentVolumeClaim :: "'p val \<Rightarrow> ('p, 'p val) mem"
  li_ObjectMeta :: "'p val \<Rightarrow> ('p, 'p val) mem"
  li_ListMeta :: "'p val \<Rightarrow> ('p, 'p val) mem"
  li_Time :: "'p \<Rightarrow> 'p"

definition copyVals :: "'p library \<Rightarrow> ('p val \<Rightarrow> ('p, 'p val) mem) \<Rightarrow> addr option \<Rightarrow> ('p, addr option) mem" where
  "copyVals L copy p = copySlice Vals vals_of (li_zeroVal L) copy p"

definition UndermoonSpec_DeepCopyInto :: "'p library \<Rightarrow> 'p mem_spec \<Rightarrow> ('p, 'p mem_spec) mem" where
  "UndermoonSpec_DeepCopyInto L s = do {
     brokerEnv \<leftarrow> copyVals L (li_EnvVar L) (sp_BrokerEnvVar s);
     coordEnv \<leftarrow> copyVals L (li_EnvVar L) (sp_CoordinatorEnvVar s);
     proxyEnv \<leftarrow> copyVals L (li_EnvVar L) (sp_ProxyEnvVar s);
     redisEnv \<leftarrow> copyVals L (li_EnvVar L) (sp_RedisEnvVar s);
     brokerRes \<leftarrow> li_ResourceRequirements L (sp_BrokerResources s);
     coordRes \<leftarrow> li_ResourceRequirements L (sp_CoordinatorResources s);
     proxyRes \<leftarrow> li_ResourceRequirements L (sp_ProxyResources s);
     redisRes \<leftarrow> li_ResourceRequirements L (sp_RedisResources s);
     affinity \<leftarrow> copyPointer (li_zeroVal L) (li_Affinity L) (sp_Affinity s);
     selector \<leftarrow> copyMap (li_range L) (sp_NodeSelector s);
     pullSecrets \<leftarrow> assignSlice (li_zeroVal L) (sp_ImagePullSecrets s);
     tolerations \<leftarrow> copyVals L (li_Toleration L) (sp_Tolerations s);
     volumes \<leftarrow> copyVals L (li_Volume L) (sp_StorageVolumes s);
     mounts \<leftarrow> copyVals L (li_VolumeMount L) (sp_RedisVolumeMounts s);
     devices \<leftarrow> assignSlice (li_zeroVal L) (sp_RedisVolumeDevices s);
     claims \<leftarrow> copyVals L (li_PersistentVolumeClaim L) (sp_VolumeClaimTemplates s);
     State_Monad.return (s\<lparr>sp_BrokerEnvVar := brokerEnv, sp_CoordinatorEnvVar := coordEnv,
       sp_ProxyEnvVar := proxyEnv, sp_RedisEnvVar := redisEnv, sp_BrokerResources := brokerRes,
       sp_CoordinatorResources := coordRes, sp_ProxyResources := proxyRes, sp_RedisResources := redisRes,
       sp_Affinity := affinity, sp_NodeSelector := selector, sp_ImagePullSecrets := pullSecrets,
       sp_Tolerations := tolerations, sp_StorageVolumes := volumes, sp_RedisVolumeMounts := mounts,
       sp_RedisVolumeDevices := devices, sp_VolumeClaimTemplates := claims\<rparr>) }"

definition UndermoonStatus_DeepCopyInto :: "'p library \<Rightarrow> 'p mem_status \<Rightarrow> ('p, 'p mem_status) mem" where
  "UndermoonStatus_DeepCopyInto L s =
    State_Monad.return (s\<lparr>ss_ScaleDownWaitTimestamp := li_Time L (ss_ScaleDownWaitTimestamp s)\<rparr>)"

text \<open>The status is assigned: it holds no reference that could be written through.\<close>

definition Undermoon_DeepCopyInto :: "'p library \<Rightarrow> 'p mem_undermoon \<Rightarrow> ('p, 'p mem_undermoon) mem" where
  "Undermoon_DeepCopyInto L u = do {
     meta \<leftarrow> li_ObjectMeta L (mu_ObjectMeta u);
     spec \<leftarrow> UndermoonSpec_DeepCopyInto L (mu_Spec u);
     State_Monad.return (u\<lparr>mu_TypeMeta := mu_TypeMeta u, mu_ObjectMeta := meta, mu_Spec := spec, mu_Status := mu_Status u\<rparr>) }"

definition zeroSpec :: "'p library \<Rightarrow> 'p mem_spec" where
  "zeroSpec L = \<lparr>sp_Plain = li_zero L, sp_BrokerEnvVar = None, sp_CoordinatorEnvVar = None, sp_ProxyEnvVar = None,
     sp_RedisEnvVar = None, sp_BrokerResources = li_zeroVal L, sp_CoordinatorResources = li_zeroVal L,
     sp_ProxyResources = li_zeroVal L, sp_RedisResources = li_zeroVal L, sp_Affinity = None, sp_NodeSelector = None,
     sp_ImagePullSecrets = None, sp_Tolerations = None, sp_StorageVolumes = None, sp_RedisVolumeMounts = None,
     sp_RedisVolumeDevices = None, sp_VolumeClaimTemplates = None\<rparr>"

definition zeroStatus :: "'p library \<Rightarrow> 'p mem_status" where
  "zeroStatus L = \<lparr>ss_Plain = li_zero L, ss_ScaleDownWaitTimestamp = li_zero L\<rparr>"

definition zeroUndermoon :: "'p library \<Rightarrow> 'p mem_undermoon" where
  "zeroUndermoon L = \<lparr>mu_TypeMeta = li_zero L, mu_ObjectMeta = li_zeroVal L, mu_Spec = zeroSpec L, mu_Status = zeroStatus L\<rparr>"

definition zeroList :: "'p library \<Rightarrow> 'p mem_list" where
  "zeroList L = \<lparr>ml_TypeMeta = li_zero L, ml_ListMeta = li_zeroVal L, ml_Items = None\<rparr>"

definition UndermoonList_DeepCopyInto :: "'p library \<Rightarrow> 'p mem_list \<Rightarrow> ('p, 'p mem_list) mem" where
  "UndermoonList_DeepCopyInto L l = do {
     meta \<leftarrow> li_ListMeta L (ml_ListMeta l);
     items \<leftarrow> copySlice Undermoons undermoons_of (zeroUndermoon L) (Undermoon_DeepCopyInto L) (ml_Items l);
     State_Monad.return (l\<lparr>ml_TypeMeta := ml_TypeMeta l, ml_ListMeta := meta, ml_Items := items\<rparr>) }"

text \<open>
  \<open>DeepCopy\<close> of the four types: the receiver is a pointer, and nil has no copy. \<open>DeepCopyObject\<close> returns an interface;
  it tests for nil first, so that the result for nil is the nil interface.
\<close>

fun lists_of :: "'p cell \<Rightarrow> 'p mem_list list" where
  "lists_of (Lists ls) = ls" | "lists_of c = []"

fun specs_of :: "'p cell \<Rightarrow> 'p mem_spec list" where
  "specs_of (Specs ss) = ss" | "specs_of c = []"

fun statuses_of :: "'p cell \<Rightarrow> 'p mem_status list" where
  "statuses_of (Statuses ss) = ss" | "statuses_of c = []"

definition deepCopy ::
  "('v list \<Rightarrow> 'p cell) \<Rightarrow> ('p cell \<Rightarrow> 'v list) \<Rightarrow> 'v \<Rightarrow> ('v \<Rightarrow> ('p, 'v) mem) \<Rightarrow> addr option \<Rightarrow> ('p, addr option) mem" where
  "deepCopy wrap elems zero copyInto p = (case p of
     None \<Rightarrow> State_Monad.return None
   | Some src \<Rightarrow> do {
       out \<leftarrow> alloc (wrap [zero]);
       v \<leftarrow> reads (\<lambda>h. hd (elems (h ! src)));
       v' \<leftarrow> copyInto v;
       _ \<leftarrow> modifies (\<lambda>h. h[out := wrap [v']]);
       State_Monad.return (Some out) })"

definition Undermoon_DeepCopy :: "'p library \<Rightarrow> addr option \<Rightarrow> ('p, addr option) mem" where
  "Undermoon_DeepCopy L p = deepCopy Undermoons undermoons_of (zeroUndermoon L) (Undermoon_DeepCopyInto L) p"

definition UndermoonList_DeepCopy :: "'p library \<Rightarrow> addr option \<Rightarrow> ('p, addr option) mem" where
  "UndermoonList_DeepCopy L p = deepCopy Lists lists_of (zeroList L) (UndermoonList_DeepCopyInto L) p"

definition UndermoonSpec_DeepCopy :: "'p library \<Rightarrow> addr option \<Rightarrow> ('p, addr option) mem" where
  "UndermoonSpec_DeepCopy L p = deepCopy Specs specs_of (zeroSpec L) (UndermoonSpec_DeepCopyInto L) p"

definition UndermoonStatus_DeepCopy :: "'p library \<Rightarrow> addr option \<Rightarrow> ('p, addr option) mem" where
  "UndermoonStatus_DeepCopy L p = deepCopy Statuses statuses_of (zeroStatus L) (UndermoonStatus_DeepCopyInto L) p"

datatype runtime_object = UndermoonObject addr | UndermoonListObject addr

definition Undermoon_DeepCopyObject :: "'p library \<Rightarrow> addr option \<Rightarrow> ('p, runtime_object option) mem" where
  "Undermoon_DeepCopyObject L p = do {
     c \<leftarrow> Undermoon_DeepCopy L p;
     State_Monad.return (case c of None \<Rightarrow> None | Some a \<Rightarrow> Some (UndermoonObject a)) }"

definition UndermoonList_DeepCopyObject :: "'p library \<Rightarrow> addr option \<Rightarrow> ('p, runtime_object option) mem" where
  "UndermoonList_DeepCopyObject L p = do {
     c \<leftarrow> UndermoonList_DeepCopy L p;
     State_Monad.return (case c of None \<Rightarrow> None | Some a \<Rightarrow> Some (UndermoonListObject a)) }"

subsection \<open>Copying arrays\<close>

text \<open>What a value is, as a relation of the store; what it refers to may move only out of the way.\<close>

definition agrees_from :: "nat \<Rightarrow> 'p heap \<Rightarrow> 'p heap \<Rightarrow> bool" where
  "agrees_from n h h' \<longleftrightarrow> (\<forall>a. n \<le> a \<longrightarrow> a < length h \<longrightarrow> a < length h' \<and> h' ! a = h ! a)"

definition framed :: "(nat \<Rightarrow> 'p heap \<Rightarrow> 'v \<Rightarrow> 't \<Rightarrow> bool) \<Rightarrow> bool" where
  "framed D \<longleftrightarrow> (\<forall>n k h h' v t. agrees_from n h h' \<longrightarrow> k \<le> n \<longrightarrow> D n h v t \<longrightarrow> D k h' v t)"

text \<open>A deep copy: the same value, in a store that has only grown, referring to new addresses only.\<close>

definition lawful :: "(nat \<Rightarrow> 'p heap \<Rightarrow> 'v \<Rightarrow> 't \<Rightarrow> bool) \<Rightarrow> ('v \<Rightarrow> ('p, 'v) mem) \<Rightarrow> bool" where
  "lawful D copy \<longleftrightarrow> (\<forall>h v t. D 0 h v t \<longrightarrow>
     (\<exists>v' z. run_state (copy v) h = (v', h @ z) \<and> D (length h) (h @ z) v' t))"

lemma agrees_from_grow [simp]: "agrees_from n h (h @ z)"
  by (simp add: agrees_from_def nth_append)

lemma framedD: "framed D \<Longrightarrow> D n h v t \<Longrightarrow> agrees_from n h h' \<Longrightarrow> k \<le> n \<Longrightarrow> D k h' v t"
  by (simp add: framed_def)

lemma framed_all2: "framed D \<Longrightarrow> list_all2 (D n h) vs ts \<Longrightarrow> agrees_from n h h' \<Longrightarrow> k \<le> n \<Longrightarrow> list_all2 (D k h') vs ts"
  by (erule list.rel_mono_strong) (rule framedD)

lemma framed_den: "framed den"
  unfolding framed_def agrees_from_def by (intro allI impI, rule den_frame(1) [rotated 2], assumption) auto

lemma framed_den_ptr: "framed den_ptr"
  unfolding framed_def agrees_from_def by (intro allI impI, rule den_frame(2) [rotated 2], assumption) auto

lemma run_mem [simp]:
  "run_state (reads f) h = (f h, h)"
  "run_state (modifies g) h = ((), g h)"
  "run_state (alloc c) h = (length h, h @ [c])"
  by (simp_all add: reads_def modifies_def alloc_def)

lemma copyElems_run:
  assumes D: "framed D" "lawful D copy" and we: "\<And>vs. elems (wrap vs) = vs"
    and src: "src < length h0" "elems (h0 ! src) = vs" "list_all2 (D 0 h0) vs ts"
    and "length ws = length vs" and "list_all2 (D (Suc (length h0)) (h0 @ wrap ws # z)) (take k ws) (take k ts)"
    and "k \<le> length vs"
  shows "\<exists>ws' z'. run_state (copyElems wrap elems copy src (length h0) [k..<length vs]) (h0 @ wrap ws # z) =
      ((), h0 @ wrap ws' # z') \<and> list_all2 (D (Suc (length h0)) (h0 @ wrap ws' # z')) ws' ts"
  using assms(7-9)
proof (induction "length vs - k" arbitrary: k ws z)
  case 0
  then have "k = length vs" by simp
  moreover have "length ts = length vs" using src(3) by (simp add: list_all2_lengthD)
  ultimately show ?case using 0 by (intro exI [of _ ws] exI [of _ z]) simp
next
  case (Suc m)
  let ?h = "h0 @ wrap ws # z"
  have k: "k < length vs" using Suc.hyps(2) by simp
  have len: "length ts = length vs" using src(3) by (simp add: list_all2_lengthD)
  have "D 0 h0 (vs ! k) (ts ! k)" using src(3) k by (simp add: list_all2_nthD)
  from framedD [OF D(1) this agrees_from_grow, of 0 "wrap ws # z"] have "D 0 ?h (vs ! k) (ts ! k)" by simp
  then obtain v' x where v': "run_state (copy (vs ! k)) ?h = (v', ?h @ x)" "D (length ?h) (?h @ x) v' (ts ! k)"
    using D(2) unfolding lawful_def by blast
  let ?ws = "ws[k := v']" and ?h' = "h0 @ wrap (ws[k := v']) # z @ x"
  have "agrees_from (length ?h) (?h @ x) ?h'" by (auto simp: agrees_from_def nth_append nth_Cons')
  from framedD [OF D(1) v'(2) this] have new: "D (Suc (length h0)) ?h' v' (ts ! k)" by simp
  have "agrees_from (Suc (length h0)) ?h ?h'" by (auto simp: agrees_from_def nth_append nth_Cons')
  from framed_all2 [OF D(1) Suc.prems(2) this]
  have "list_all2 (D (Suc (length h0)) ?h') (take k ws) (take k ts)" by simp
  then have all: "list_all2 (D (Suc (length h0)) ?h') (take (Suc k) ?ws) (take (Suc k) ts)"
    using new k len Suc.prems(1) by (simp add: take_Suc_conv_app_nth list_all2_appendI)
  have step: "run_state (copyElems wrap elems copy src (length h0) [k..<length vs]) ?h =
      run_state (copyElems wrap elems copy src (length h0) [Suc k..<length vs]) ?h'"
    using k src(1,2) v'(1) we by (simp add: upt_conv_Cons nth_append)
  show ?case unfolding step by (rule Suc.hyps(1)) (use Suc.hyps(2) Suc.prems(1) all k in auto)
qed

definition slice_den ::
  "('v list \<Rightarrow> 'p cell) \<Rightarrow> (nat \<Rightarrow> 'p heap \<Rightarrow> 'v \<Rightarrow> 't \<Rightarrow> bool) \<Rightarrow> nat \<Rightarrow> 'p heap \<Rightarrow> addr option \<Rightarrow> 't list option \<Rightarrow> bool" where
  "slice_den wrap D n h p s = (case p of
     None \<Rightarrow> s = None
   | Some a \<Rightarrow> \<exists>vs ts. n \<le> a \<and> a < length h \<and> h ! a = wrap vs \<and> s = Some ts \<and> list_all2 (D n h) vs ts)"

definition map_den :: "nat \<Rightarrow> 'p heap \<Rightarrow> addr option \<Rightarrow> (string, string) fmap option \<Rightarrow> bool" where
  "map_den n h p s = (case p of
     None \<Rightarrow> s = None
   | Some a \<Rightarrow> n \<le> a \<and> a < length h \<and> (\<exists>m. h ! a = StrMap m \<and> s = Some m))"

text \<open>The elements of \<open>v1.LocalObjectReference\<close> and \<open>v1.VolumeDevice\<close> have no references; behind a pointer is one value.\<close>

definition flat_den :: "nat \<Rightarrow> 'p heap \<Rightarrow> 'p val \<Rightarrow> 'p \<Rightarrow> bool" where
  "flat_den n h v d \<longleftrightarrow> v = Node d []"

definition pointer_den :: "nat \<Rightarrow> 'p heap \<Rightarrow> addr option \<Rightarrow> 'p tree option \<Rightarrow> bool" where
  "pointer_den n h p s \<longleftrightarrow> slice_den Vals den n h p (map_option (\<lambda>t. [t]) s)"

lemma slice_den_ptr: "slice_den Vals den n h p s \<longleftrightarrow> den_ptr n h p (map_option Elems s)"
  by (cases p) (auto simp: slice_den_def den_ptr_Some)

lemma framed_slice: "framed D \<Longrightarrow> framed (slice_den wrap D)"
  unfolding framed_def [of "slice_den wrap D"]
proof (intro allI impI)
  fix n k :: nat and h h' p s
  assume D: "framed D" and ag: "agrees_from n h h'" and "k \<le> n" and den: "slice_den wrap D n h p s"
  show "slice_den wrap D k h' p s"
  proof (cases p)
    case (Some a)
    then obtain vs ts where a: "n \<le> a" "a < length h" "h ! a = wrap vs" "s = Some ts" "list_all2 (D n h) vs ts"
      using den by (auto simp: slice_den_def)
    have "list_all2 (D k h') vs ts" by (rule framed_all2 [OF D a(5) ag \<open>k \<le> n\<close>])
    moreover have "k \<le> a" "a < length h'" "h' ! a = wrap vs"
      using a(1-3) ag \<open>k \<le> n\<close> by (auto simp: agrees_from_def)
    ultimately show ?thesis using a(4) Some by (auto simp: slice_den_def)
  qed (use den in \<open>simp add: slice_den_def\<close>)
qed

lemma framed_others: "framed map_den" "framed flat_den" "framed pointer_den"
proof -
  show "framed map_den" by (auto simp: framed_def agrees_from_def map_den_def split: option.splits)
  show "framed flat_den" by (simp add: framed_def flat_den_def)
  show "framed pointer_den"
    using framed_slice [OF framed_den, of Vals] unfolding framed_def pointer_den_def by blast
qed

lemmas framed_rules = framed_den framed_slice framed_others

lemma lawful_slice:
  assumes D: "framed D" "lawful D copy" and we: "\<And>vs. elems (wrap vs) = vs"
  shows "lawful (slice_den wrap D) (copySlice wrap elems zero copy)"
  unfolding lawful_def
proof (intro allI impI)
  fix h p s assume den: "slice_den wrap D 0 h p s"
  show "\<exists>p' z. run_state (copySlice wrap elems zero copy p) h = (p', h @ z) \<and> slice_den wrap D (length h) (h @ z) p' s"
  proof (cases p)
    case (Some a)
    then obtain vs ts where a: "a < length h" "h ! a = wrap vs" "s = Some ts" "list_all2 (D 0 h) vs ts"
      using den by (auto simp: slice_den_def)
    obtain ws z where run: "run_state (copyElems wrap elems copy a (length h) [0..<length vs])
        (h @ wrap (replicate (length vs) zero) # []) = ((), h @ wrap ws # z)"
      and ws: "list_all2 (D (Suc (length h)) (h @ wrap ws # z)) ws ts"
      using copyElems_run [OF D, of elems wrap a h vs ts "replicate (length vs) zero" "[]" 0] we a by auto
    have "list_all2 (D (length h) (h @ wrap ws # z)) ws ts"
      by (rule framed_all2 [OF D(1) ws]) (simp_all add: agrees_from_def)
    then show ?thesis
      using run a Some we by (intro exI [of _ "Some (length h)"] exI [of _ "wrap ws # z"])
        (auto simp: copySlice_def slice_den_def)
  qed (use den in \<open>simp add: copySlice_def slice_den_def\<close>)
qed

lemma lawful_pointer:
  assumes "lawful den copy"
  shows "lawful pointer_den (copyPointer zero copy)"
  unfolding lawful_def
proof (intro allI impI)
  fix h :: "'a heap" and p s assume den: "pointer_den 0 h p s"
  have "run_state (copyPointer zero copy p) h = run_state (copySlice Vals vals_of zero copy p) h"
    using den by (auto simp: pointer_den_def slice_den_def copyPointer_def copySlice_def list_all2_Cons2
        split: option.splits prod.splits)
  then show "\<exists>p' z. run_state (copyPointer zero copy p) h = (p', h @ z) \<and> pointer_den (length h) (h @ z) p' s"
    using lawful_slice [OF framed_den assms, of vals_of Vals zero] den
    unfolding lawful_def pointer_den_def by (metis vals_of.simps(1))
qed

lemma lawful_flat: "lawful (slice_den Vals flat_den) (assignSlice zero)"
  unfolding lawful_def
proof (intro allI impI)
  fix h :: "'a heap" and p s assume den: "slice_den Vals flat_den 0 h p s"
  show "\<exists>p' z. run_state (assignSlice zero p) h = (p', h @ z) \<and> slice_den Vals flat_den (length h) (h @ z) p' s"
  proof (cases p)
    case (Some a)
    then obtain vs ts where a: "a < length h" "h ! a = Vals vs" "s = Some ts" "list_all2 (flat_den 0 h) vs ts"
      using den by (auto simp: slice_den_def)
    have "list_all2 (flat_den (length h) (h @ [Vals vs])) vs ts"
      by (rule list.rel_mono_strong [OF a(4)]) (simp add: flat_den_def)
    then show ?thesis
      using a Some by (intro exI [of _ "Some (length h)"] exI [of _ "[Vals vs]"])
        (simp add: assignSlice_def slice_den_def nth_append)
  qed (use den in \<open>simp add: assignSlice_def slice_den_def\<close>)
qed

definition range_law :: "((string, string) fmap \<Rightarrow> (string \<times> string) list) \<Rightarrow> bool" where
  "range_law ranging \<longleftrightarrow> (\<forall>m. distinct (map fst (ranging m)) \<and> map_of (ranging m) = fmlookup m)"

lemma storeEntries_run:
  "distinct (map fst kvs) \<Longrightarrow> \<exists>m'. run_state (storeEntries (length h) kvs) (h @ [StrMap m]) = ((), h @ [StrMap m']) \<and>
    fmlookup m' = fmlookup m ++ map_of kvs"
proof (induction kvs arbitrary: m)
  case (Cons kv kvs)
  obtain k v where kv: "kv = (k, v)" by fastforce
  then have none: "map_of kvs k = None" using Cons.prems by (simp add: map_of_eq_None_iff)
  obtain m' where m': "run_state (storeEntries (length h) kvs) (h @ [StrMap (fmupd k v m)]) = ((), h @ [StrMap m'])"
    "fmlookup m' = fmlookup (fmupd k v m) ++ map_of kvs"
    using Cons.IH Cons.prems by auto
  have "fmlookup m' = fmlookup m ++ (map_of kvs)(k \<mapsto> v)"
    by (rule ext) (simp add: m'(2) map_add_def none split: option.split)
  then show ?case using m'(1) kv by (simp add: fun_upd_def del: map_add_upd)
qed simp

lemma lawful_map:
  assumes "range_law ranging"
  shows "lawful map_den (copyMap ranging)"
  unfolding lawful_def
proof (intro allI impI)
  fix h :: "'a heap" and p s assume den: "map_den 0 h p s"
  show "\<exists>p' z. run_state (copyMap ranging p) h = (p', h @ z) \<and> map_den (length h) (h @ z) p' s"
  proof (cases p)
    case (Some a)
    then obtain m where a: "a < length h" "h ! a = StrMap m" "s = Some m" using den by (auto simp: map_den_def)
    have none: "fmlookup (fmempty :: (string, string) fmap) = Map.empty" by (rule ext) simp
    obtain m' where "run_state (storeEntries (length h) (ranging m)) (h @ [StrMap fmempty]) = ((), h @ [StrMap m'])"
      "fmlookup m' = map_of (ranging m)"
      using assms storeEntries_run [of "ranging m" h fmempty] none by (auto simp: range_law_def)
    moreover from this assms have "m' = m" by (intro fmap_ext) (simp add: range_law_def)
    ultimately have "run_state (storeEntries (length h) (ranging m)) (h @ [StrMap fmempty]) = ((), h @ [StrMap m])"
      by simp
    then show ?thesis
      using a Some by (intro exI [of _ "Some (length h)"] exI [of _ "[StrMap m]"])
        (simp add: copyMap_def map_den_def)
  qed (use den in \<open>simp add: copyMap_def map_den_def\<close>)
qed

subsection \<open>Copying the custom resource\<close>

text \<open>What the library promises.\<close>

definition library_laws :: "'p library \<Rightarrow> bool" where
  "library_laws L \<longleftrightarrow> range_law (li_range L) \<and> lawful den (li_EnvVar L) \<and> lawful den (li_ResourceRequirements L) \<and>
     lawful den (li_Affinity L) \<and> lawful den (li_Toleration L) \<and> lawful den (li_Volume L) \<and>
     lawful den (li_VolumeMount L) \<and> lawful den (li_PersistentVolumeClaim L) \<and> lawful den (li_ObjectMeta L) \<and>
     lawful den (li_ListMeta L) \<and> (\<forall>t. li_Time L t = t)"

text \<open>A program of copies: the store grows, and what it had stays known.\<close>

definition yields :: "('p heap \<Rightarrow> bool) \<Rightarrow> ('p, 'a) mem \<Rightarrow> ('a \<Rightarrow> 'p heap \<Rightarrow> bool) \<Rightarrow> bool" where
  "yields P m Q \<longleftrightarrow> (\<forall>h. P h \<longrightarrow> (\<exists>y z. run_state m h = (y, h @ z) \<and> Q y (h @ z)))"

definition grows :: "('p heap \<Rightarrow> bool) \<Rightarrow> bool" where
  "grows P \<longleftrightarrow> (\<forall>h z. P h \<longrightarrow> P (h @ z))"

definition same :: "(nat \<Rightarrow> 'p heap \<Rightarrow> 'v \<Rightarrow> 't \<Rightarrow> bool) \<Rightarrow> 'p heap \<Rightarrow> 'v \<Rightarrow> 'v \<Rightarrow> 'p heap \<Rightarrow> bool" where
  "same D h0 v v' h \<longleftrightarrow> (\<forall>t. D 0 h0 v t \<longrightarrow> D (length h0) h v' t)"

definition grown_from :: "'p heap \<Rightarrow> 'p heap \<Rightarrow> bool" where
  "grown_from h0 h \<longleftrightarrow> (\<exists>z. h = h0 @ z)"

lemma yields_bind:
  assumes "yields P m Q" and "grows P" and "\<And>y. yields (\<lambda>h. P h \<and> Q y h) (k y) R"
  shows "yields P (State_Monad.bind m k) R"
  unfolding yields_def
proof (intro allI impI)
  fix h assume P: "P h"
  then obtain y z where y: "run_state m h = (y, h @ z)" "Q y (h @ z)" using assms(1) unfolding yields_def by blast
  moreover have "P (h @ z)" using assms(2) P by (simp add: grows_def)
  ultimately obtain x z' where "run_state (k y) (h @ z) = (x, (h @ z) @ z')" "R x ((h @ z) @ z')"
    using assms(3) unfolding yields_def by blast
  then show "\<exists>y z. run_state (State_Monad.bind m k) h = (y, h @ z) \<and> R y (h @ z)" using y(1) by auto
qed

lemma yields_return: "(\<And>h. P h \<Longrightarrow> Q x h) \<Longrightarrow> yields P (State_Monad.return x) Q"
  by (auto simp: yields_def intro: exI [of _ "[]"])

lemma yields_copy:
  assumes "framed D" and "lawful D copy" and "\<And>h. P h \<Longrightarrow> grown_from h0 h \<and> (\<exists>t. D 0 h0 v t)"
  shows "yields P (copy v) (same D h0 v)"
  unfolding yields_def
proof (intro allI impI)
  fix h assume "P h"
  from assms(3) [OF this] obtain x t where h: "h = h0 @ x" and t: "D 0 h0 v t" by (auto simp: grown_from_def)
  have "D 0 h v s" if "D 0 h0 v s" for s using framedD [OF assms(1) that, of h 0] h by simp
  then have all: "\<exists>v' z. run_state (copy v) h = (v', h @ z) \<and> D (length h0) (h @ z) v' s" if "D 0 h0 v s" for s
    using assms(2) that framedD [OF assms(1), of "length h" _ _ s _ "length h0"] h
    unfolding lawful_def by (metis agrees_from_grow append_Nil2 le_add1 length_append)
  from all [OF t] obtain v' z where run: "run_state (copy v) h = (v', h @ z)" by blast
  then have "same D h0 v v' (h @ z)" using all by (fastforce simp: same_def)
  with run show "\<exists>y z. run_state (copy v) h = (y, h @ z) \<and> same D h0 v y (h @ z)" by blast
qed

lemma lawfulI:
  assumes "\<And>h0 v t. D 0 h0 v t \<Longrightarrow> yields (grown_from h0) (copy v) (\<lambda>v' h. D (length h0) h v' t)"
  shows "lawful D copy"
  unfolding lawful_def
proof (intro allI impI)
  fix h v t assume "D 0 h v t"
  from assms [OF this] show "\<exists>v' z. run_state (copy v) h = (v', h @ z) \<and> D (length h) (h @ z) v' t"
    unfolding yields_def grown_from_def by (metis append_Nil2)
qed

lemma grows_grown: "grows (grown_from h0)"
  by (auto simp: grows_def grown_from_def)

lemma grows_same: "framed D \<Longrightarrow> grows (same D h0 v v')"
  by (auto simp: grows_def same_def intro: framedD)

lemma grows_conj: "grows P \<Longrightarrow> grows Q \<Longrightarrow> grows (\<lambda>h. P h \<and> Q h)"
  by (simp add: grows_def)

definition known :: "'p heap \<Rightarrow> ('p heap \<Rightarrow> bool) \<Rightarrow> bool" where
  "known h0 P \<longleftrightarrow> grows P \<and> (\<forall>h. P h \<longrightarrow> grown_from h0 h)"

lemma known_grown: "known h0 (grown_from h0)"
  by (simp add: known_def grows_grown)

lemma bind_copy:
  assumes "lawful D copy" and "framed D" and "D 0 h0 v t" and "known h0 P"
    and "\<And>v'. known h0 (\<lambda>h. P h \<and> same D h0 v v' h) \<Longrightarrow> yields (\<lambda>h. P h \<and> same D h0 v v' h) (k v') R"
  shows "yields P (State_Monad.bind (copy v) k) R"
proof (rule yields_bind)
  show "yields P (copy v) (same D h0 v)"
    by (rule yields_copy [OF assms(2,1)]) (use assms(3,4) in \<open>auto simp: known_def\<close>)
  show "grows P" using assms(4) by (simp add: known_def)
  show "yields (\<lambda>h. P h \<and> same D h0 v v' h) (k v') R" for v'
    by (rule assms(5)) (use assms(2,4) in \<open>simp add: known_def grows_conj grows_same\<close>)
qed

text \<open>The value of a spec: the plain fields, the slices, the slices of plain elements, the affinity, the node selector, and the resources.\<close>

type_synonym 'p spec_value = "'p \<times> 'p tree list option list \<times> 'p list option list \<times> 'p tree option \<times>
  (string, string) fmap option \<times> 'p tree list"

definition spec_slices :: "'p mem_spec \<Rightarrow> addr option list" where
  "spec_slices s = [sp_BrokerEnvVar s, sp_CoordinatorEnvVar s, sp_ProxyEnvVar s, sp_RedisEnvVar s, sp_Tolerations s,
     sp_StorageVolumes s, sp_RedisVolumeMounts s, sp_VolumeClaimTemplates s]"

definition den_spec :: "nat \<Rightarrow> 'p heap \<Rightarrow> 'p mem_spec \<Rightarrow> 'p spec_value \<Rightarrow> bool" where
  "den_spec n h s t = (case t of (plain, slices, flats, affinity, selector, resources) \<Rightarrow>
     sp_Plain s = plain \<and> list_all2 (slice_den Vals den n h) (spec_slices s) slices \<and>
     list_all2 (slice_den Vals flat_den n h) [sp_ImagePullSecrets s, sp_RedisVolumeDevices s] flats \<and>
     pointer_den n h (sp_Affinity s) affinity \<and> map_den n h (sp_NodeSelector s) selector \<and>
     list_all2 (den n h) [sp_BrokerResources s, sp_CoordinatorResources s, sp_ProxyResources s, sp_RedisResources s] resources)"

lemma framed_spec: "framed den_spec"
  unfolding framed_def den_spec_def
  by (auto split: prod.splits intro: framed_all2 [OF framed_slice [OF framed_den]] framed_all2 [OF framed_den]
      framed_all2 [OF framed_slice [OF framed_others(2)]] framedD [OF framed_others(1)] framedD [OF framed_others(3)]
      simp del: list_all2_Cons1 list_all2_Cons list_all2_Cons2)

lemma lawful_vals: "lawful den copy \<Longrightarrow> lawful (slice_den Vals den) (copyVals L copy)"
  unfolding copyVals_def by (rule lawful_slice [OF framed_den]) simp_all

lemma lawful_spec:
  assumes "library_laws L"
  shows "lawful den_spec (UndermoonSpec_DeepCopyInto L)"
proof (rule lawfulI)
  fix h0 s and t :: "'a spec_value" assume den: "den_spec 0 h0 s t"
  then obtain e1 e2 e3 e4 e5 e6 e7 e8 f1 f2 a m r1 r2 r3 r4
    where t: "t = (sp_Plain s, [e1, e2, e3, e4, e5, e6, e7, e8], [f1, f2], a, m, [r1, r2, r3, r4])"
      and v: "slice_den Vals den 0 h0 (sp_BrokerEnvVar s) e1" "slice_den Vals den 0 h0 (sp_CoordinatorEnvVar s) e2"
      "slice_den Vals den 0 h0 (sp_ProxyEnvVar s) e3" "slice_den Vals den 0 h0 (sp_RedisEnvVar s) e4"
      "slice_den Vals den 0 h0 (sp_Tolerations s) e5" "slice_den Vals den 0 h0 (sp_StorageVolumes s) e6"
      "slice_den Vals den 0 h0 (sp_RedisVolumeMounts s) e7" "slice_den Vals den 0 h0 (sp_VolumeClaimTemplates s) e8"
      "slice_den Vals flat_den 0 h0 (sp_ImagePullSecrets s) f1" "slice_den Vals flat_den 0 h0 (sp_RedisVolumeDevices s) f2"
      "pointer_den 0 h0 (sp_Affinity s) a" "map_den 0 h0 (sp_NodeSelector s) m"
      "den 0 h0 (sp_BrokerResources s) r1" "den 0 h0 (sp_CoordinatorResources s) r2"
      "den 0 h0 (sp_ProxyResources s) r3" "den 0 h0 (sp_RedisResources s) r4"
    by (auto simp: den_spec_def spec_slices_def list_all2_Cons1)
  note laws = assms [unfolded library_laws_def]
  have law: "lawful (slice_den Vals den) (copyVals L (li_EnvVar L))" "lawful (slice_den Vals den) (copyVals L (li_Toleration L))"
    "lawful (slice_den Vals den) (copyVals L (li_Volume L))" "lawful (slice_den Vals den) (copyVals L (li_VolumeMount L))"
    "lawful (slice_den Vals den) (copyVals L (li_PersistentVolumeClaim L))" "lawful den (li_ResourceRequirements L)"
    "lawful pointer_den (copyPointer (li_zeroVal L) (li_Affinity L))" "lawful map_den (copyMap (li_range L))"
    "lawful (slice_den Vals flat_den) (assignSlice (li_zeroVal L))"
    using laws by (simp_all add: lawful_vals lawful_pointer lawful_map lawful_flat)
  show "yields (grown_from h0) (UndermoonSpec_DeepCopyInto L s) (\<lambda>s' h. den_spec (length h0) h s' t)"
    unfolding UndermoonSpec_DeepCopyInto_def
    by (rule bind_copy [OF law(1) _ v(1) known_grown], rule framed_slice [OF framed_den],
        (rule bind_copy, rule law, (intro framed_rules), rule v, assumption)+, rule yields_return,
        simp add: t v den_spec_def spec_slices_def same_def)
qed

type_synonym 'p undermoon_value = "'p \<times> 'p tree \<times> 'p spec_value \<times> 'p mem_status"

definition den_undermoon :: "nat \<Rightarrow> 'p heap \<Rightarrow> 'p mem_undermoon \<Rightarrow> 'p undermoon_value \<Rightarrow> bool" where
  "den_undermoon n h u t = (case t of (typeMeta, objectMeta, spec, status) \<Rightarrow>
     mu_TypeMeta u = typeMeta \<and> den n h (mu_ObjectMeta u) objectMeta \<and> den_spec n h (mu_Spec u) spec \<and> mu_Status u = status)"

definition den_list :: "nat \<Rightarrow> 'p heap \<Rightarrow> 'p mem_list \<Rightarrow> 'p \<times> 'p tree \<times> 'p undermoon_value list option \<Rightarrow> bool" where
  "den_list n h l t = (case t of (typeMeta, listMeta, items) \<Rightarrow>
     ml_TypeMeta l = typeMeta \<and> den n h (ml_ListMeta l) listMeta \<and> slice_den Undermoons den_undermoon n h (ml_Items l) items)"

definition den_status :: "nat \<Rightarrow> 'p heap \<Rightarrow> 'p mem_status \<Rightarrow> 'p mem_status \<Rightarrow> bool" where
  "den_status n h s t \<longleftrightarrow> s = t"

lemma framed_resource: "framed den_undermoon" "framed den_list" "framed den_status"
proof -
  show u: "framed den_undermoon"
    unfolding framed_def den_undermoon_def
    by (auto split: prod.splits intro: framedD [OF framed_den] framedD [OF framed_spec])
  show "framed den_list"
    unfolding framed_def den_list_def
    by (auto split: prod.splits intro: framedD [OF framed_den] framedD [OF framed_slice [OF u]])
  show "framed den_status" by (simp add: framed_def den_status_def)
qed

lemma lawful_undermoon:
  assumes "library_laws L"
  shows "lawful den_undermoon (Undermoon_DeepCopyInto L)"
proof (rule lawfulI)
  fix h0 u and t :: "'a undermoon_value" assume den: "den_undermoon 0 h0 u t"
  then obtain meta spec where ok: "den 0 h0 (mu_ObjectMeta u) meta" "den_spec 0 h0 (mu_Spec u) spec"
    unfolding den_undermoon_def by (auto split: prod.splits simp del: split_paired_Ex)
  have law: "lawful den (li_ObjectMeta L)" "lawful den_spec (UndermoonSpec_DeepCopyInto L)"
    using assms lawful_spec [OF assms] by (simp_all add: library_laws_def)
  show "yields (grown_from h0) (Undermoon_DeepCopyInto L u) (\<lambda>u' h. den_undermoon (length h0) h u' t)"
    unfolding Undermoon_DeepCopyInto_def
    by (rule bind_copy [OF law(1) framed_den ok(1) known_grown], rule bind_copy [OF law(2) framed_spec ok(2)], assumption,
        rule yields_return, use den in \<open>auto simp: den_undermoon_def same_def\<close>)
qed

lemma lawful_list:
  assumes "library_laws L"
  shows "lawful den_list (UndermoonList_DeepCopyInto L)"
proof (rule lawfulI)
  fix h0 l and t :: "'a \<times> 'a tree \<times> 'a undermoon_value list option" assume den: "den_list 0 h0 l t"
  then obtain meta items where ok: "den 0 h0 (ml_ListMeta l) meta"
    "slice_den Undermoons den_undermoon 0 h0 (ml_Items l) items"
    by (auto simp: den_list_def)
  have law: "lawful den (li_ListMeta L)" using assms by (simp add: library_laws_def)
  have items: "lawful (slice_den Undermoons den_undermoon)
      (copySlice Undermoons undermoons_of (zeroUndermoon L) (Undermoon_DeepCopyInto L))"
    by (rule lawful_slice [OF framed_resource(1) lawful_undermoon [OF assms]]) simp
  show "yields (grown_from h0) (UndermoonList_DeepCopyInto L l) (\<lambda>l' h. den_list (length h0) h l' t)"
    unfolding UndermoonList_DeepCopyInto_def
    by (rule bind_copy [OF law framed_den ok(1) known_grown],
        rule bind_copy [OF items framed_slice [OF framed_resource(1)] ok(2)], assumption,
        rule yields_return, use den in \<open>auto simp: den_list_def same_def\<close>)
qed

lemma lawful_status: "library_laws L \<Longrightarrow> lawful den_status (UndermoonStatus_DeepCopyInto L)"
  by (simp add: lawful_def den_status_def UndermoonStatus_DeepCopyInto_def library_laws_def)

text \<open>A pointer to a value.\<close>

definition ref_den ::
  "('v list \<Rightarrow> 'p cell) \<Rightarrow> (nat \<Rightarrow> 'p heap \<Rightarrow> 'v \<Rightarrow> 't \<Rightarrow> bool) \<Rightarrow> nat \<Rightarrow> 'p heap \<Rightarrow> addr option \<Rightarrow> 't option \<Rightarrow> bool" where
  "ref_den wrap D n h p s \<longleftrightarrow> slice_den wrap D n h p (map_option (\<lambda>t. [t]) s)"

lemma framed_ref: "framed D \<Longrightarrow> framed (ref_den wrap D)"
  using framed_slice [of D wrap] unfolding framed_def ref_den_def by blast

lemma lawful_deepCopy:
  assumes D: "framed D" "lawful D copy" and we: "\<And>vs. elems (wrap vs) = vs"
  shows "lawful (ref_den wrap D) (deepCopy wrap elems zero copy)"
  unfolding lawful_def
proof (intro allI impI)
  fix h p s assume den: "ref_den wrap D 0 h p s"
  show "\<exists>p' z. run_state (deepCopy wrap elems zero copy p) h = (p', h @ z) \<and> ref_den wrap D (length h) (h @ z) p' s"
  proof (cases p)
    case (Some a)
    then obtain vs ts where "a < length h" "h ! a = wrap vs" "map_option (\<lambda>t. [t]) s = Some ts" "list_all2 (D 0 h) vs ts"
      using den by (auto simp: ref_den_def slice_den_def)
    then obtain v t where a: "a < length h" "h ! a = wrap [v]" "s = Some t" "D 0 h v t"
      by (auto simp: list_all2_Cons2)
    let ?h = "h @ [wrap [zero]]"
    have "D 0 ?h v t" by (rule framedD [OF D(1) a(4)]) simp_all
    then obtain v' z where v': "run_state (copy v) ?h = (v', ?h @ z)" "D (length ?h) (?h @ z) v' t"
      using D(2) unfolding lawful_def by blast
    have "D (length h) (h @ wrap [v'] # z) v' t"
      by (rule framedD [OF D(1) v'(2)]) (auto simp: agrees_from_def nth_append nth_Cons')
    then have "ref_den wrap D (length h) (h @ wrap [v'] # z) (Some (length h)) s"
      unfolding ref_den_def slice_den_def using a(3) by auto
    moreover have "run_state (deepCopy wrap elems zero copy p) h = (Some (length h), h @ wrap [v'] # z)"
      using a v'(1) we Some by (simp add: deepCopy_def nth_append)
    ultimately show ?thesis by blast
  qed (use den in \<open>simp add: deepCopy_def ref_den_def slice_den_def\<close>)
qed

text \<open>Whatever is written to the addresses of one of the two leaves the value of the other.\<close>

lemma deepCopy_separate:
  assumes "framed D" and "lawful (ref_den wrap D) copy" and "ref_den wrap D 0 h p s"
  shows "\<exists>c h'. run_state (copy p) h = (c, h') \<and> (c = None \<longleftrightarrow> p = None) \<and> ref_den wrap D (length h) h' c s \<and>
    (\<forall>g. length h \<le> length g \<and> (\<forall>b < length h. g ! b = h ! b) \<longrightarrow> ref_den wrap D 0 g p s) \<and>
    (\<forall>g. length g = length h' \<and> (\<forall>b. length h \<le> b \<and> b < length h' \<longrightarrow> g ! b = h' ! b) \<longrightarrow>
      ref_den wrap D (length h) g c s)"
proof -
  obtain c z where run: "run_state (copy p) h = (c, h @ z)" and c: "ref_den wrap D (length h) (h @ z) c s"
    using assms(2,3) unfolding lawful_def by blast
  have nil: "c = None \<longleftrightarrow> p = None"
    using c assms(3) by (auto simp: ref_den_def slice_den_def split: option.splits)
  have old: "ref_den wrap D 0 g p s" if "length h \<le> length g" "\<forall>b < length h. g ! b = h ! b" for g
    by (rule framedD [OF framed_ref [OF assms(1)] assms(3)]) (use that in \<open>auto simp: agrees_from_def\<close>)
  have new: "ref_den wrap D (length h) g c s"
    if "length g = length (h @ z)" "\<forall>b. length h \<le> b \<and> b < length (h @ z) \<longrightarrow> g ! b = (h @ z) ! b" for g
    by (rule framedD [OF framed_ref [OF assms(1)] c]) (use that in \<open>auto simp: agrees_from_def\<close>)
  show ?thesis using run nil c old new by blast
qed

text \<open>
  C28: \<open>DeepCopy\<close> of an \<open>Undermoon\<close> is an equal value that shares nothing with the original that can be written: whatever is
  later written to the store used by one of them, the other keeps its value; nil has no copy, and
  \<open>DeepCopyObject\<close> returns the nil interface for it, not an interface that holds a nil pointer.
\<close>

theorem undermoon_copy_separate:
  assumes "library_laws L" and "ref_den Undermoons den_undermoon 0 h p s"
  shows "\<exists>c h'. run_state (Undermoon_DeepCopy L p) h = (c, h') \<and> (c = None \<longleftrightarrow> p = None) \<and>
    ref_den Undermoons den_undermoon (length h) h' c s \<and>
    (\<forall>g. length h \<le> length g \<and> (\<forall>b < length h. g ! b = h ! b) \<longrightarrow> ref_den Undermoons den_undermoon 0 g p s) \<and>
    (\<forall>g. length g = length h' \<and> (\<forall>b. length h \<le> b \<and> b < length h' \<longrightarrow> g ! b = h' ! b) \<longrightarrow>
      ref_den Undermoons den_undermoon (length h) g c s) \<and>
    run_state (Undermoon_DeepCopyObject L p) h = (map_option UndermoonObject c, h')"
proof -
  have "lawful (ref_den Undermoons den_undermoon) (Undermoon_DeepCopy L)"
    unfolding Undermoon_DeepCopy_def
    by (rule lawful_deepCopy [OF framed_resource(1) lawful_undermoon [OF assms(1)]]) simp
  from deepCopy_separate [OF framed_resource(1) this assms(2)] show ?thesis
    by (auto simp: Undermoon_DeepCopyObject_def split: option.splits prod.splits)
qed

text \<open>The same holds of an \<open>UndermoonList\<close>, with all its items.\<close>

theorem list_copy_separate:
  assumes "library_laws L" and "ref_den Lists den_list 0 h p s"
  shows "\<exists>c h'. run_state (UndermoonList_DeepCopy L p) h = (c, h') \<and> (c = None \<longleftrightarrow> p = None) \<and>
    ref_den Lists den_list (length h) h' c s \<and>
    (\<forall>g. length h \<le> length g \<and> (\<forall>b < length h. g ! b = h ! b) \<longrightarrow> ref_den Lists den_list 0 g p s) \<and>
    (\<forall>g. length g = length h' \<and> (\<forall>b. length h \<le> b \<and> b < length h' \<longrightarrow> g ! b = h' ! b) \<longrightarrow>
      ref_den Lists den_list (length h) g c s) \<and>
    run_state (UndermoonList_DeepCopyObject L p) h = (map_option UndermoonListObject c, h')"
proof -
  have "lawful (ref_den Lists den_list) (UndermoonList_DeepCopy L)"
    unfolding UndermoonList_DeepCopy_def
    by (rule lawful_deepCopy [OF framed_resource(2) lawful_list [OF assms(1)]]) simp
  from deepCopy_separate [OF framed_resource(2) this assms(2)] show ?thesis
    by (auto simp: UndermoonList_DeepCopyObject_def split: option.splits prod.splits)
qed

subsection \<open>A library\<close>

text \<open>A value is read from the store, if it is finite, and built again.\<close>

fun sequence :: "'a option list \<Rightarrow> 'a list option" where
  "sequence [] = Some []"
| "sequence (x # xs) = Option.bind x (\<lambda>y. Option.bind (sequence xs) (\<lambda>ys. Some (y # ys)))"

lemma mono_sequence [partial_function_mono]:
  assumes "\<And>x. mono_option (\<lambda>f. B f x)"
  shows "mono_option (\<lambda>f. sequence (map (B f) xs))"
proof (induction xs)
  case (Cons x xs)
  show ?case by (simp, intro bind_mono assms Cons option.const_mono)
qed (simp add: option.const_mono)

fun val_refs :: "'p val \<Rightarrow> addr option list" where
  "val_refs (Node d ps) = ps"

fun val_data :: "'p val \<Rightarrow> 'p" where
  "val_data (Node d ps) = d"

partial_function (option) ref_value :: "'p heap \<Rightarrow> addr option \<Rightarrow> 'p sub option option" where
  "ref_value h p = (case p of
     None \<Rightarrow> Some None
   | Some a \<Rightarrow>
       if a < length h
       then (case h ! a of
           Vals vs \<Rightarrow> Option.bind (sequence (map (\<lambda>v. Option.bind (sequence (map (ref_value h) (val_refs v)))
               (\<lambda>ss. Some (Tree (val_data v) ss))) vs)) (\<lambda>ts. Some (Some (Elems ts)))
         | StrMap m \<Rightarrow> Some (Some (Entries m))
         | _ \<Rightarrow> None)
       else None)"

definition value_of :: "'p heap \<Rightarrow> 'p val \<Rightarrow> 'p tree option" where
  "value_of h v = Option.bind (sequence (map (ref_value h) (val_refs v))) (\<lambda>ss. Some (Tree (val_data v) ss))"

lemma sequence_all2: "list_all2 (\<lambda>x y. f x = Some y) xs ys \<Longrightarrow> sequence (map f xs) = Some ys"
  by (induction rule: list_all2_induct) simp_all

lemma value_of_den:
  "den n h v t \<Longrightarrow> value_of h v = Some t" and "den_ptr n h p s \<Longrightarrow> ref_value h p = Some s"
proof (induction rule: den_den_ptr.inducts)
  case (node ps ss d)
  have "list_all2 (\<lambda>p s. ref_value h p = Some s) ps ss" by (rule list.rel_mono_strong [OF node]) blast
  from sequence_all2 [OF this] show ?case by (simp add: value_of_def)
next
  case (vals a vs ts)
  have "list_all2 (\<lambda>v t. value_of h v = Some t) vs ts" by (rule list.rel_mono_strong [OF vals(4)]) blast
  from sequence_all2 [OF this] show ?case
    using vals(2,3) by (simp add: ref_value.simps [of h "Some a"] flip: value_of_def)
qed (simp_all add: ref_value.simps)

fun build_tree :: "'p tree \<Rightarrow> 'p heap \<Rightarrow> 'p val \<times> 'p heap"
  and build_refs :: "'p sub option list \<Rightarrow> 'p heap \<Rightarrow> addr option list \<times> 'p heap"
  and build_sub :: "'p sub \<Rightarrow> 'p heap \<Rightarrow> addr \<times> 'p heap"
  and build_trees :: "'p tree list \<Rightarrow> 'p heap \<Rightarrow> 'p val list \<times> 'p heap" where
  "build_tree (Tree d ss) h = (case build_refs ss h of (ps, h1) \<Rightarrow> (Node d ps, h1))"
| "build_refs [] h = ([], h)"
| "build_refs (None # ss) h = (case build_refs ss h of (ps, h1) \<Rightarrow> (None # ps, h1))"
| "build_refs (Some s # ss) h = (case build_sub s h of (a, h1) \<Rightarrow> case build_refs ss h1 of (ps, h2) \<Rightarrow> (Some a # ps, h2))"
| "build_sub (Elems ts) h = (case build_trees ts h of (vs, h1) \<Rightarrow> (length h1, h1 @ [Vals vs]))"
| "build_sub (Entries m) h = (length h, h @ [StrMap m])"
| "build_trees [] h = ([], h)"
| "build_trees (t # ts) h = (case build_tree t h of (v, h1) \<Rightarrow> case build_trees ts h1 of (vs, h2) \<Rightarrow> (v # vs, h2))"

lemma den_grow:
  "den n h v t \<Longrightarrow> k \<le> n \<Longrightarrow> den k (h @ z) v t" "den_ptr n h p s \<Longrightarrow> k \<le> n \<Longrightarrow> den_ptr k (h @ z) p s"
  "list_all2 (den n h) vs ts \<Longrightarrow> k \<le> n \<Longrightarrow> list_all2 (den k (h @ z)) vs ts"
  "list_all2 (den_ptr n h) ps ss \<Longrightarrow> k \<le> n \<Longrightarrow> list_all2 (den_ptr k (h @ z)) ps ss"
  by (auto intro: framedD [OF framed_den] framedD [OF framed_den_ptr] framed_all2 [OF framed_den] framed_all2 [OF framed_den_ptr])

lemma build_den:
  "\<exists>z. snd (build_tree t h) = h @ z \<and> den (length h) (h @ z) (fst (build_tree t h)) t"
  "\<exists>z. snd (build_refs ss h) = h @ z \<and> list_all2 (den_ptr (length h) (h @ z)) (fst (build_refs ss h)) ss"
  "\<exists>z. snd (build_sub s h) = h @ z \<and> den_ptr (length h) (h @ z) (Some (fst (build_sub s h))) (Some s)"
  "\<exists>z. snd (build_trees ts h) = h @ z \<and> list_all2 (den (length h) (h @ z)) (fst (build_trees ts h)) ts"
proof (induction t h and ss h and s h and ts h rule: build_tree_build_refs_build_sub_build_trees.induct)
  case (1 d ss h)
  then show ?case by (auto simp: den_Node split: prod.splits)
next
  case (4 s ss h)
  obtain a h1 where a: "build_sub s h = (a, h1)" by fastforce
  then obtain z where z: "h1 = h @ z" "den_ptr (length h) h1 (Some a) (Some s)" using 4(1) by auto
  obtain z' where z': "snd (build_refs ss h1) = h1 @ z'" "list_all2 (den_ptr (length h1) (h1 @ z')) (fst (build_refs ss h1)) ss"
    using 4(2) [OF a [symmetric]] by blast
  have "list_all2 (den_ptr (length h) (h1 @ z')) (fst (build_refs ss h1)) ss"
    by (rule framed_all2 [OF framed_den_ptr z'(2)]) (simp_all add: agrees_from_def z(1))
  then show ?case using a z z'(1) den_grow(2) [OF z(2), of "length h" z'] by (auto split: prod.splits)
next
  case (5 ts h)
  obtain vs h1 where vs: "build_trees ts h = (vs, h1)" by fastforce
  then obtain z where z: "h1 = h @ z" "list_all2 (den (length h) h1) vs ts" using 5 by auto
  have "list_all2 (den (length h) (h1 @ [Vals vs])) vs ts" by (rule den_grow(3) [OF z(2)]) simp
  then show ?case using vs z(1) by (auto simp: den_ptr_Some nth_append)
next
  case (8 t ts h)
  obtain v h1 where v: "build_tree t h = (v, h1)" by fastforce
  then obtain z where z: "h1 = h @ z" "den (length h) h1 v t" using 8(1) by auto
  obtain z' where z': "snd (build_trees ts h1) = h1 @ z'" "list_all2 (den (length h1) (h1 @ z')) (fst (build_trees ts h1)) ts"
    using 8(2) [OF v [symmetric]] by blast
  have "list_all2 (den (length h) (h1 @ z')) (fst (build_trees ts h1)) ts"
    by (rule framed_all2 [OF framed_den z'(2)]) (simp_all add: agrees_from_def z(1))
  then show ?case using v z z'(1) den_grow(1) [OF z(2), of "length h" z'] by (auto split: prod.splits)
qed (auto simp: den_ptr_Some split: prod.splits)

definition rebuild :: "'p val \<Rightarrow> ('p, 'p val) mem" where
  "rebuild v = State (\<lambda>h. case value_of h v of None \<Rightarrow> (v, h) | Some t \<Rightarrow> build_tree t h)"

lemma lawful_rebuild: "lawful den rebuild"
  unfolding lawful_def
proof (intro allI impI)
  fix h v and t :: "'p tree" assume "den 0 h v t"
  then have "run_state (rebuild v) h = build_tree t h" by (simp add: rebuild_def value_of_den)
  then show "\<exists>v' z. run_state (rebuild v) h = (v', h @ z) \<and> den (length h) (h @ z) v' t"
    using build_den(1) [of t h] by (metis prod.collapse)
qed

definition sample_library :: "string library" where
  "sample_library = \<lparr>li_zero = [], li_zeroVal = Node [] [], li_range = sorted_list_of_fmap, li_EnvVar = rebuild,
     li_ResourceRequirements = rebuild, li_Affinity = rebuild, li_Toleration = rebuild, li_Volume = rebuild,
     li_VolumeMount = rebuild, li_PersistentVolumeClaim = rebuild, li_ObjectMeta = rebuild, li_ListMeta = rebuild,
     li_Time = (\<lambda>t. t)\<rparr>"

lemma sample_library_laws: "library_laws sample_library"
  by (simp add: library_laws_def sample_library_def lawful_rebuild range_law_def)
    (simp add: sorted_list_of_fmap_def comp_def sorted_list_of_fset.rep_eq)

text \<open>A resource with an environment variable that refers to a secret, and a list of it.\<close>

definition sample_heap :: "string heap" where
  "sample_heap = [Vals [Node ''secret'' []], Vals [Node ''PASSWORD'' [Some 0]],
     Undermoons [(zeroUndermoon sample_library)\<lparr>mu_Spec := (zeroSpec sample_library)\<lparr>sp_ProxyEnvVar := Some 1\<rparr>\<rparr>],
     Lists [(zeroList sample_library)\<lparr>ml_Items := Some 2\<rparr>]]"

definition sample_value :: "string undermoon_value" where
  "sample_value = ([], Tree [] [], ([], [None, None, Some [Tree ''PASSWORD'' [Some (Elems [Tree ''secret'' []])]], None,
     None, None, None, None], [None, None], None, None, [Tree [] [], Tree [] [], Tree [] [], Tree [] []]), zeroStatus sample_library)"

lemma sample_undermoon: "ref_den Undermoons den_undermoon 0 sample_heap (Some 2) (Some sample_value)"
  by (simp add: ref_den_def slice_den_def sample_heap_def den_undermoon_def sample_value_def zeroUndermoon_def zeroSpec_def
      sample_library_def den_spec_def spec_slices_def den_Node pointer_den_def map_den_def den_ptr_Some)

lemma sample_list: "ref_den Lists den_list 0 sample_heap (Some 3) (Some ([], Tree [] [], Some [sample_value]))"
  using sample_undermoon by (simp add: ref_den_def slice_den_def sample_heap_def den_list_def zeroList_def sample_library_def den_Node)

lemma sample_heap_length: "length sample_heap = 4"
  by (simp add: sample_heap_def)

theorem undermoon_copy_separate_witness:
  "\<exists>c h'. run_state (Undermoon_DeepCopy sample_library (Some 2)) sample_heap = (Some c, h') \<and>
    ref_den Undermoons den_undermoon 4 h' (Some c) (Some sample_value)"
  using undermoon_copy_separate [OF sample_library_laws sample_undermoon] unfolding sample_heap_length
  by (elim exE conjE) (auto simp del: split_paired_Ex)

theorem list_copy_separate_witness:
  "\<exists>c h'. run_state (UndermoonList_DeepCopy sample_library (Some 3)) sample_heap = (Some c, h') \<and>
    ref_den Lists den_list 4 h' (Some c) (Some ([], Tree [] [], Some [sample_value]))"
  using list_copy_separate [OF sample_library_laws sample_list] unfolding sample_heap_length
  by (elim exE conjE) (auto simp del: split_paired_Ex)

end
