(* ===== verification/Broker_Controller.thy ===== *)
theory Broker_Controller
  imports Broker Broker_Client Rolling
begin

section \<open>The broker controller (controllers/broker_controller.go)\<close>

text \<open>
  Creates the broker objects, decides which broker is the master and drives the brokers'
  rolling update. \<open>v\<close> is the API version of the broker client. The choice of the master is
  refined to \<open>select_master\<close>, a function of what the brokers answer.
\<close>

definition getOrCreateBrokerService :: "env \<Rightarrow> bool \<Rightarrow> service op" where
  "getOrCreateBrokerService \<E> public =
    bindE get_cr (\<lambda>cr.
      getOrCreateService \<E> cr (if public then createBrokerPublicService cr else createBrokerService cr))"

definition getOrCreateBrokerStatefulSet :: "env \<Rightarrow> statefulSet op" where
  "getOrCreateBrokerStatefulSet \<E> = ensureStatefulSet \<E> (createBrokerStatefulSet \<E>)"

definition createBroker :: "env \<Rightarrow> (statefulSet \<times> service) op" where
  "createBroker \<E> =
    bindE (createServiceGuard (getOrCreateBrokerService \<E> False)) (\<lambda>brokerService.
    bindE (createServiceGuard (getOrCreateBrokerService \<E> True)) (\<lambda>_.
    bindE (createStatefulSetGuard (getOrCreateBrokerStatefulSet \<E>)) (\<lambda>brokerStatefulSet.
    returnE (brokerStatefulSet, brokerService))))"

definition getServiceEndpointsNum :: "env \<Rightarrow> service \<Rightarrow> int op" where
  "getServiceEndpointsNum \<E> sv =
    bindE (getEndpoints \<E> (om_Name (sv_Meta sv)) (om_Namespace (sv_Meta sv)))
      (\<lambda>endpoints. returnE (int (length endpoints)))"

definition brokerReady :: "env \<Rightarrow> statefulSet \<Rightarrow> service \<Rightarrow> bool op" where
  "brokerReady \<E> ss sv =
    bindE (getServiceEndpointsNum \<E> sv) (\<lambda>n.
      returnE (int_of_i32 (st_ReadyReplicas (ss_Status ss)) \<ge> int_of_i32 (brokerNum - 1) \<and>
               n \<ge> int_of_i32 (brokerNum - 1)))"

definition brokerAllReady :: "env \<Rightarrow> statefulSet \<Rightarrow> service \<Rightarrow> bool op" where
  "brokerAllReady \<E> ss sv =
    bindE (getServiceEndpointsNum \<E> sv) (\<lambda>n.
      returnE (st_ReadyReplicas (ss_Status ss) = brokerNum \<and> n \<ge> int_of_i32 brokerNum))"

subsection \<open>The master\<close>

text \<open>The first loop: the brokers that have replica addresses; a broker that fails is skipped.\<close>

fun collectMasters :: "env \<Rightarrow> string \<Rightarrow> string list \<Rightarrow> string list \<Rightarrow> string list op" where
  "collectMasters \<E> v [] masterBrokers = returnE masterBrokers"
| "collectMasters \<E> v (address # rest) masterBrokers =
    tryE (bc_getReplicaAddresses \<E> v address) (\<lambda>r. case r of
        Inl e \<Rightarrow> collectMasters \<E> v rest masterBrokers
      | Inr replicaAddresses \<Rightarrow>
          collectMasters \<E> v rest
            (if replicaAddresses \<noteq> [] then masterBrokers @ [address] else masterBrokers))"

text \<open>The second loop: the first address with the greatest epoch; \<open>[]\<close> is the empty string.\<close>

fun scanEpochs :: "env \<Rightarrow> string \<Rightarrow> string list \<Rightarrow> int \<Rightarrow> string \<Rightarrow> string op" where
  "scanEpochs \<E> v [] maxEpoch maxEpochBroker = returnE maxEpochBroker"
| "scanEpochs \<E> v (address # rest) maxEpoch maxEpochBroker =
    tryE (bc_getEpoch \<E> v address) (\<lambda>r. case r of
        Inl e \<Rightarrow> scanEpochs \<E> v rest maxEpoch maxEpochBroker
      | Inr epoch \<Rightarrow>
          if maxEpochBroker = [] \<or> epoch > maxEpoch then scanEpochs \<E> v rest epoch address
          else scanEpochs \<E> v rest maxEpoch maxEpochBroker)"

definition getCurrentMaster :: "env \<Rightarrow> string \<Rightarrow> string list \<Rightarrow> string op" where
  "getCurrentMaster \<E> v brokerAddresses =
    (if brokerAddresses = [] then throwE (ErrMsg ''broker addresses is empty'')
     else bindE (collectMasters \<E> v brokerAddresses []) (\<lambda>masterBrokers.
       if length masterBrokers = 1 then returnE (masterBrokers ! 0)
       else scanEpochs \<E> v (if masterBrokers = [] then brokerAddresses else masterBrokers) 0 []))"

definition setMasterBrokerStatus :: "env \<Rightarrow> string \<Rightarrow> unit op" where
  "setMasterBrokerStatus \<E> masterBrokerAddress =
    bindE get_cr (\<lambda>cr. bindE (k8s_patch_master \<E> cr masterBrokerAddress) put_cr)"

definition reconcileMaster :: "env \<Rightarrow> string \<Rightarrow> service \<Rightarrow> (string \<times> string list) op" where
  "reconcileMaster \<E> v brokerService =
    bindE (getEndpoints \<E> (om_Name (sv_Meta brokerService)) (om_Namespace (sv_Meta brokerService)))
      (\<lambda>endpoints.
    bindE get_cr (\<lambda>cr.
      let brokerAddresses = map (\<lambda>endpoint. genBrokerAddressFromName (ea_Hostname endpoint) cr) endpoints in
      bindE (getCurrentMaster \<E> v brokerAddresses) (\<lambda>currMaster.
      bindE (setMasterBrokerStatus \<E> currMaster) (\<lambda>_.
      returnE (currMaster, filter (\<lambda>address. address \<noteq> currMaster) brokerAddresses)))))"

subsection \<open>Rolling update\<close>

definition broker_updateStatefulSetHelper :: "env \<Rightarrow> statefulSet \<Rightarrow> statefulSet op" where
  "broker_updateStatefulSetHelper \<E> ss = rollStatefulSet \<E> ''brokerStatefulset'' (createBrokerStatefulSet \<E>) ss"

definition broker_triggerStatefulSetRollingUpdate :: "env \<Rightarrow> statefulSet \<Rightarrow> service \<Rightarrow> unit op" where
  "broker_triggerStatefulSetRollingUpdate \<E> ss sv =
    bindE (broker_updateStatefulSetHelper \<E> ss) (\<lambda>ss'.
    bindE (brokerAllReady \<E> ss' sv) (\<lambda>ready.
      if \<not> ready then throwE ErrRetryReconciliation else returnE ()))"

definition broker_needRollingUpdate :: "env \<Rightarrow> statefulSet \<Rightarrow> bool op" where
  "broker_needRollingUpdate \<E> ss = bindE get_cr (\<lambda>cr. liftE (brokerStatefulSetChanged \<E> cr ss))"

interpretation broker_roll: rolling_component "createBrokerStatefulSet \<E>" "brokerStatefulSetChanged \<E>"
    "\<lambda>cr. quantity_refl \<E> \<and> wf_resources (um_BrokerResources (um_Spec cr)) \<and>
          env_consistent (um_BrokerEnvVar (um_Spec cr))"
  for \<E>
  by unfold_locales (simp_all add: brokerStatefulSetChanged_fresh brokerStatefulSetChanged_frame)

subsection \<open>Which broker becomes the master\<close>

text \<open>
  The specification: \<open>reps\<close> and \<open>epochs\<close> are what the brokers answer (\<open>None\<close> for a broker
  that fails). \<open>best_epoch\<close> is the first address with the greatest epoch.
\<close>

fun best_epoch :: "(string \<Rightarrow> int option) \<Rightarrow> string list \<Rightarrow> string option" where
  "best_epoch epochs [] = None"
| "best_epoch epochs (a # as) =
    (case epochs a of None \<Rightarrow> best_epoch epochs as
     | Some n \<Rightarrow> (case best_epoch epochs as of None \<Rightarrow> Some a
                 | Some b \<Rightarrow> if the (epochs b) > n then Some b else Some a))"

definition claimed_masters :: "(string \<Rightarrow> string list option) \<Rightarrow> string list \<Rightarrow> string list" where
  "claimed_masters reps as = filter (\<lambda>a. \<exists>r. reps a = Some r \<and> r \<noteq> []) as"

definition select_master ::
  "(string \<Rightarrow> string list option) \<Rightarrow> (string \<Rightarrow> int option) \<Rightarrow> string list \<Rightarrow> string" where
  "select_master reps epochs as =
    (case claimed_masters reps as of
       [m] \<Rightarrow> m
     | [] \<Rightarrow> (case best_epoch epochs as of None \<Rightarrow> [] | Some b \<Rightarrow> b)
     | ms \<Rightarrow> (case best_epoch epochs ms of None \<Rightarrow> [] | Some b \<Rightarrow> b))"

lemma best_epoch_Some:
  "best_epoch epochs as = Some b \<Longrightarrow>
    b \<in> set as \<and> (\<exists>n. epochs b = Some n \<and> (\<forall>a \<in> set as. \<forall>m. epochs a = Some m \<longrightarrow> m \<le> n))"
proof (induction as arbitrary: b)
  case Nil
  then show ?case by simp
next
  case (Cons a as)
  show ?case
  proof (cases "best_epoch epochs as")
    case None
    then have "\<forall>x \<in> set as. epochs x = None"
      by (induction as) (auto split: option.splits if_splits)
    then show ?thesis using Cons.prems None by (auto split: option.splits)
  next
    case (Some c)
    from Cons.IH [OF Some] Cons.prems Some show ?thesis
      by (fastforce split: option.splits if_splits)
  qed
qed

lemma best_epoch_None: "best_epoch epochs as = None \<longleftrightarrow> (\<forall>a \<in> set as. epochs a = None)"
  by (induction as) (auto split: option.splits)

text \<open>Brokers that answer the same way throughout the pass.\<close>

definition steady_brokers ::
  "env \<Rightarrow> string \<Rightarrow> (string \<Rightarrow> string list option) \<Rightarrow> (string \<Rightarrow> int option) \<Rightarrow> bool" where
  "steady_brokers \<E> v reps epochs \<longleftrightarrow>
    (\<forall>a s. (case fst (bc_getReplicaAddresses \<E> v a s) of Inl _ \<Rightarrow> None | Inr r \<Rightarrow> Some r) = reps a) \<and>
    (\<forall>a s. (case fst (bc_getEpoch \<E> v a s) of Inl _ \<Rightarrow> None | Inr n \<Rightarrow> Some n) = epochs a)"

lemma collectMasters_spec:
  assumes "steady_brokers \<E> v reps epochs"
  shows "fst (collectMasters \<E> v as acc s) = Inr (acc @ claimed_masters reps as)"
proof (induction as arbitrary: acc s)
  case Nil
  show ?case by (simp add: claimed_masters_def)
next
  case (Cons a as)
  obtain r t where run: "bc_getReplicaAddresses \<E> v a s = (r, t)" by (cases "bc_getReplicaAddresses \<E> v a s")
  have "(case r of Inl _ \<Rightarrow> None | Inr x \<Rightarrow> Some x) = reps a"
    using assms run unfolding steady_brokers_def by (metis fst_conv)
  then show ?case
    using Cons.IH run by (cases r) (auto simp: tryE_def claimed_masters_def dest: sym)
qed

definition scan_step :: "(string \<Rightarrow> int option) \<Rightarrow> int \<times> string \<Rightarrow> string \<Rightarrow> int \<times> string" where
  "scan_step epochs acc a =
    (case epochs a of None \<Rightarrow> acc
     | Some n \<Rightarrow> if snd acc = [] \<or> n > fst acc then (n, a) else acc)"

lemma scan_step_simps:
  "epochs a = None \<Longrightarrow> scan_step epochs acc a = acc"
  "epochs a = Some n \<Longrightarrow> scan_step epochs (m, b) a = (if b = [] \<or> n > m then (n, a) else (m, b))"
  by (simp_all add: scan_step_def)

lemma scanEpochs_fold:
  assumes "steady_brokers \<E> v reps epochs"
  shows "fst (scanEpochs \<E> v as m b s) = Inr (snd (foldl (scan_step epochs) (m, b) as))"
proof (induction as arbitrary: m b s)
  case Nil
  show ?case by simp
next
  case (Cons a as)
  obtain r t where run: "bc_getEpoch \<E> v a s = (r, t)" by (cases "bc_getEpoch \<E> v a s")
  have "(case r of Inl _ \<Rightarrow> None | Inr x \<Rightarrow> Some x) = epochs a"
    using assms run unfolding steady_brokers_def by (metis fst_conv)
  then show ?case
    using Cons.IH run by (cases r) (auto simp: tryE_def scan_step_simps dest: sym)
qed

lemma scan_fold_started:
  assumes "b \<noteq> []" and "[] \<notin> set as"
  shows "foldl (scan_step epochs) (m, b) as =
    (case best_epoch epochs as of None \<Rightarrow> (m, b)
     | Some c \<Rightarrow> if the (epochs c) > m then (the (epochs c), c) else (m, b))"
  using assms
proof (induction as arbitrary: m b)
  case Nil
  show ?case by simp
next
  case (Cons a as)
  show ?case
  proof (cases "epochs a")
    case None
    with Cons show ?thesis by (simp add: scan_step_simps)
  next
    case (Some n)
    with Cons show ?thesis by (auto simp: scan_step_simps split: option.splits)
  qed
qed

lemma scan_fold:
  assumes "[] \<notin> set as"
  shows "snd (foldl (scan_step epochs) (0, []) as) =
    (case best_epoch epochs as of None \<Rightarrow> [] | Some b \<Rightarrow> b)"
  using assms
proof (induction as)
  case Nil
  show ?case by simp
next
  case (Cons a as)
  show ?case
  proof (cases "epochs a")
    case None
    with Cons show ?thesis by (simp add: scan_step_simps)
  next
    case (Some n)
    with Cons.prems show ?thesis
      by (auto simp: scan_step_simps scan_fold_started split: option.splits)
  qed
qed

text \<open>
  C10: With brokers that answer the same way throughout, \<open>getCurrentMaster\<close> is \<open>select_master\<close>: the
  only broker that has replicas, and otherwise the first one with the greatest epoch, among the
  brokers with replicas when there are several and among all when there is none.
\<close>

theorem getCurrentMaster_refines:
  assumes "steady_brokers \<E> v reps epochs" and "as \<noteq> []" and "[] \<notin> set as"
  shows "fst (getCurrentMaster \<E> v as s) = Inr (select_master reps epochs as)"
proof -
  obtain t where run: "collectMasters \<E> v as [] s = (Inr (claimed_masters reps as), t)"
    using collectMasters_spec [OF assms(1), of as "[]" s]
    by (cases "collectMasters \<E> v as [] s") auto
  have ne: "[] \<notin> set (claimed_masters reps as)"
    using assms(3) by (simp add: claimed_masters_def)
  show ?thesis
  proof (cases "claimed_masters reps as")
    case Nil
    then show ?thesis
      using assms(2,3) run scanEpochs_fold [OF assms(1)]
      by (simp add: getCurrentMaster_def bindE_def select_master_def scan_fold)
  next
    case c1: (Cons m ms)
    show ?thesis
    proof (cases ms)
      case Nil
      then show ?thesis
        using assms(2) run c1 by (simp add: getCurrentMaster_def bindE_def select_master_def)
    next
      case (Cons m' ms')
      have "fst (scanEpochs \<E> v (m # m' # ms') 0 [] t) =
          Inr (case best_epoch epochs (m # m' # ms') of None \<Rightarrow> [] | Some b \<Rightarrow> b)"
        using scan_fold [of "m # m' # ms'"] ne unfolding c1 Cons scanEpochs_fold [OF assms(1)] by metis
      then show ?thesis
        using assms(2) run c1 Cons by (simp add: getCurrentMaster_def bindE_def select_master_def)
    qed
  qed
qed

theorem getCurrentMaster_refines_witness:
  "fst (getCurrentMaster sample_env ''v3'' [''a:1'', ''b:2''] sample_world) =
    Inr (select_master (\<lambda>_. None) (\<lambda>_. None) [''a:1'', ''b:2''])"
  by (rule getCurrentMaster_refines)
    (simp_all add: steady_brokers_def bc_defs send_run sample_env_def ok_response_def
      decode_getReplicaAddresses_def decode_getEpoch_def parseInt64_def parse_nat_def)

text \<open>
  When no broker answers, \<open>getCurrentMaster\<close> does not fail: it returns the empty address as
  the master, which the caller then writes into the status.
\<close>

theorem no_answer_empty_master:
  assumes "steady_brokers \<E> v (\<lambda>_. None) (\<lambda>_. None)" and "as \<noteq> []" and "[] \<notin> set as"
  shows "fst (getCurrentMaster \<E> v as s) = Inr []"
proof -
  obtain t where run: "collectMasters \<E> v as [] s = (Inr [], t)"
    using collectMasters_spec [OF assms(1), of as "[]" s]
    by (cases "collectMasters \<E> v as [] s") (auto simp: claimed_masters_def)
  have "best_epoch (\<lambda>_. None) as = None" by (simp add: best_epoch_None)
  then show ?thesis
    using assms run scanEpochs_fold [OF assms(1)] scan_fold [OF assms(3)]
    by (simp add: getCurrentMaster_def bindE_def)
qed

theorem no_answer_empty_master_witness:
  "fst (getCurrentMaster sample_env ''v3'' [''a:1'', ''b:2''] sample_world) = Inr []"
  by (rule no_answer_empty_master)
    (simp_all add: steady_brokers_def bc_defs send_run sample_env_def ok_response_def
      decode_getReplicaAddresses_def decode_getEpoch_def parseInt64_def parse_nat_def)

end
