(* ===== verification/Coordinator_Controller.thy ===== *)
theory Coordinator_Controller
  imports Coordinator Broker_Controller
begin

section \<open>The coordinator controller (controllers/coordinator_controller.go, coordinator_client.go)\<close>

text \<open>
  Creates the coordinators, tells each of them the address of the master broker, and drives
  their rolling update. The broker address is set through a pool of Redis clients; the pool
  only caches connections, which \<open>pool_getClient_spec\<close> states.
\<close>

definition getOrCreateCoordinatorService :: "env \<Rightarrow> service op" where
  "getOrCreateCoordinatorService \<E> =
    bindE get_cr (\<lambda>cr. getOrCreateService \<E> cr (createCoordinatorService cr))"

definition getOrCreateCoordinatorStatefulSet :: "env \<Rightarrow> statefulSet op" where
  "getOrCreateCoordinatorStatefulSet \<E> = ensureStatefulSet \<E> createCoordinatorStatefulSet"

definition createCoordinator :: "env \<Rightarrow> (statefulSet \<times> service) op" where
  "createCoordinator \<E> =
    bindE (createServiceGuard (getOrCreateCoordinatorService \<E>)) (\<lambda>coordinatorService.
    bindE (createStatefulSetGuard (getOrCreateCoordinatorStatefulSet \<E>)) (\<lambda>coordinatorStatefulSet.
    returnE (coordinatorStatefulSet, coordinatorService)))"

definition coordinatorReady :: "env \<Rightarrow> statefulSet \<Rightarrow> service \<Rightarrow> bool op" where
  "coordinatorReady \<E> ss sv =
    bindE (getServiceEndpointsNum \<E> sv) (\<lambda>n.
      returnE (int_of_i32 (st_ReadyReplicas (ss_Status ss)) \<ge> 1 \<and> n \<ge> 1))"

definition coordiantorAllReady :: "env \<Rightarrow> statefulSet \<Rightarrow> service \<Rightarrow> bool op" where
  "coordiantorAllReady \<E> ss sv =
    bindE (getServiceEndpointsNum \<E> sv) (\<lambda>n.
      returnE (int_of_i32 (st_ReadyReplicas (ss_Status ss)) \<ge> int_of_i32 coordinatorNum \<and>
               n \<ge> int_of_i32 coordinatorNum))"

subsection \<open>Telling the coordinators who the master is\<close>

text \<open>\<open>CONFIG SET brokers <address>\<close> on the client of one coordinator.\<close>

definition coordinator_setBrokerAddress :: "env \<Rightarrow> string \<Rightarrow> string \<Rightarrow> unit op" where
  "coordinator_setBrokerAddress \<E> coordAddress brokerAddress =
    redis_config_set \<E> coordAddress brokerAddress"

text \<open>
  The loop assigns every result to the same variable \<open>err\<close>, which the function returns: only
  the result of the last endpoint is reported.
\<close>

fun configSetBrokerLoop ::
  "env \<Rightarrow> undermoon \<Rightarrow> string \<Rightarrow> endpointAddress list \<Rightarrow> goerror option \<Rightarrow> unit op" where
  "configSetBrokerLoop \<E> cr masterBrokerAddress [] err =
    (case err of None \<Rightarrow> returnE () | Some e \<Rightarrow> throwE e)"
| "configSetBrokerLoop \<E> cr masterBrokerAddress (endpoint # rest) err =
    (let address = genCoordinatorAddressFromName (ea_Hostname endpoint) cr in
     tryE (coordinator_setBrokerAddress \<E> address masterBrokerAddress) (\<lambda>r.
       configSetBrokerLoop \<E> cr masterBrokerAddress rest
         (case r of Inl e \<Rightarrow> Some e | Inr _ \<Rightarrow> None)))"

definition configSetBroker :: "env \<Rightarrow> service \<Rightarrow> string \<Rightarrow> unit op" where
  "configSetBroker \<E> coordinatorService masterBrokerAddress =
    bindE (getEndpoints \<E> (om_Name (sv_Meta coordinatorService)) (om_Namespace (sv_Meta coordinatorService)))
      (\<lambda>endpoints. bindE get_cr (\<lambda>cr.
        configSetBrokerLoop \<E> cr masterBrokerAddress endpoints None))"

subsection \<open>Rolling update\<close>

definition coordinator_updateStatefulSetHelper :: "env \<Rightarrow> statefulSet \<Rightarrow> statefulSet op" where
  "coordinator_updateStatefulSetHelper \<E> ss = rollStatefulSet \<E> ''coordinatorStatefulSet'' createCoordinatorStatefulSet ss"

definition coordinator_triggerStatefulSetRollingUpdate :: "env \<Rightarrow> statefulSet \<Rightarrow> service \<Rightarrow> unit op" where
  "coordinator_triggerStatefulSetRollingUpdate \<E> ss sv =
    bindE (coordinator_updateStatefulSetHelper \<E> ss) (\<lambda>ss'.
    bindE (coordiantorAllReady \<E> ss' sv) (\<lambda>ready.
      if \<not> ready then throwE ErrRetryReconciliation else returnE ()))"

definition coordinator_needRollingUpdate :: "env \<Rightarrow> statefulSet \<Rightarrow> bool op" where
  "coordinator_needRollingUpdate \<E> ss =
    bindE get_cr (\<lambda>cr. liftE (coordinatorStatefulSetChanged \<E> cr ss))"

interpretation coordinator_roll: rolling_component createCoordinatorStatefulSet
    "coordinatorStatefulSetChanged \<E>"
    "\<lambda>cr. quantity_refl \<E> \<and> wf_resources (um_CoordinatorResources (um_Spec cr)) \<and>
          env_consistent (um_CoordinatorEnvVar (um_Spec cr))"
  for \<E>
  by unfold_locales (simp_all add: coordinatorStatefulSetChanged_fresh coordinatorStatefulSetChanged_frame)

subsection \<open>Facts\<close>

text \<open>
  The pool maps an address to a client of that address, whatever was asked before, so going
  through it is the same as connecting to the address.
\<close>

definition pool_wf :: "redisClientPool \<Rightarrow> bool" where
  "pool_wf pool \<longleftrightarrow> (\<forall>a c. pool a = Some c \<longrightarrow> c = RedisClient a)"

lemma pool_wf_new: "pool_wf newRedisClientPool"
  by (simp add: pool_wf_def newRedisClientPool_def)

text \<open>
  The pool of Redis clients returns a client of the requested address and stays a pool of such
  clients, whatever was asked before; it only grows by that address.
\<close>

theorem pool_getClient_spec:
  "pool_wf pool \<Longrightarrow> pool_getClient pool a = (c, pool') \<Longrightarrow>
    c = RedisClient a \<and> pool_wf pool' \<and> dom pool' = insert a (dom pool)"
  by (auto simp: pool_wf_def pool_getClient_def Let_def split: option.splits if_splits)

theorem pool_getClient_spec_witness:
  "RedisClient ''a:1'' = RedisClient ''a:1'' \<and> pool_wf (newRedisClientPool(''a:1'' \<mapsto> RedisClient ''a:1'')) \<and>
    dom (newRedisClientPool(''a:1'' \<mapsto> RedisClient ''a:1'')) = insert ''a:1'' (dom newRedisClientPool)"
  by (rule pool_getClient_spec [OF pool_wf_new])
    (simp add: pool_getClient_def newRedisClientPool_def Let_def)

text \<open>
  Every coordinator endpoint is told the master's address, in order, whatever the others
  answered; and the loop reports success exactly when the last endpoint succeeded, so the
  failure of an earlier one is lost.
\<close>

theorem configSetBrokerLoop_trace:
  "\<exists>rs. length rs = length eps \<and>
    w_trace (snd (configSetBrokerLoop \<E> cr m eps err s)) = w_trace s @
      map2 (\<lambda>ep r. EvRedisConfigSet (genCoordinatorAddressFromName (ea_Hostname ep) cr) m r) eps rs \<and>
    (fst (configSetBrokerLoop \<E> cr m eps err s) = Inr () \<longleftrightarrow>
       (if eps = [] then err = None else last rs = None))"
proof (induction eps arbitrary: err s)
  case Nil
  show ?case by (cases err) simp_all
next
  case (Cons ep eps)
  let ?a = "genCoordinatorAddressFromName (ea_Hostname ep) cr"
  let ?r = "env_redis_config_set \<E> (w_trace s) ?a m"
  let ?s = "s\<lparr>w_trace := w_trace s @ [EvRedisConfigSet ?a m ?r]\<rparr>"
  let ?e = "map_option ErrMsg ?r"
  have run: "configSetBrokerLoop \<E> cr m (ep # eps) err s = configSetBrokerLoop \<E> cr m eps ?e ?s"
    by (cases ?r) (simp_all add: tryE_def coordinator_setBrokerAddress_def redis_config_set_def call_def Let_def)
  obtain rs where "length rs = length eps"
    "w_trace (snd (configSetBrokerLoop \<E> cr m eps ?e ?s)) = w_trace ?s @
      map2 (\<lambda>ep r. EvRedisConfigSet (genCoordinatorAddressFromName (ea_Hostname ep) cr) m r) eps rs"
    "fst (configSetBrokerLoop \<E> cr m eps ?e ?s) = Inr () \<longleftrightarrow> (if eps = [] then ?e = None else last rs = None)"
    using Cons.IH [of ?e ?s] by blast
  then show ?case unfolding run by (intro exI [of _ "?r # rs"]) auto
qed

lemma emits_configSetBroker [emits_intros]:
  assumes "\<And>n ns r. P (EvGetEndpoints n ns r)" and "\<And>a b r. P (EvRedisConfigSet a b r)"
  shows "emits P (configSetBroker \<E> sv m)"
proof -
  have "emits P (configSetBrokerLoop \<E> cr m eps err)" for cr eps err
    by (induction eps arbitrary: err)
      (auto intro!: emits_intros assms simp: coordinator_setBrokerAddress_def split: option.splits)
  then show ?thesis unfolding configSetBroker_def by (intro emits_intros assms)
qed

end
