(* ===== verification/Storage_Controller.thy ===== *)
theory Storage_Controller
  imports Storage Broker_Controller Sample_Env
begin

section \<open>The storage controller (controllers/storage_controller.go)\<close>

text \<open>
  Creates the storage objects, scales the StatefulSet out at once and down only after the
  slots have moved and a waiting time has passed, checks readiness, lists the server proxies
  and drives the rolling update. \<open>ScaleState\<close> in the status of the custom resource is the
  state machine of scaling down: \<open>Stable\<close>, \<open>ScaleDownWait\<close>.
  A function that changes the StatefulSet its pointer refers to returns the changed object.
\<close>

definition scaleStateStable :: string where "scaleStateStable = ''Stable''"

definition scaleStateScaleDownWait :: string where "scaleStateScaleDownWait = ''ScaleDownWait''"

text \<open>In nanoseconds, as \<open>time.Duration\<close>.\<close>

definition scaleDownWaitTime :: int where "scaleDownWaitTime = 30 * 1000000000"

definition storageReplicas :: "undermoon \<Rightarrow> i32" where
  "storageReplicas cr = int32_of_int (int_of_u32 (um_ChunkNumber (um_Spec cr)) * chunkShardNumber)"

subsection \<open>Creation and scaling\<close>

definition getOrCreateStorageService :: "env \<Rightarrow> (undermoon \<Rightarrow> service) \<Rightarrow> service op" where
  "getOrCreateStorageService \<E> mk = bindE get_cr (\<lambda>cr. getOrCreateService \<E> cr (mk cr))"

definition getOrCreateStorageStatefulSet :: "env \<Rightarrow> statefulSet op" where
  "getOrCreateStorageStatefulSet \<E> = ensureStatefulSet \<E> createStorageStatefulSet"

definition emptyStorageVersion :: "undermoon \<Rightarrow> string" where
  "emptyStorageVersion cr =
    ''Empty ResourceVersion when updating storage statefulset replicas: '' @ um_Name cr"

definition updateStorageStatefulSet :: "env \<Rightarrow> statefulSet \<Rightarrow> statefulSet op" where
  "updateStorageStatefulSet \<E> storage =
    bindE get_cr (\<lambda>cr.
      updateStatefulSet \<E> (emptyStorageVersion cr)
        (storage\<lparr>ss_Spec := (ss_Spec storage)\<lparr>ss_Replicas := storageReplicas cr\<rparr>\<rparr>))"

text \<open>\<open>int32(cr.Spec.ChunkNumber)*2 > *storage.Spec.Replicas\<close>: the product wraps at 32 bits.\<close>

definition createStorage :: "env \<Rightarrow> (statefulSet \<times> service) op" where
  "createStorage \<E> =
    bindE (createServiceGuard (getOrCreateStorageService \<E> createStoragePublicService)) (\<lambda>_.
    bindE (createServiceGuard (getOrCreateStorageService \<E> createStorageService)) (\<lambda>storageService.
    bindE (createStatefulSetGuard (getOrCreateStorageStatefulSet \<E>)) (\<lambda>storage.
    bindE get_cr (\<lambda>cr.
      if int_of_i32 (um_ChunkNumber (um_Spec cr) * 2) > int_of_i32 (ss_Replicas (ss_Spec storage))
      then bindE (updateStorageStatefulSet \<E> storage) (\<lambda>storage'. returnE (storage', storageService))
      else returnE (storage, storageService)))))"

text \<open>
  The status is set in the object the pointer refers to before the update is sent, and stays
  set when the update fails; after a success the object is what the server returned.
\<close>

definition setScaleState :: "env \<Rightarrow> string \<Rightarrow> unit op" where
  "setScaleState \<E> scaleState =
    bindE (if scaleState = scaleStateScaleDownWait then time_now \<E> else returnE 0) (\<lambda>timestamp.
    bindE get_cr (\<lambda>cr.
      let cr' = cr\<lparr>um_Status := (um_Status cr)\<lparr>us_ScaleState := scaleState,
                      us_ScaleDownWaitTimestamp := timestamp\<rparr>\<rparr> in
      bindE (put_cr cr') (\<lambda>_.
      tryE (k8s_update_status \<E> cr') (\<lambda>r. case r of
          Inl e \<Rightarrow> if IsConflict e then throwE ErrRetryReconciliation else throwE e
        | Inr cr'' \<Rightarrow> put_cr cr''))))"

definition scaleDownStorageStatefulSet :: "env \<Rightarrow> statefulSet \<Rightarrow> clusterInfo \<Rightarrow> statefulSet op" where
  "scaleDownStorageStatefulSet \<E> storage info =
    bindE get_cr (\<lambda>cr.
      let expectedNodeNumber = int_of_u32 (um_ChunkNumber (um_Spec cr)) * chunkNodeNumber in
      if ci_NodeNumberWithSlots info > expectedNodeNumber then throwE ErrRetryReconciliation
      else if ci_NodeNumberWithSlots info < expectedNodeNumber then throwE ErrRetryReconciliation
      else if ss_Replicas (ss_Spec storage) = storageReplicas cr then returnE storage
      else if us_ScaleState (um_Status cr) \<noteq> scaleStateScaleDownWait
      then bindE (setScaleState \<E> scaleStateScaleDownWait) (\<lambda>_. throwE ErrRetryReconciliation)
      else bindE (time_now \<E>) (\<lambda>now.
        if us_ScaleDownWaitTimestamp (um_Status cr) + scaleDownWaitTime > now
        then throwE ErrRetryReconciliation
        else bindE (updateStorageStatefulSet \<E> storage) (\<lambda>storage'.
             bindE (setScaleState \<E> scaleStateStable) (\<lambda>_. returnE storage'))))"

subsection \<open>Readiness\<close>

definition storageAllReady :: "env \<Rightarrow> service \<Rightarrow> bool op" where
  "storageAllReady \<E> sv =
    bindE (getServiceEndpointsNum \<E> sv) (\<lambda>n. bindE get_cr (\<lambda>cr.
      returnE (n \<ge> int_of_i32 (storageReplicas cr))))"

definition storageAllReadyAndStable :: "env \<Rightarrow> service \<Rightarrow> statefulSet \<Rightarrow> bool op" where
  "storageAllReadyAndStable \<E> sv ss =
    bindE (storageAllReady \<E> sv) (\<lambda>ready.
      if \<not> ready then returnE False
      else let statefulSetPodNum = ss_Replicas (ss_Spec ss) in
        if st_CurrentReplicas (ss_Status ss) \<noteq> statefulSetPodNum then returnE False
        else if st_Replicas (ss_Status ss) \<noteq> statefulSetPodNum then returnE False
        else returnE True)"

subsection \<open>The server proxies behind the service\<close>

text \<open>
  An index that does not parse is only logged: the code goes on with the value \<open>ParseInt\<close>
  returned beside the error.
\<close>

definition serverProxyOf :: "undermoon \<Rightarrow> endpointAddress \<Rightarrow> serverProxyMeta" where
  "serverProxyOf cr endpoint =
    (let hostname = ea_Hostname endpoint;
         indexStr = after_last (CHR ''-'') hostname;
         (index, err) = parseInt64 indexStr;
         address = genStorageFQDNFromName hostname cr
     in newServerProxyMeta address address (um_Port (um_Spec cr)) index)"

definition getServerProxies :: "env \<Rightarrow> service \<Rightarrow> serverProxyMeta list op" where
  "getServerProxies \<E> sv =
    bindE (getEndpoints \<E> (om_Name (sv_Meta sv)) (om_Namespace (sv_Meta sv))) (\<lambda>endpoints.
    bindE get_cr (\<lambda>cr. returnE (map (serverProxyOf cr) endpoints)))"

subsection \<open>Rolling update\<close>

definition storage_updateStatefulSetHelper :: "env \<Rightarrow> statefulSet \<Rightarrow> statefulSet op" where
  "storage_updateStatefulSetHelper \<E> ss = rollStatefulSet \<E> ''statefulsetStatefulSet'' createStorageStatefulSet ss"

definition storage_triggerStatefulSetRollingUpdate :: "env \<Rightarrow> statefulSet \<Rightarrow> service \<Rightarrow> unit op" where
  "storage_triggerStatefulSetRollingUpdate \<E> ss sv =
    bindE (storage_updateStatefulSetHelper \<E> ss) (\<lambda>_.
    bindE (storageAllReady \<E> sv) (\<lambda>ready.
      if \<not> ready then throwE ErrRetryReconciliation else returnE ()))"

definition storage_needRollingUpdate :: "env \<Rightarrow> statefulSet \<Rightarrow> bool op" where
  "storage_needRollingUpdate \<E> ss = bindE get_cr (\<lambda>cr. liftE (storageStatefulSetChanged \<E> cr ss))"

interpretation storage_roll: rolling_component createStorageStatefulSet "storageStatefulSetChanged \<E>"
    "\<lambda>cr. quantity_refl \<E> \<and> wf_resources (um_ProxyResources (um_Spec cr)) \<and>
          wf_resources (um_RedisResources (um_Spec cr)) \<and>
          env_consistent (um_ProxyEnvVar (um_Spec cr)) \<and> env_consistent (um_RedisEnvVar (um_Spec cr))"
  for \<E>
  by unfold_locales (simp_all add: storageStatefulSetChanged_fresh storageStatefulSetChanged_frame)

subsection \<open>Runs of the operations\<close>

definition withReplicas :: "statefulSet \<Rightarrow> i32 \<Rightarrow> statefulSet" where
  "withReplicas ss n = ss\<lparr>ss_Spec := (ss_Spec ss)\<lparr>ss_Replicas := n\<rparr>\<rparr>"

lemma withReplicas_simps [simp]:
  "ss_Meta (withReplicas ss n) = ss_Meta ss" "ss_Status (withReplicas ss n) = ss_Status ss"
  "ss_Replicas (ss_Spec (withReplicas ss n)) = n"
  "ss_Template (ss_Spec (withReplicas ss n)) = ss_Template (ss_Spec ss)"
  by (simp_all add: withReplicas_def)

lemma updateStorageStatefulSet_run:
  "updateStorageStatefulSet \<E> storage s =
    updateStatefulSet \<E> (emptyStorageVersion (w_cr s)) (withReplicas storage (storageReplicas (w_cr s))) s"
  by (simp add: updateStorageStatefulSet_def bindE_def get_cr_def withReplicas_def)

lemma emits_updateStorageStatefulSet [emits_intros]:
  "(\<And>n r. P (EvUpdateStatefulSet (withReplicas storage n) r)) \<Longrightarrow>
    emits P (updateStorageStatefulSet \<E> storage)"
  unfolding updateStorageStatefulSet_def
  by (intro emits_intros) (simp add: withReplicas_def [symmetric])

lemma emits_setScaleState [emits_intros]:
  "(\<And>n. P (EvNow n)) \<Longrightarrow> (\<And>cr r. P (EvUpdateStatus cr r)) \<Longrightarrow> emits P (setScaleState \<E> x)"
  unfolding setScaleState_def by (intro emits_intros)

lemma emits_getServiceEndpointsNum [emits_intros]:
  "(\<And>n ns r. P (EvGetEndpoints n ns r)) \<Longrightarrow> emits P (getServiceEndpointsNum \<E> sv)"
  unfolding getServiceEndpointsNum_def by (intro emits_intros)

lemma emits_storageAllReady [emits_intros]:
  "(\<And>n ns r. P (EvGetEndpoints n ns r)) \<Longrightarrow> emits P (storageAllReady \<E> sv)"
  unfolding storageAllReady_def by (intro emits_intros)

lemma emits_storageAllReadyAndStable [emits_intros]:
  "(\<And>n ns r. P (EvGetEndpoints n ns r)) \<Longrightarrow> emits P (storageAllReadyAndStable \<E> sv ss)"
  unfolding storageAllReadyAndStable_def by (intro emits_intros)

lemma emits_getServerProxies [emits_intros]:
  "(\<And>n ns r. P (EvGetEndpoints n ns r)) \<Longrightarrow> emits P (getServerProxies \<E> sv)"
  unfolding getServerProxies_def by (intro emits_intros)

lemma emits_scaleDownStorageStatefulSet [emits_intros]:
  "(\<And>n. P (EvNow n)) \<Longrightarrow> (\<And>cr r. P (EvUpdateStatus cr r)) \<Longrightarrow>
    (\<And>n r. P (EvUpdateStatefulSet (withReplicas storage n) r)) \<Longrightarrow>
    emits P (scaleDownStorageStatefulSet \<E> storage info)"
  unfolding scaleDownStorageStatefulSet_def by (intro emits_intros)

text \<open>How the status is set: the clock is read only when the wait begins.\<close>

lemma setScaleState_wait:
  "setScaleState \<E> scaleStateScaleDownWait s =
    (let n = env_now \<E> (w_trace s);
         cr' = (w_cr s)\<lparr>um_Status := (um_Status (w_cr s))\<lparr>us_ScaleState := scaleStateScaleDownWait,
                 us_ScaleDownWaitTimestamp := n\<rparr>\<rparr>;
         r = env_update_status \<E> (w_trace s @ [EvNow n]) cr';
         t = s\<lparr>w_trace := w_trace s @ [EvNow n, EvUpdateStatus cr' r], w_cr := cr'\<rparr>
     in case r of
          Inl e \<Rightarrow> (Inl (if e = Conflict then ErrRetryReconciliation else ErrApi e), t)
        | Inr c \<Rightarrow> (Inr (), t\<lparr>w_cr := c\<rparr>))"
  by (simp add: setScaleState_def bindE_def time_now_def call_def get_cr_def put_cr_def tryE_def
      k8s_update_status_def of_api_def Let_def IsConflict_def split: sum.splits)

lemma setScaleState_stable:
  "setScaleState \<E> scaleStateStable s =
    (let cr' = (w_cr s)\<lparr>um_Status := (um_Status (w_cr s))\<lparr>us_ScaleState := scaleStateStable,
                 us_ScaleDownWaitTimestamp := 0\<rparr>\<rparr>;
         r = env_update_status \<E> (w_trace s) cr';
         t = s\<lparr>w_trace := w_trace s @ [EvUpdateStatus cr' r], w_cr := cr'\<rparr>
     in case r of
          Inl e \<Rightarrow> (Inl (if e = Conflict then ErrRetryReconciliation else ErrApi e), t)
        | Inr c \<Rightarrow> (Inr (), t\<lparr>w_cr := c\<rparr>))"
  by (simp add: setScaleState_def scaleStateStable_def scaleStateScaleDownWait_def bindE_def
      get_cr_def put_cr_def tryE_def call_def k8s_update_status_def of_api_def Let_def IsConflict_def
      split: sum.splits)

lemma updateStatefulSet_run:
  "updateStatefulSet \<E> msg ss s =
    (if om_ResourceVersion (ss_Meta ss) = [] then (Inl (ErrMsg msg), s)
     else let r = env_update_statefulset \<E> (w_trace s) ss in
       (case r of Inl e \<Rightarrow> Inl (if e = Conflict then ErrRetryReconciliation else ErrApi e)
        | Inr ss' \<Rightarrow> Inr ss', s\<lparr>w_trace := w_trace s @ [EvUpdateStatefulSet ss r]\<rparr>))"
  by (simp add: updateStatefulSet_def tryE_def k8s_update_statefulset_def call_def of_api_def
      Let_def IsConflict_def split: sum.splits)

subsection \<open>When the StatefulSet is made smaller\<close>

text \<open>
  The decision of \<open>scaleDownStorageStatefulSet\<close>, as a function of the phase the status
  records, the nodes that hold slots, the nodes asked for, and the clock.
\<close>

datatype scale_phase = Steady | Waiting int

datatype scale_decision = AwaitSlots | NothingToDo | StartWaiting | KeepWaiting | Resize

definition phase_of :: "undermoon \<Rightarrow> scale_phase" where
  "phase_of cr = (if us_ScaleState (um_Status cr) = scaleStateScaleDownWait
     then Waiting (us_ScaleDownWaitTimestamp (um_Status cr)) else Steady)"

fun scale_decide :: "scale_phase \<Rightarrow> int \<Rightarrow> int \<Rightarrow> bool \<Rightarrow> int \<Rightarrow> scale_decision" where
  "scale_decide phase slotNodes wanted sized now =
    (if slotNodes \<noteq> wanted then AwaitSlots
     else if sized then NothingToDo
     else case phase of
         Steady \<Rightarrow> StartWaiting
       | Waiting t0 \<Rightarrow> if now < t0 + scaleDownWaitTime then KeepWaiting else Resize)"

definition decision_of :: "env \<Rightarrow> statefulSet \<Rightarrow> clusterInfo \<Rightarrow> world \<Rightarrow> scale_decision" where
  "decision_of \<E> storage info s =
    scale_decide (phase_of (w_cr s)) (ci_NodeNumberWithSlots info)
      (int_of_u32 (um_ChunkNumber (um_Spec (w_cr s))) * chunkNodeNumber)
      (ss_Replicas (ss_Spec storage) = storageReplicas (w_cr s)) (env_now \<E> (w_trace s))"

definition clock_read :: "env \<Rightarrow> world \<Rightarrow> world" where
  "clock_read \<E> s = s\<lparr>w_trace := w_trace s @ [EvNow (env_now \<E> (w_trace s))]\<rparr>"

lemma scaleDown_run:
  "scaleDownStorageStatefulSet \<E> storage info s =
    (case decision_of \<E> storage info s of
       AwaitSlots \<Rightarrow> (Inl ErrRetryReconciliation, s)
     | NothingToDo \<Rightarrow> (Inr storage, s)
     | StartWaiting \<Rightarrow> bindE (setScaleState \<E> scaleStateScaleDownWait) (\<lambda>_. throwE ErrRetryReconciliation) s
     | KeepWaiting \<Rightarrow> (Inl ErrRetryReconciliation, clock_read \<E> s)
     | Resize \<Rightarrow> bindE (updateStorageStatefulSet \<E> storage) (\<lambda>storage'.
         bindE (setScaleState \<E> scaleStateStable) (\<lambda>_. returnE storage')) (clock_read \<E> s))"
  by (auto simp: scaleDownStorageStatefulSet_def decision_of_def phase_of_def clock_read_def
      bindE_def get_cr_def time_now_def call_def Let_def)

text \<open>The StatefulSet is written only on the decision \<open>Resize\<close>, with the asked-for size.\<close>

lemma scaleDown_update:
  assumes "scaleDownStorageStatefulSet \<E> storage info s = (r, t)"
    and "EvUpdateStatefulSet ss x \<in> set (new_events s t)"
  shows "decision_of \<E> storage info s = Resize \<and>
    ss = withReplicas storage (storageReplicas (w_cr s)) \<and>
    hd (new_events s t) = EvNow (env_now \<E> (w_trace s))"
proof (cases "decision_of \<E> storage info s")
  case StartWaiting
  then have "emits (\<lambda>e. \<forall>ss x. e \<noteq> EvUpdateStatefulSet ss x)
      (bindE (setScaleState \<E> scaleStateScaleDownWait) (\<lambda>_. throwE ErrRetryReconciliation :: statefulSet op))"
    by (intro emits_intros) simp_all
  from emits_new_events [OF this, of s r t "EvUpdateStatefulSet ss x"] show ?thesis
    using assms StartWaiting by (simp add: scaleDown_run)
next
  case Resize
  let ?u = "clock_read \<E> s"
  let ?rest = "\<lambda>storage'. bindE (setScaleState \<E> scaleStateStable) (\<lambda>_. returnE (storage' :: statefulSet))"
  have run: "bindE (updateStorageStatefulSet \<E> storage) ?rest ?u = (r, t)"
    using assms(1) Resize by (simp add: scaleDown_run)
  have cr: "w_cr ?u = w_cr s" by (simp add: clock_read_def)
  have "emits (\<lambda>e. \<forall>ss' x. e = EvUpdateStatefulSet ss' x \<longrightarrow> ss' = withReplicas storage (storageReplicas (w_cr s)))
      (bindE (updateStatefulSet \<E> (emptyStorageVersion (w_cr s)) (withReplicas storage (storageReplicas (w_cr s)))) ?rest)"
    by (intro emits_intros) auto
  moreover have "bindE (updateStatefulSet \<E> (emptyStorageVersion (w_cr s)) (withReplicas storage (storageReplicas (w_cr s)))) ?rest ?u = (r, t)"
    using run by (simp add: bindE_def updateStorageStatefulSet_run cr)
  ultimately obtain new where new: "w_trace t = w_trace ?u @ new"
    "\<forall>e \<in> set new. \<forall>ss' x. e = EvUpdateStatefulSet ss' x \<longrightarrow> ss' = withReplicas storage (storageReplicas (w_cr s))"
    by (rule emitsE)
  have "new_events s t = EvNow (env_now \<E> (w_trace s)) # new"
    using new(1) by (simp add: clock_read_def new_events_def)
  then show ?thesis using assms(2) new(2) Resize by auto
qed (use assms in \<open>auto simp: scaleDown_run new_events_def clock_read_def\<close>)

text \<open>What a \<open>Resize\<close> decision says.\<close>

lemma decision_Resize:
  "decision_of \<E> storage info s = Resize \<longleftrightarrow>
    ci_NodeNumberWithSlots info = int_of_u32 (um_ChunkNumber (um_Spec (w_cr s))) * chunkNodeNumber \<and>
    ss_Replicas (ss_Spec storage) \<noteq> storageReplicas (w_cr s) \<and>
    us_ScaleState (um_Status (w_cr s)) = scaleStateScaleDownWait \<and>
    us_ScaleDownWaitTimestamp (um_Status (w_cr s)) + scaleDownWaitTime \<le> env_now \<E> (w_trace s)"
  by (auto simp: decision_of_def phase_of_def)

subsection \<open>The wait across reconciliations\<close>

text \<open>
  Many passes over the resource: each step is one call of the scale-down code, with whatever
  StatefulSet and cluster information the pass found, or a fresh read of the resource, which
  may be stale: its status is the one at hand or any the API server ever returned.
\<close>

inductive scaling_run :: "env \<Rightarrow> world \<Rightarrow> world \<Rightarrow> bool" for \<E> where
  start: "scaling_run \<E> s s"
| pass: "scaling_run \<E> s t \<Longrightarrow> scaleDownStorageStatefulSet \<E> storage info t = (r, u) \<Longrightarrow>
    scaling_run \<E> s u"
| reread: "scaling_run \<E> s t \<Longrightarrow>
    um_Status cr' = um_Status (w_cr t) \<or>
      (\<exists>sent cr''. EvUpdateStatus sent (Inr cr'') \<in> set (w_trace t) \<and> um_Status cr' = um_Status cr'') \<Longrightarrow>
    scaling_run \<E> s (t\<lparr>w_cr := cr'\<rparr>)"

text \<open>
  The API server stores the status it is sent; a time loses less than \<open>g\<close> nanoseconds
  (\<open>metav1.Time\<close> is kept in whole seconds).
\<close>

definition stores_status :: "env \<Rightarrow> int \<Rightarrow> bool" where
  "stores_status \<E> g \<longleftrightarrow> (\<forall>tr cr cr'. env_update_status \<E> tr cr = Inr cr' \<longrightarrow>
    us_ScaleState (um_Status cr') = us_ScaleState (um_Status cr) \<and>
    us_ScaleDownWaitTimestamp (um_Status cr') \<ge> us_ScaleDownWaitTimestamp (um_Status cr) - g)"

text \<open>A status that waits since \<open>t0\<close> is backed by a clock reading in the trace.\<close>

definition backed :: "int \<Rightarrow> trace \<Rightarrow> undermoon \<Rightarrow> bool" where
  "backed g tr cr \<longleftrightarrow> (us_ScaleState (um_Status cr) = scaleStateScaleDownWait \<longrightarrow>
    (\<exists>t0. EvNow t0 \<in> set tr \<and> us_ScaleDownWaitTimestamp (um_Status cr) \<ge> t0 - g))"

definition waited :: "int \<Rightarrow> trace \<Rightarrow> bool" where
  "waited g tr \<longleftrightarrow> (\<exists>t0 t1. EvNow t0 \<in> set tr \<and> EvNow t1 \<in> set tr \<and> t0 - g + scaleDownWaitTime \<le> t1)"

definition is_update :: "event \<Rightarrow> bool" where
  "is_update e \<longleftrightarrow> (\<exists>ss x. e = EvUpdateStatefulSet ss x)"

definition scaling_inv :: "int \<Rightarrow> world \<Rightarrow> bool" where
  "scaling_inv g w \<longleftrightarrow> guarded is_update (waited g) (w_trace w) \<and> backed g (w_trace w) (w_cr w) \<and>
    (\<forall>sent cr''. EvUpdateStatus sent (Inr cr'') \<in> set (w_trace w) \<longrightarrow> backed g (w_trace w) cr'')"

lemma lasting_waited: "lasting (waited g)"
  by (auto simp: lasting_def waited_def)

lemma backed_append: "backed g tr cr \<Longrightarrow> backed g (tr @ new) cr"
  by (auto simp: backed_def)

lemma backed_status: "um_Status cr' = um_Status cr \<Longrightarrow> backed g tr cr' = backed g tr cr"
  by (simp add: backed_def)

lemma backed_stable: "us_ScaleState (um_Status cr) = scaleStateStable \<Longrightarrow> backed g tr cr"
  by (simp add: backed_def scaleStateStable_def scaleStateScaleDownWait_def)

lemma is_update_simps [simp]:
  "\<not> is_update (EvNow n)" "\<not> is_update (EvUpdateStatus cr r)" "is_update (EvUpdateStatefulSet ss x)"
  by (simp_all add: is_update_def)

text \<open>Each part of a pass keeps the invariant.\<close>

lemma scaling_inv_setWait:
  assumes "scaling_inv g s" and "stores_status \<E> g" and "g \<ge> 0"
    and "setScaleState \<E> scaleStateScaleDownWait s = (r, t)"
  shows "scaling_inv g t"
proof -
  define n where "n = env_now \<E> (w_trace s)"
  define cr' where "cr' = (w_cr s)\<lparr>um_Status := (um_Status (w_cr s))\<lparr>us_ScaleState := scaleStateScaleDownWait,
    us_ScaleDownWaitTimestamp := n\<rparr>\<rparr>"
  define x where "x = env_update_status \<E> (w_trace s @ [EvNow n]) cr'"
  have t: "w_trace t = w_trace s @ [EvNow n, EvUpdateStatus cr' x]"
    "w_cr t = (case x of Inl _ \<Rightarrow> cr' | Inr c \<Rightarrow> c)"
    using assms(4) unfolding setScaleState_wait
    by (auto simp: n_def [symmetric] cr'_def [symmetric] x_def [symmetric] Let_def split: sum.splits)
  have own: "backed g (w_trace t) cr'"
    using t assms(3) by (auto simp: backed_def cr'_def)
  have answer: "backed g (w_trace t) c" if "x = Inr c" for c
  proof -
    have "us_ScaleDownWaitTimestamp (um_Status c) \<ge> us_ScaleDownWaitTimestamp (um_Status cr') - g"
      using that assms(2) by (simp add: x_def stores_status_def)
    then show ?thesis using t(1) unfolding backed_def cr'_def by (intro impI exI [of _ n]) simp
  qed
  show ?thesis
    using assms(1) own answer t unfolding scaling_inv_def
    by (auto intro!: guarded_append_idle backed_append split: sum.splits)
qed

lemma scaling_inv_setStable:
  assumes "scaling_inv g s" and "stores_status \<E> g" and "setScaleState \<E> scaleStateStable s = (r, t)"
  shows "scaling_inv g t"
proof -
  define cr' where "cr' = (w_cr s)\<lparr>um_Status := (um_Status (w_cr s))\<lparr>us_ScaleState := scaleStateStable,
    us_ScaleDownWaitTimestamp := 0\<rparr>\<rparr>"
  define x where "x = env_update_status \<E> (w_trace s) cr'"
  have t: "w_trace t = w_trace s @ [EvUpdateStatus cr' x]"
    "w_cr t = (case x of Inl _ \<Rightarrow> cr' | Inr c \<Rightarrow> c)"
    using assms(3) unfolding setScaleState_stable
    by (auto simp: cr'_def [symmetric] x_def [symmetric] Let_def split: sum.splits)
  have own: "backed g (w_trace t) cr'" by (simp add: backed_stable cr'_def)
  have answer: "backed g (w_trace t) c" if "x = Inr c" for c
    using that assms(2) unfolding x_def stores_status_def by (auto intro!: backed_stable simp: cr'_def)
  show ?thesis
    using assms(1) own answer t unfolding scaling_inv_def
    by (auto intro!: guarded_append_idle backed_append split: sum.splits)
qed

lemma scaling_inv_clock: "scaling_inv g s \<Longrightarrow> scaling_inv g (clock_read \<E> s)"
  by (auto simp: scaling_inv_def clock_read_def intro!: guarded_append_idle backed_append)

lemma scaling_inv_update:
  assumes "scaling_inv g s" and "waited g (w_trace s)" and "updateStatefulSet \<E> msg ss s = (r, t)"
  shows "scaling_inv g t"
  using assms
  by (auto simp: updateStatefulSet_run scaling_inv_def Let_def split: if_splits
      intro!: guarded_append_evidence lasting_waited backed_append)

lemma scaling_inv_pass:
  assumes inv: "scaling_inv g s" and st: "stores_status \<E> g" "g \<ge> 0"
    and run: "scaleDownStorageStatefulSet \<E> storage info s = (r, t)"
  shows "scaling_inv g t"
proof (cases "decision_of \<E> storage info s")
  case StartWaiting
  obtain q u where q: "setScaleState \<E> scaleStateScaleDownWait s = (q, u)" by fastforce
  then have "t = u" using run StartWaiting by (cases q) (auto simp: scaleDown_run bindE_def)
  then show ?thesis using scaling_inv_setWait [OF inv st q] by simp
next
  case Resize
  let ?u = "clock_read \<E> s"
  have inv': "scaling_inv g ?u" using inv by (rule scaling_inv_clock)
  have "us_ScaleState (um_Status (w_cr s)) = scaleStateScaleDownWait"
    "us_ScaleDownWaitTimestamp (um_Status (w_cr s)) + scaleDownWaitTime \<le> env_now \<E> (w_trace s)"
    using Resize by (simp_all add: decision_Resize)
  then have w: "waited g (w_trace ?u)"
    using inv by (fastforce simp: scaling_inv_def backed_def waited_def clock_read_def)
  obtain q v where q: "updateStatefulSet \<E> (emptyStorageVersion (w_cr ?u)) (withReplicas storage (storageReplicas (w_cr ?u))) ?u = (q, v)"
    by fastforce
  have inv'': "scaling_inv g v" using scaling_inv_update [OF inv' w q] .
  obtain p y where p: "setScaleState \<E> scaleStateStable v = (p, y)" by fastforce
  have "t = v \<or> t = y"
    using run Resize q p by (cases q; cases p) (auto simp: scaleDown_run bindE_def updateStorageStatefulSet_run)
  then show ?thesis using inv'' scaling_inv_setStable [OF inv'' st(1) p] by blast
qed (use assms in \<open>auto simp: scaleDown_run scaling_inv_clock\<close>)

lemma scaling_run_inv:
  "scaling_run \<E> s t \<Longrightarrow> scaling_inv g s \<Longrightarrow> stores_status \<E> g \<Longrightarrow> g \<ge> 0 \<Longrightarrow> scaling_inv g t"
proof (induction rule: scaling_run.induct)
  case (start s)
  then show ?case by simp
next
  case (pass s t storage info r u)
  then show ?case using scaling_inv_pass by blast
next
  case (reread s t cr')
  then have inv: "scaling_inv g t" by blast
  then have "backed g (w_trace t) cr'"
    using reread.hyps(2) backed_status unfolding scaling_inv_def by blast
  with inv show ?case by (simp add: scaling_inv_def)
qed

subsection \<open>Scaling out\<close>

definition storage_objects :: "env \<Rightarrow> (statefulSet \<times> service) op" where
  "storage_objects \<E> =
    bindE (createServiceGuard (getOrCreateStorageService \<E> createStoragePublicService)) (\<lambda>_.
    bindE (createServiceGuard (getOrCreateStorageService \<E> createStorageService)) (\<lambda>storageService.
    bindE (createStatefulSetGuard (getOrCreateStorageStatefulSet \<E>)) (\<lambda>storage.
    returnE (storage, storageService))))"

definition storage_scale_out :: "env \<Rightarrow> statefulSet \<Rightarrow> service \<Rightarrow> (statefulSet \<times> service) op" where
  "storage_scale_out \<E> storage sv =
    bindE get_cr (\<lambda>cr.
      if int_of_i32 (um_ChunkNumber (um_Spec cr) * 2) > int_of_i32 (ss_Replicas (ss_Spec storage))
      then bindE (updateStorageStatefulSet \<E> storage) (\<lambda>storage'. returnE (storage', sv))
      else returnE (storage, sv))"

lemma createStorage_split:
  "createStorage \<E> = bindE (storage_objects \<E>) (\<lambda>(storage, sv). storage_scale_out \<E> storage sv)"
proof -
  have ret: "bindE (returnE x) f = f x" for x :: "statefulSet \<times> service" and f :: "_ \<Rightarrow> (statefulSet \<times> service) op"
    by (rule ext) (simp add: bindE_def)
  show ?thesis
    by (simp add: createStorage_def storage_objects_def storage_scale_out_def bindE_assoc ret)
qed

lemma emits_getOrCreateStorageService [emits_intros]:
  "(\<And>n ns r. P (EvGetService n ns r)) \<Longrightarrow> (\<And>sv r. P (EvCreateService sv r)) \<Longrightarrow>
    emits P (getOrCreateStorageService \<E> mk)"
  unfolding getOrCreateStorageService_def by (intro emits_intros)

lemma emits_storage_objects [emits_intros]:
  "(\<And>n ns r. P (EvGetService n ns r)) \<Longrightarrow> (\<And>sv r. P (EvCreateService sv r)) \<Longrightarrow>
    (\<And>n ns r. P (EvGetStatefulSet n ns r)) \<Longrightarrow> (\<And>ss r. P (EvCreateStatefulSet ss r)) \<Longrightarrow>
    emits P (storage_objects \<E>)"
  unfolding storage_objects_def getOrCreateStorageStatefulSet_def by (intro emits_intros)

lemma emits_storage_scale_out [emits_intros]:
  "(\<And>n r. P (EvUpdateStatefulSet (withReplicas ss n) r)) \<Longrightarrow> emits P (storage_scale_out \<E> ss sv)"
  unfolding storage_scale_out_def by (intro emits_intros)

lemma emits_createStorage [emits_intros]:
  "(\<And>n ns r. P (EvGetService n ns r)) \<Longrightarrow> (\<And>sv r. P (EvCreateService sv r)) \<Longrightarrow>
    (\<And>n ns r. P (EvGetStatefulSet n ns r)) \<Longrightarrow> (\<And>ss r. P (EvCreateStatefulSet ss r)) \<Longrightarrow>
    (\<And>ss r. P (EvUpdateStatefulSet ss r)) \<Longrightarrow> emits P (createStorage \<E>)"
  unfolding createStorage_split by (intro emits_intros)

lemma storage_objects_seen:
  assumes "storage_objects \<E> s = (Inr (ss, sv), t)"
  shows "sts_seen ss (new_events s t)"
proof -
  obtain sv' u v where 1: "createServiceGuard (getOrCreateStorageService \<E> createStoragePublicService) s = (Inr sv', u)"
    and 2: "createServiceGuard (getOrCreateStorageService \<E> createStorageService) u = (Inr sv, v)"
    and 3: "createStatefulSetGuard (ensureStatefulSet \<E> createStorageStatefulSet) v = (Inr ss, t)"
    using assms by (auto simp: storage_objects_def getOrCreateStorageStatefulSet_def bindE_eq_Inr)
  have em: "emits (\<lambda>_. True) (createServiceGuard (getOrCreateStorageService \<E> createStoragePublicService))"
    "emits (\<lambda>_. True) (createServiceGuard (getOrCreateStorageService \<E> createStorageService))"
    "emits (\<lambda>_. True) (createStatefulSetGuard (ensureStatefulSet \<E> createStorageStatefulSet))"
    by (intro emits_intros TrueI)+
  have a: "w_trace u = w_trace s @ new_events s u"
    by (rule emits_trace_mono [OF em(1) 1])
  have b: "w_trace v = w_trace u @ new_events u v"
    by (rule emits_trace_mono [OF em(2) 2])
  have c: "w_trace t = w_trace v @ new_events v t"
    by (rule emits_trace_mono [OF em(3) 3])
  have "new_events s t = new_events s u @ new_events u v @ new_events v t"
    using a b c by (metis append.assoc new_events_append)
  then show ?thesis using guarded_ensure_seen [OF 3] by simp
qed

lemma scale_out_update:
  assumes "storage_scale_out \<E> old sv s = (r, t)" and "EvUpdateStatefulSet ss x \<in> set (new_events s t)"
  shows "ss = withReplicas old (um_ChunkNumber (um_Spec (w_cr s)) * 2) \<and>
    sint (ss_Replicas (ss_Spec ss)) > sint (ss_Replicas (ss_Spec old))"
proof -
  have rep: "storageReplicas (w_cr s) = um_ChunkNumber (um_Spec (w_cr s)) * 2"
    by (simp add: storageReplicas_def int32_shards)
  show ?thesis
    using assms
    by (auto simp: storage_scale_out_def bindE_def get_cr_def updateStorageStatefulSet_run rep Let_def
        updateStatefulSet_run int_of_i32_def new_events_def split: if_splits sum.splits)
qed

text \<open>
  C5: Creating the storage objects never makes the StatefulSet smaller: if it writes one, that is
  an object the API server returned in this run, with nothing but its number of replicas
  changed, to a larger one.
\<close>

theorem createStorage_update:
  assumes "createStorage \<E> s = (r, t)" and "EvUpdateStatefulSet ss x \<in> set (new_events s t)"
  shows "\<exists>old n. sts_seen old (new_events s t) \<and> ss = withReplicas old n \<and>
    sint n > sint (ss_Replicas (ss_Spec old))"
proof -
  have e1: "emits (\<lambda>e. \<not> is_update e) (storage_objects \<E>)"
    by (intro emits_intros) (simp_all add: is_update_def)
  obtain q u where q: "storage_objects \<E> s = (q, u)" by fastforce
  have n1: "w_trace u = w_trace s @ new_events s u" using emits_trace_mono [OF e1 q] .
  have no: "EvUpdateStatefulSet ss x \<notin> set (new_events s u)"
    using emits_new_events [OF e1 q] by fastforce
  show ?thesis
  proof (cases q)
    case (Inl e)
    then have "t = u" using assms(1) q by (simp add: createStorage_split bindE_def)
    then show ?thesis using assms(2) no by simp
  next
    case (Inr p)
    obtain old sv where p: "p = (old, sv)" by (cases p)
    have run: "storage_scale_out \<E> old sv u = (r, t)"
      using assms(1) q Inr p by (simp add: createStorage_split bindE_def)
    have e2: "emits (\<lambda>_. True) (storage_scale_out \<E> old sv)" by (intro emits_intros TrueI)
    have new: "new_events s t = new_events s u @ new_events u t"
      using new_events_trans [OF n1 emits_trace_mono [OF e2 run]] .
    then have "EvUpdateStatefulSet ss x \<in> set (new_events u t)" using assms(2) no by auto
    from scale_out_update [OF run this] storage_objects_seen [of \<E> s old sv u] show ?thesis
      using q Inr p new
      by (intro exI [of _ old] exI [of _ "um_ChunkNumber (um_Spec (w_cr u)) * 2"]) auto
  qed
qed

subsection \<open>Readiness and proxies\<close>

text \<open>What the API server must have answered for the storage to count as ready and stable.\<close>

definition endpoints_seen :: "int \<Rightarrow> trace \<Rightarrow> bool" where
  "endpoints_seen n tr \<longleftrightarrow>
    (\<exists>name ns subsets. EvGetEndpoints name ns (Inr subsets) \<in> set tr \<and> int (length (concat subsets)) \<ge> n)"

lemma lasting_endpoints_seen: "lasting (endpoints_seen n)"
  by (auto simp: lasting_def endpoints_seen_def)

lemma getServiceEndpointsNum_seen:
  "getServiceEndpointsNum \<E> sv s = (Inr n, t) \<Longrightarrow> n \<noteq> 0 \<Longrightarrow> endpoints_seen n (w_trace t)"
  unfolding endpoints_seen_def
  by (cases "env_get_endpoints \<E> (w_trace s) (om_Name (sv_Meta sv)) (om_Namespace (sv_Meta sv))")
    (auto simp: getServiceEndpointsNum_def getEndpoints_def bindE_def tryE_def k8s_get_endpoints_def
      call_def of_api_def Let_def split: if_splits intro!: exI)

lemma getServiceEndpointsNum_cr: "getServiceEndpointsNum \<E> sv s = (r, t) \<Longrightarrow> w_cr t = w_cr s"
  by (auto simp: getServiceEndpointsNum_def getEndpoints_def bindE_def tryE_def k8s_get_endpoints_def
      call_def Let_def split: sum.splits if_splits prod.splits)

lemma storageAllReady_true:
  assumes "storageAllReady \<E> sv s = (Inr True, t)"
  shows "w_cr t = w_cr s \<and> (sint (storageReplicas (w_cr s)) > 0 \<longrightarrow>
    endpoints_seen (sint (storageReplicas (w_cr s))) (w_trace t))"
proof -
  obtain n where n: "getServiceEndpointsNum \<E> sv s = (Inr n, t)" "n \<ge> sint (storageReplicas (w_cr t))"
    using assms by (auto simp: storageAllReady_def bindE_eq_Inr get_cr_def int_of_i32_def)
  have cr: "w_cr t = w_cr s" using getServiceEndpointsNum_cr [OF n(1)] .
  have "endpoints_seen (sint (storageReplicas (w_cr s))) (w_trace t)" if "sint (storageReplicas (w_cr s)) > 0"
  proof -
    have "n \<noteq> 0" using n(2) cr that by auto
    then have "endpoints_seen n (w_trace t)" using getServiceEndpointsNum_seen [OF n(1)] by blast
    then show ?thesis using n(2) cr by (fastforce simp: endpoints_seen_def)
  qed
  then show ?thesis using cr by blast
qed

text \<open>No pod of the StatefulSet is being added or removed.\<close>

definition stable_sts :: "statefulSet \<Rightarrow> bool" where
  "stable_sts ss \<longleftrightarrow> st_CurrentReplicas (ss_Status ss) = ss_Replicas (ss_Spec ss) \<and>
    st_Replicas (ss_Status ss) = ss_Replicas (ss_Spec ss)"

lemma storageAllReadyAndStable_true:
  "storageAllReadyAndStable \<E> sv ss s = (Inr True, t) \<longleftrightarrow>
    storageAllReady \<E> sv s = (Inr True, t) \<and> stable_sts ss"
  by (auto simp: storageAllReadyAndStable_def bindE_eq_Inr stable_sts_def Let_def)

text \<open>
  The pod with index \<open>i\<close> of the storage StatefulSet is registered with the brokers under index
  \<open>i\<close> and under its own address.
\<close>

theorem serverProxyOf_pod:
  assumes "int i < 2 ^ 63" and "ea_Hostname ep = storageStatefulSetPodName (um_Name cr) i"
  shows "sp_Index (serverProxyOf cr ep) = int i \<and>
    sp_ProxyAddress (serverProxyOf cr ep) = genStorageAddressFromName (ea_Hostname ep) cr"
  using assms
  by (simp add: serverProxyOf_def storageStatefulSetPodName_def after_last_append parseInt64_show_nat
      newServerProxyMeta_def genStorageAddressFromName_def Let_def)

subsection \<open>Properties\<close>

text \<open>
  C2: Over any number of passes and re-reads of the resource, also stale ones, the scale-down
  code writes the StatefulSet only after two clock readings at least 30 seconds apart, less the
  precision \<open>g\<close> with which the API server keeps times, provided the resource does not wait
  when it starts.
\<close>

theorem scale_down_waits:
  assumes "scaling_run \<E> s t" and "w_trace s = []"
    and "us_ScaleState (um_Status (w_cr s)) \<noteq> scaleStateScaleDownWait"
    and "stores_status \<E> g" and "0 \<le> g"
  shows "guarded is_update (waited g) (w_trace t)"
proof -
  have "scaling_inv g s" using assms(2,3) by (simp add: scaling_inv_def backed_def)
  from scaling_run_inv [OF assms(1) this assms(4,5)] show ?thesis by (simp add: scaling_inv_def)
qed

text \<open>
  C3: One call of the scale-down code writes the StatefulSet only if exactly the wanted number of
  nodes hold slots, the size differs, and the resource has waited 30 seconds by the clock read in
  this call; and it writes only the new size.
\<close>

theorem scale_down_condition:
  assumes "scaleDownStorageStatefulSet \<E> storage info s = (r, t)"
    and "EvUpdateStatefulSet ss x \<in> set (new_events s t)"
  shows "ci_NodeNumberWithSlots info = int_of_u32 (um_ChunkNumber (um_Spec (w_cr s))) * chunkNodeNumber \<and>
    ss_Replicas (ss_Spec storage) \<noteq> storageReplicas (w_cr s) \<and>
    us_ScaleState (um_Status (w_cr s)) = scaleStateScaleDownWait \<and>
    (\<exists>now. hd (new_events s t) = EvNow now \<and>
      us_ScaleDownWaitTimestamp (um_Status (w_cr s)) + scaleDownWaitTime \<le> now) \<and>
    ss = withReplicas storage (storageReplicas (w_cr s))"
  using scaleDown_update [OF assms] decision_Resize [of \<E> storage info s] by auto

text \<open>
  An API server that accepts every write of the status and of the StatefulSet.
\<close>

definition accepting :: "env \<Rightarrow> bool" where
  "accepting \<E> \<longleftrightarrow>
    (\<forall>tr cr. \<exists>cr'. env_update_status \<E> tr cr = Inr cr' \<and> um_Spec cr' = um_Spec cr \<and> um_Status cr' = um_Status cr) \<and>
    (\<forall>tr ss. \<exists>ss'. env_update_statefulset \<E> tr ss = Inr ss' \<and> ss_Spec ss' = ss_Spec ss)"

lemma setScaleState_accepted:
  assumes "accepting \<E>"
  shows "\<exists>t. setScaleState \<E> scaleStateScaleDownWait s = (Inr (), t) \<and> um_Spec (w_cr t) = um_Spec (w_cr s) \<and>
      us_ScaleState (um_Status (w_cr t)) = scaleStateScaleDownWait \<and>
      us_ScaleDownWaitTimestamp (um_Status (w_cr t)) = env_now \<E> (w_trace s)"
    and "\<exists>t. setScaleState \<E> scaleStateStable s = (Inr (), t) \<and> um_Spec (w_cr t) = um_Spec (w_cr s) \<and>
      us_ScaleState (um_Status (w_cr t)) = scaleStateStable"
proof -
  let ?w = "(w_cr s)\<lparr>um_Status := (um_Status (w_cr s))\<lparr>us_ScaleState := scaleStateScaleDownWait,
    us_ScaleDownWaitTimestamp := env_now \<E> (w_trace s)\<rparr>\<rparr>"
  let ?z = "(w_cr s)\<lparr>um_Status := (um_Status (w_cr s))\<lparr>us_ScaleState := scaleStateStable,
    us_ScaleDownWaitTimestamp := 0\<rparr>\<rparr>"
  obtain c1 where c1: "env_update_status \<E> (w_trace s @ [EvNow (env_now \<E> (w_trace s))]) ?w = Inr c1"
    "um_Spec c1 = um_Spec ?w" "um_Status c1 = um_Status ?w"
    using assms unfolding accepting_def by metis
  obtain c2 where c2: "env_update_status \<E> (w_trace s) ?z = Inr c2" "um_Spec c2 = um_Spec ?z" "um_Status c2 = um_Status ?z"
    using assms unfolding accepting_def by metis
  show "\<exists>t. setScaleState \<E> scaleStateScaleDownWait s = (Inr (), t) \<and> um_Spec (w_cr t) = um_Spec (w_cr s) \<and>
      us_ScaleState (um_Status (w_cr t)) = scaleStateScaleDownWait \<and>
      us_ScaleDownWaitTimestamp (um_Status (w_cr t)) = env_now \<E> (w_trace s)"
    using c1 by (simp add: setScaleState_wait Let_def)
  show "\<exists>t. setScaleState \<E> scaleStateStable s = (Inr (), t) \<and> um_Spec (w_cr t) = um_Spec (w_cr s) \<and>
      us_ScaleState (um_Status (w_cr t)) = scaleStateStable"
    using c2 by (simp add: setScaleState_stable Let_def)
qed


subsection \<open>The properties at concrete inputs\<close>

definition sample_storage :: "i32 \<Rightarrow> statefulSet" where
  "sample_storage n =
    \<lparr>ss_Meta = with_version (new_meta ''um-stg-ss'' ''default'' []),
     ss_Spec = (ss_Spec (fst (createStorageStatefulSet sample_cr)))\<lparr>ss_Replicas := n\<rparr>,
     ss_Status = \<lparr>st_Replicas = n, st_ReadyReplicas = n, st_CurrentReplicas = n\<rparr>\<rparr>"

definition sample_info :: clusterInfo where
  "sample_info = \<lparr>ci_Name = ''mycluster'', ci_NodeNumber = 8, ci_NodeNumberWithSlots = 8,
     ci_IsMigrating = False\<rparr>"

text \<open>A clock that has advanced by a minute after the first call.\<close>

definition clock_env :: env where
  "clock_env = sample_env\<lparr>env_now := (\<lambda>tr. if tr = [] then 0 else 60000000000)\<rparr>"

definition first_pass :: world where
  "first_pass = snd (scaleDownStorageStatefulSet clock_env (sample_storage 6) sample_info sample_world)"

definition second_pass :: world where
  "second_pass = snd (scaleDownStorageStatefulSet clock_env (sample_storage 6) sample_info first_pass)"

lemma storageReplicas_sample: "um_Spec cr = sample_spec \<Longrightarrow> storageReplicas cr = 4"
  by (simp add: storageReplicas_def sample_spec_def int32_of_int_def int_of_u32_def chunkShardNumber_def)

lemma sample_storage_simps [simp]:
  "ss_Replicas (ss_Spec (sample_storage n)) = n" "om_ResourceVersion (ss_Meta (sample_storage n)) = ''1''"
  by (simp_all add: sample_storage_def with_version_def)

definition waiting_cr :: undermoon where
  "waiting_cr = sample_cr\<lparr>um_Status := (um_Status sample_cr)\<lparr>us_ScaleState := scaleStateScaleDownWait,
    us_ScaleDownWaitTimestamp := 0\<rparr>\<rparr>"

lemma first_pass_run:
  "scaleDownStorageStatefulSet clock_env (sample_storage 6) sample_info sample_world =
    (Inl ErrRetryReconciliation,
     \<lparr>w_trace = [EvNow 0, EvUpdateStatus waiting_cr (Inr waiting_cr)], w_cr = waiting_cr\<rparr>)"
proof -
  have "decision_of clock_env (sample_storage 6) sample_info sample_world = StartWaiting"
    by (simp add: decision_of_def phase_of_def storageReplicas_sample sample_world_def sample_cr_def
        sample_spec_def sample_info_def scaleStateScaleDownWait_def int_of_u32_def chunkNodeNumber_def
        storageReplicas_def int32_of_int_def chunkShardNumber_def)
  then show ?thesis
    by (simp add: scaleDown_run bindE_def setScaleState_wait clock_env_def sample_env_def sample_world_def
        waiting_cr_def Let_def)
qed

lemma second_pass_run:
  "\<exists>new. w_trace second_pass = w_trace first_pass @ new \<and>
     EvUpdateStatefulSet (withReplicas (sample_storage 6) 4) (Inr (withReplicas (sample_storage 6) 4)) \<in> set new"
proof -
  have fp: "first_pass = \<lparr>w_trace = [EvNow 0, EvUpdateStatus waiting_cr (Inr waiting_cr)], w_cr = waiting_cr\<rparr>"
    by (simp add: first_pass_def first_pass_run)
  have rep: "storageReplicas waiting_cr = 4" by (simp add: storageReplicas_sample waiting_cr_def sample_cr_def)
  have "decision_of clock_env (sample_storage 6) sample_info first_pass = Resize"
    by (simp add: decision_Resize fp rep)
      (simp add: waiting_cr_def sample_cr_def sample_spec_def sample_info_def clock_env_def
        int_of_u32_def chunkNodeNumber_def scaleDownWaitTime_def)
  then show ?thesis
    by (simp add: second_pass_def scaleDown_run bindE_def updateStorageStatefulSet_run updateStatefulSet_run
        setScaleState_stable clock_read_def fp rep clock_env_def sample_env_def Let_def)
qed

theorem scale_down_waits_witness:
  "guarded is_update (waited 0) (w_trace second_pass) \<and> (\<exists>e \<in> set (w_trace second_pass). is_update e)"
proof -
  have "scaling_run clock_env sample_world first_pass"
    unfolding first_pass_def
    by (rule scaling_run.pass [OF scaling_run.start prod.collapse [symmetric]])
  then have "scaling_run clock_env sample_world second_pass"
    unfolding second_pass_def by (rule scaling_run.pass [OF _ prod.collapse [symmetric]])
  then have "guarded is_update (waited 0) (w_trace second_pass)"
    by (rule scale_down_waits)
      (simp_all add: sample_world_def sample_cr_def scaleStateScaleDownWait_def stores_status_def
        clock_env_def sample_env_def)
  then show ?thesis using second_pass_run by (metis Un_iff is_update_simps(3) set_append)
qed

theorem scale_down_condition_witness:
  "us_ScaleState (um_Status (w_cr first_pass)) = scaleStateScaleDownWait"
proof -
  obtain r t where run: "scaleDownStorageStatefulSet clock_env (sample_storage 6) sample_info first_pass = (r, t)"
    by fastforce
  then have "t = second_pass" by (simp add: second_pass_def)
  then have "EvUpdateStatefulSet (withReplicas (sample_storage 6) 4) (Inr (withReplicas (sample_storage 6) 4))
      \<in> set (new_events first_pass t)"
    using second_pass_run by (auto simp: new_events_def)
  from scale_down_condition [OF run this] show ?thesis by blast
qed


theorem serverProxyOf_pod_witness:
  "sp_Index (serverProxyOf sample_cr \<lparr>ea_Hostname = storageStatefulSetPodName ''um'' 3, ea_IP = []\<rparr>) = 3 \<and>
    sp_ProxyAddress (serverProxyOf sample_cr \<lparr>ea_Hostname = storageStatefulSetPodName ''um'' 3, ea_IP = []\<rparr>) =
      genStorageAddressFromName (storageStatefulSetPodName ''um'' 3) sample_cr"
  using serverProxyOf_pod [of 3 "\<lparr>ea_Hostname = storageStatefulSetPodName ''um'' 3, ea_IP = []\<rparr>" sample_cr]
  by (simp add: sample_cr_def)

text \<open>An API server that holds a StatefulSet of two pods, where four are asked for.\<close>

definition small_env :: env where
  "small_env = sample_env\<lparr>env_get_statefulset := (\<lambda>tr n ns. Inr (sample_storage 2))\<rparr>"

definition grown :: world where
  "grown = snd (createStorage small_env sample_world)"

lemma grown_update:
  "EvUpdateStatefulSet (withReplicas (sample_storage 2) 4) (Inr (withReplicas (sample_storage 2) 4))
    \<in> set (new_events sample_world grown)"
proof -
  have rep: "storageReplicas cr = um_ChunkNumber (um_Spec cr) * 2" for cr
    by (simp add: storageReplicas_def int32_shards)
  show ?thesis
    by (simp add: grown_def createStorage_def guard_defs eval_nat_numeral getOrCreateStorageService_def
        getOrCreateService_def getOrCreateStorageStatefulSet_def ensureStatefulSet_def
        getOrCreateStatefulSet_def getOrCreate_def setOwner_def bindE_def tryE_def call_defs call_def
        of_api_def of_text_def get_cr_def put_cr_def Let_def small_env_def sample_env_def IsNotFound_def
        updateStorageStatefulSet_run updateStatefulSet_run new_events_def sample_world_def rep
        createStorageStatefulSet_def addAntiAffinity_def sample_cr_def sample_spec_def int_of_i32_def)
qed

theorem createStorage_update_witness:
  "\<exists>old n. sts_seen old (new_events sample_world grown) \<and>
    withReplicas (sample_storage 2) 4 = withReplicas old n \<and> sint n > sint (ss_Replicas (ss_Spec old))"
proof -
  have "createStorage small_env sample_world = (fst (createStorage small_env sample_world), grown)"
    by (simp add: grown_def)
  from createStorage_update [OF this grown_update] show ?thesis .
qed

end
