(* ===== verification/Reconciler.thy ===== *)
theory Reconciler
  imports Coordinator_Controller Storage_Controller Meta_Controller
begin

section \<open>The reconciliation (controllers/undermoon_controller.go)\<close>

text \<open>
  One pass over a custom resource: create what is missing, wait for brokers and coordinators,
  choose the master, bring the brokers' metadata in line, scale, and roll out changes one
  component at a time. A pass ends with a result for the work queue or with an error, after
  which the queue tries again with a back-off.
\<close>

record ctrlResult =
  res_Requeue :: bool
  res_RequeueAfter :: int     \<comment> \<open>nanoseconds\<close>

definition done_result :: ctrlResult where
  "done_result = \<lparr>res_Requeue = False, res_RequeueAfter = 0\<rparr>"

definition requeueAfter :: "int \<Rightarrow> ctrlResult op" where
  "requeueAfter seconds = returnE \<lparr>res_Requeue = True, res_RequeueAfter = seconds * 1000000000\<rparr>"

text \<open>
  \<open>if err == errRetryReconciliation { return Result{Requeue, RequeueAfter}, nil }; return err\<close>
\<close>

definition orRequeue :: "int \<Rightarrow> 'a op \<Rightarrow> ('a \<Rightarrow> ctrlResult op) \<Rightarrow> ctrlResult op" where
  "orRequeue seconds m f = tryE m (\<lambda>r. case r of
      Inl e \<Rightarrow> if e = ErrRetryReconciliation then requeueAfter seconds else throwE e
    | Inr x \<Rightarrow> f x)"

record umResource =
  ur_brokerStatefulSet :: statefulSet
  ur_coordinatorStatefulSet :: statefulSet
  ur_storageStatefulSet :: statefulSet
  ur_brokerService :: service
  ur_coordinatorService :: service
  ur_storageService :: service

definition createResources :: "env \<Rightarrow> umResource op" where
  "createResources \<E> =
    bindE (createMeta \<E>) (\<lambda>_.
    bindE (createBroker \<E>) (\<lambda>(brokerStatefulSet, brokerService).
    bindE (createCoordinator \<E>) (\<lambda>(coordinatorStatefulSet, coordinatorService).
    bindE (createStorage \<E>) (\<lambda>(storageStatefulSet, storageService).
    returnE \<lparr>ur_brokerStatefulSet = brokerStatefulSet,
      ur_coordinatorStatefulSet = coordinatorStatefulSet, ur_storageStatefulSet = storageStatefulSet,
      ur_brokerService = brokerService, ur_coordinatorService = coordinatorService,
      ur_storageService = storageService\<rparr>))))"

definition brokerAndCoordinatorReady :: "env \<Rightarrow> umResource \<Rightarrow> bool op" where
  "brokerAndCoordinatorReady \<E> resource =
    bindE (brokerReady \<E> (ur_brokerStatefulSet resource) (ur_brokerService resource)) (\<lambda>ready.
      if \<not> ready then returnE False
      else bindE (coordinatorReady \<E> (ur_coordinatorStatefulSet resource)
                    (ur_coordinatorService resource)) (\<lambda>ready.
        if \<not> ready then returnE False else returnE True))"

text \<open>
  The three parts of \<open>triggerRollingUpdate\<close>, last one first: each compares, rolls out and
  forces a retry, or checks that the component is ready and goes on to the next.
\<close>

definition rollStorage :: "env \<Rightarrow> umResource \<Rightarrow> unit op" where
  "rollStorage \<E> resource =
    bindE (storage_needRollingUpdate \<E> (ur_storageStatefulSet resource)) (\<lambda>need.
    if need
    then bindE (storage_triggerStatefulSetRollingUpdate \<E> (ur_storageStatefulSet resource)
                 (ur_storageService resource)) (\<lambda>_. throwE ErrRetryReconciliation)
    else
    bindE (storageAllReadyAndStable \<E> (ur_storageService resource)
            (ur_storageStatefulSet resource)) (\<lambda>ready.
    if \<not> ready then throwE ErrRetryReconciliation else returnE ()))"

definition rollCoordinator :: "env \<Rightarrow> umResource \<Rightarrow> unit op" where
  "rollCoordinator \<E> resource =
    bindE (coordinator_needRollingUpdate \<E> (ur_coordinatorStatefulSet resource)) (\<lambda>need.
    if need
    then bindE (coordinator_triggerStatefulSetRollingUpdate \<E> (ur_coordinatorStatefulSet resource)
                 (ur_coordinatorService resource)) (\<lambda>_. throwE ErrRetryReconciliation)
    else
    bindE (coordiantorAllReady \<E> (ur_coordinatorStatefulSet resource)
            (ur_coordinatorService resource)) (\<lambda>ready.
    if \<not> ready then throwE ErrRetryReconciliation else rollStorage \<E> resource))"

definition triggerRollingUpdate :: "env \<Rightarrow> umResource \<Rightarrow> unit op" where
  "triggerRollingUpdate \<E> resource =
    bindE (broker_needRollingUpdate \<E> (ur_brokerStatefulSet resource)) (\<lambda>need.
    if need
    then bindE (broker_triggerStatefulSetRollingUpdate \<E> (ur_brokerStatefulSet resource)
                 (ur_brokerService resource)) (\<lambda>_. throwE ErrRetryReconciliation)
    else
    bindE (brokerAllReady \<E> (ur_brokerStatefulSet resource) (ur_brokerService resource)) (\<lambda>ready.
    if \<not> ready then throwE ErrRetryReconciliation else rollCoordinator \<E> resource))"

text \<open>
  The second half of a pass, from the check for terminating pods on. The proxies found before
  the scaling are ignored in the second round over the metadata.
\<close>

definition reconcileScale ::
  "env \<Rightarrow> string \<Rightarrow> umResource \<Rightarrow> string \<Rightarrow> string list \<Rightarrow> bool \<Rightarrow> clusterInfo \<Rightarrow> ctrlResult op" where
  "reconcileScale \<E> v resource master replicaAddresses storageReady info =
    bindE (storageAllReadyAndStable \<E> (ur_storageService resource)
            (ur_storageStatefulSet resource)) (\<lambda>stable.
    if \<not> stable then requeueAfter 10
    else
    orRequeue 3 (changeMeta \<E> v master info) (\<lambda>_.
    orRequeue 3 (reconcileMeta \<E> v master replicaAddresses [] storageReady) (\<lambda>info.
    orRequeue 10 (scaleDownStorageStatefulSet \<E> (ur_storageStatefulSet resource) info) (\<lambda>storage.
    orRequeue 5 (triggerRollingUpdate \<E> (resource\<lparr>ur_storageStatefulSet := storage\<rparr>)) (\<lambda>_.
    returnE done_result)))))"

definition reconcileInstance :: "env \<Rightarrow> string \<Rightarrow> ctrlResult op" where
  "reconcileInstance \<E> v =
    orRequeue 3 (createResources \<E>) (\<lambda>resource.
    bindE (brokerAndCoordinatorReady \<E> resource) (\<lambda>ready.
    if \<not> ready then requeueAfter 3
    else
    orRequeue 3 (reconcileMaster \<E> v (ur_brokerService resource)) (\<lambda>(master, replicaAddresses).
    bindE (configSetBroker \<E> (ur_coordinatorService resource) master) (\<lambda>_.
    bindE (getServerProxies \<E> (ur_storageService resource)) (\<lambda>proxies.
    bindE (storageAllReady \<E> (ur_storageService resource)) (\<lambda>storageReady.
    orRequeue 3 (reconcileMeta \<E> v master replicaAddresses proxies storageReady) (\<lambda>info.
    reconcileScale \<E> v resource master replicaAddresses storageReady info)))))))"

definition Reconcile :: "env \<Rightarrow> string \<Rightarrow> string \<Rightarrow> string \<Rightarrow> ctrlResult op" where
  "Reconcile \<E> v name namespace =
    tryE (k8s_get_cr \<E> name namespace) (\<lambda>r. case r of
        Inl e \<Rightarrow> if IsNotFound e then returnE done_result else throwE e
      | Inr instance1 \<Rightarrow> bindE (put_cr instance1) (\<lambda>_. reconcileInstance \<E> v))"

subsection \<open>Events of the parts\<close>

lemma emits_requeueAfter [emits_intros]: "emits P (requeueAfter n)"
  unfolding requeueAfter_def by (intro emits_intros)

lemma emits_orRequeue [emits_intros]:
  "emits P m \<Longrightarrow> (\<And>x. emits P (f x)) \<Longrightarrow> emits P (orRequeue n m f)"
  unfolding orRequeue_def by (intro emits_intros)

lemma emits_broker_ready [emits_intros]:
  assumes "\<And>n ns r. P (EvGetEndpoints n ns r)"
  shows "emits P (brokerReady \<E> ss sv)" and "emits P (brokerAllReady \<E> ss sv)"
    and "emits P (coordinatorReady \<E> ss sv)" and "emits P (coordiantorAllReady \<E> ss sv)"
  unfolding brokerReady_def brokerAllReady_def coordinatorReady_def coordiantorAllReady_def
  by (intro emits_intros assms)+

lemma emits_needRollingUpdate [emits_intros]:
  "emits P (broker_needRollingUpdate \<E> ss)" "emits P (coordinator_needRollingUpdate \<E> ss)"
  "emits P (storage_needRollingUpdate \<E> ss)"
  unfolding broker_needRollingUpdate_def coordinator_needRollingUpdate_def storage_needRollingUpdate_def
  by (intro emits_intros)+

lemmas trigger_defs = broker_triggerStatefulSetRollingUpdate_def coordinator_triggerStatefulSetRollingUpdate_def
  storage_triggerStatefulSetRollingUpdate_def broker_updateStatefulSetHelper_def
  coordinator_updateStatefulSetHelper_def storage_updateStatefulSetHelper_def

lemma emits_triggers [emits_intros]:
  assumes "\<And>n ns r. P (EvGetEndpoints n ns r)" and "\<And>ss r. P (EvUpdateStatefulSet ss r)"
  shows "emits P (broker_triggerStatefulSetRollingUpdate \<E> ss sv)"
    and "emits P (coordinator_triggerStatefulSetRollingUpdate \<E> ss sv)"
    and "emits P (storage_triggerStatefulSetRollingUpdate \<E> ss sv)"
  unfolding trigger_defs by (intro emits_intros assms)+

lemma emits_brokerAndCoordinatorReady [emits_intros]:
  "(\<And>n ns r. P (EvGetEndpoints n ns r)) \<Longrightarrow> emits P (brokerAndCoordinatorReady \<E> resource)"
  unfolding brokerAndCoordinatorReady_def by (intro emits_intros)

lemma emits_triggerRollingUpdate [emits_intros]:
  "(\<And>n ns r. P (EvGetEndpoints n ns r)) \<Longrightarrow> (\<And>ss r. P (EvUpdateStatefulSet ss r)) \<Longrightarrow>
    emits P (triggerRollingUpdate \<E> resource)"
  unfolding triggerRollingUpdate_def rollCoordinator_def rollStorage_def by (intro emits_intros)

lemma emits_createBroker [emits_intros]:
  "(\<And>n ns r. P (EvGetService n ns r)) \<Longrightarrow> (\<And>sv r. P (EvCreateService sv r)) \<Longrightarrow>
    (\<And>n ns r. P (EvGetStatefulSet n ns r)) \<Longrightarrow> (\<And>ss r. P (EvCreateStatefulSet ss r)) \<Longrightarrow>
    emits P (createBroker \<E>)"
  unfolding createBroker_def getOrCreateBrokerService_def getOrCreateBrokerStatefulSet_def
  by (intro emits_intros)

lemma emits_createCoordinator [emits_intros]:
  "(\<And>n ns r. P (EvGetService n ns r)) \<Longrightarrow> (\<And>sv r. P (EvCreateService sv r)) \<Longrightarrow>
    (\<And>n ns r. P (EvGetStatefulSet n ns r)) \<Longrightarrow> (\<And>ss r. P (EvCreateStatefulSet ss r)) \<Longrightarrow>
    emits P (createCoordinator \<E>)"
  unfolding createCoordinator_def getOrCreateCoordinatorService_def getOrCreateCoordinatorStatefulSet_def
  by (intro emits_intros)

lemma emits_getCurrentMaster [emits_intros]:
  assumes "\<And>a r. P (EvHttp (request GET (apiUrl a v ''config'') NoBody) r)"
    and "\<And>a r. P (EvHttp (request GET (apiUrl a v ''epoch'') NoBody) r)"
  shows "emits P (getCurrentMaster \<E> v as)"
proof -
  have 1: "emits P (collectMasters \<E> v as acc)" for as acc
    by (induction as arbitrary: acc) (auto intro!: emits_intros assms simp: bc_getReplicaAddresses_def)
  have 2: "emits P (scanEpochs \<E> v as m b)" for as m b
    by (induction as arbitrary: m b) (auto intro!: emits_intros assms simp: bc_getEpoch_def)
  show ?thesis unfolding getCurrentMaster_def by (intro emits_intros 1 2)
qed

lemma emits_reconcileMaster [emits_intros]:
  "(\<And>n ns r. P (EvGetEndpoints n ns r)) \<Longrightarrow>
    (\<And>a r. P (EvHttp (request GET (apiUrl a v ''config'') NoBody) r)) \<Longrightarrow>
    (\<And>a r. P (EvHttp (request GET (apiUrl a v ''epoch'') NoBody) r)) \<Longrightarrow>
    (\<And>cr a r. P (EvPatchMaster cr a r)) \<Longrightarrow> emits P (reconcileMaster \<E> v sv)"
  unfolding reconcileMaster_def setMasterBrokerStatus_def by (intro emits_intros)

text \<open>The whole first part of a pass writes Kubernetes objects but sends no scaling request.\<close>

lemma createResources_idle: "emits (\<lambda>e. \<not> is_scale_request e) (createResources \<E>)"
  unfolding createResources_def by (intro emits_intros) simp_all

lemma createStorage_seen:
  assumes "createStorage \<E> s = (Inr (ss, sv), t)"
  shows "sts_seen ss (w_trace t)"
proof -
  obtain old sv' u where 1: "storage_objects \<E> s = (Inr (old, sv'), u)"
    and 2: "storage_scale_out \<E> old sv' u = (Inr (ss, sv), t)"
    using assms by (auto simp: createStorage_split bindE_eq_Inr)
  have "emits (\<lambda>_. True) (storage_objects \<E>)" by (intro emits_intros TrueI)
  from emits_trace_mono [OF this 1] storage_objects_seen [OF 1] have old: "sts_seen old (w_trace u)"
    by (metis sts_seen_append)
  show ?thesis
    using 2 old
    by (auto simp: storage_scale_out_def bindE_eq_Inr get_cr_def updateStorageStatefulSet_run
        updateStatefulSet_Inr split: if_splits) (auto simp: sts_seen_def)
qed

lemma createResources_seen:
  assumes "createResources \<E> s = (Inr resource, t)"
  shows "sts_seen (ur_storageStatefulSet resource) (w_trace t)"
  using assms createStorage_seen by (fastforce simp: createResources_def bindE_eq_Inr)

end
