(* ===== verification/Scale_Safety.thy ===== *)
theory Scale_Safety
  imports Reconciler
begin

section \<open>When a pass asks the brokers to scale\<close>

text \<open>
  A scaling request moves slots between nodes, so it must not be sent while pods are missing,
  still terminating, or while an earlier migration runs. This theory shows that in every pass
  each scaling request to \<open>n\<close> chunks comes after the evidence for that: a StatefulSet whose
  three pod counts agree, the endpoints of all pods of \<open>n\<close> chunks, and a cluster
  information that reports no migration.
\<close>

definition scale_request :: "int \<Rightarrow> event \<Rightarrow> bool" where
  "scale_request n e \<longleftrightarrow>
    (\<exists>v master name r. e = EvHttp (request POST (scaleNodesUrl v master name n) NoBody) r)"

definition idle_seen :: "trace \<Rightarrow> bool" where
  "idle_seen tr \<longleftrightarrow> (\<exists>rq res info. EvHttp rq (Inr res) \<in> set tr \<and>
     rs_result res = ClusterInfoPayload info \<and> \<not> ci_IsMigrating info)"

text \<open>The pods a cluster of \<open>n\<close> chunks needs, as the 32-bit number the code compares with.\<close>

definition pods_for :: "int \<Rightarrow> int" where
  "pods_for n = int_of_i32 (int32_of_int (n * chunkShardNumber))"

definition scale_evidence :: "int \<Rightarrow> trace \<Rightarrow> bool" where
  "scale_evidence n tr \<longleftrightarrow> (\<exists>ss. sts_seen ss tr \<and> stable_sts ss) \<and>
    (pods_for n > 0 \<longrightarrow> endpoints_seen (pods_for n) tr) \<and> idle_seen tr"

lemma lasting_scale_evidence: "lasting (scale_evidence n)"
  unfolding lasting_def scale_evidence_def
  by (auto simp: endpoints_seen_def idle_seen_def)

lemma scale_request_is: "scale_request n e \<Longrightarrow> is_scale_request e"
  unfolding scale_request_def is_scale_request_def by blast

lemma show_int_no_slash: "CHR ''/'' \<notin> set (show_int i)"
  by (simp add: show_int_def not_digit_show_nat digit_value.simps)

lemma show_int_inject: "i \<ge> 0 \<Longrightarrow> j \<ge> 0 \<Longrightarrow> show_int i = show_int j \<longleftrightarrow> i = j"
  by (auto simp: show_int_def)

lemma scaleNodesUrl_last: "after_last (CHR ''/'') (scaleNodesUrl v a name n) = show_int (n * chunkNodeNumber)"
proof -
  let ?pre = "''http://'' @ a @ ''/api/'' @ v @ ''/clusters/migrations/auto/'' @ name"
  have "scaleNodesUrl v a name n = ?pre @ CHR ''/'' # show_int (n * chunkNodeNumber)"
    by (simp add: scaleNodesUrl_def apiUrl_def)
  then show ?thesis by (simp only: after_last_append [OF show_int_no_slash])
qed

lemma scale_request_number:
  assumes "m \<ge> 0" and "n \<ge> 0"
  shows "scale_request n (EvHttp (request POST (scaleNodesUrl v a name m) NoBody) r) \<longleftrightarrow> n = m"
proof
  assume "scale_request n (EvHttp (request POST (scaleNodesUrl v a name m) NoBody) r)"
  then obtain v' a' name' where "scaleNodesUrl v a name m = scaleNodesUrl v' a' name' n"
    by (auto simp: scale_request_def request_def)
  then have "show_int (m * chunkNodeNumber) = show_int (n * chunkNodeNumber)"
    by (metis scaleNodesUrl_last)
  then show "n = m" using assms by (simp add: show_int_inject chunkNodeNumber_def)
qed (auto simp: scale_request_def)

lemma changeMeta_guarded:
  assumes "n \<ge> 0" and "guarded (scale_request n) (scale_evidence n) (w_trace s)"
    and "n = int_of_u32 (um_ChunkNumber (um_Spec (w_cr s))) \<Longrightarrow> \<not> ci_IsMigrating info \<Longrightarrow>
      scale_evidence n (w_trace s)"
    and run: "changeMeta \<E> v master info s = (r, t)"
  shows "guarded (scale_request n) (scale_evidence n) (w_trace t)"
proof (cases "ci_IsMigrating info")
  case True
  then show ?thesis using assms by (simp add: changeMeta_def)
next
  case False
  let ?m = "int_of_u32 (um_ChunkNumber (um_Spec (w_cr s)))"
  show ?thesis
  proof (cases "n = ?m")
    case True
    have "emits (\<lambda>_. True) (changeMeta \<E> v master info)"
      using changeMeta_http by (rule emits_weaken) simp
    from emits_trace_mono [OF this run] guarded_append_evidence [OF assms(2) _ lasting_scale_evidence]
    show ?thesis using assms(3) True False by metis
  next
    case no: False
    have m0: "?m \<ge> 0" by (simp add: int_of_u32_def)
    define step where "step = (\<lambda>cr :: undermoon. let chunkNumber = ?m; clusterName = um_ClusterName (um_Spec cr) in
      tryE (bc_scaleNodes \<E> v master clusterName chunkNumber) (\<lambda>r. case r of
          Inr _ \<Rightarrow> removeFreeNodesStep \<E> v master clusterName False
        | Inl e \<Rightarrow>
            if e = ErrFreeNodeFound then removeFreeNodesStep \<E> v master clusterName True
            else if e = ErrMigrationRunning \<or> e = ErrProxyResourceOutOfOrder
            then throwE ErrRetryReconciliation
            else throwE e))"
    have node: "changeNodeNumber \<E> v master s = step (w_cr s) s"
      by (simp add: changeNodeNumber_def step_def get_cr_def bindE_def)
    have run': "tryE (step (w_cr s)) (\<lambda>r. case r of
         Inl e \<Rightarrow> if e = ErrMigrationRunning then throwE ErrRetryReconciliation else throwE e
       | Inr _ \<Rightarrow> returnE ()) s = (r, t)"
      using run False by (simp only: changeMeta_def tryE_def node if_False)
    have "emits (\<lambda>e. \<not> scale_request n e) (tryE (step (w_cr s)) (\<lambda>r. case r of
         Inl e \<Rightarrow> if e = ErrMigrationRunning then throwE ErrRetryReconciliation else throwE e
       | Inr _ \<Rightarrow> returnE ()))"
      unfolding step_def removeFreeNodesStep_def bc_defs
      using scale_request_is no assms(1) m0
      by (intro emits_intros) (simp_all add: scale_request_number, auto simp: scale_request_def request_def)
    from emitsE [OF this run'] show ?thesis using guarded_append_idle [OF assms(2)] by metis
  qed
qed

lemma reconcileMeta_info:
  assumes "reconcileMeta \<E> v master rs ps b s = (Inr info, t)"
  shows "\<exists>rq res. EvHttp rq (Inr res) \<in> set (w_trace t) \<and> rs_result res = ClusterInfoPayload info"
proof -
  obtain u where u: "getClusterInfo \<E> v master u = (Inr info, t)"
    using assms by (auto simp: reconcileMeta_def bindE_eq_Inr split: if_splits)
  define rq where "rq = request GET
    (apiUrl master v (''clusters/info/'' @ um_ClusterName (um_Spec (w_cr u)))) NoBody"
  have "send \<E> rq decode_getClusterInfo u = (Inr info, t)"
    using u by (simp add: getClusterInfo_def bindE_def get_cr_def bc_getClusterInfo_def rq_def)
  from getClusterInfo.send_Inr [OF this] obtain res where
    "decode_getClusterInfo res = Inr info" "w_trace t = w_trace u @ [EvHttp rq (Inr res)]" by blast
  moreover from this(1) have "rs_result res = ClusterInfoPayload info"
    by (auto simp: decode_getClusterInfo_def statusBodyMsg_def
        split: if_splits payload.splits option.splits bool.splits)
  ultimately show ?thesis by auto
qed

definition scale_guard :: "int \<Rightarrow> trace \<Rightarrow> bool" where
  "scale_guard n = guarded (scale_request n) (scale_evidence n)"

definition pass_inv :: "int \<Rightarrow> statefulSet \<Rightarrow> world \<Rightarrow> bool" where
  "pass_inv n ss w \<longleftrightarrow> scale_guard n (w_trace w) \<and> sts_seen ss (w_trace w)"

lemma orRequeue_run:
  "m s = (p, w) \<Longrightarrow> orRequeue n m f s =
    (case p of Inl e \<Rightarrow> if e = ErrRetryReconciliation then requeueAfter n else throwE e | Inr x \<Rightarrow> f x) w"
  by (simp add: orRequeue_def tryE_def)

lemma triple_orRequeue:
  assumes "triple P m R" and "\<And>e s. R (Inl e) s \<Longrightarrow> Q s" and "\<And>x. triple (R (Inr x)) (f x) (\<lambda>_. Q)"
  shows "triple P (orRequeue n m f) (\<lambda>_. Q)"
  unfolding orRequeue_def
proof (rule triple_tryE [OF assms(1)])
  fix r show "triple (R r) (case r of Inl e \<Rightarrow> if e = ErrRetryReconciliation then requeueAfter n else throwE e
      | Inr x \<Rightarrow> f x) (\<lambda>_. Q)"
    using assms(2,3) by (cases r) (auto simp: triple_def requeueAfter_def)
qed

lemma scale_guard_idle:
  assumes "emits (\<lambda>e. \<not> is_scale_request e) m"
  shows "keeps (scale_guard n) m"
proof -
  have "emits (\<lambda>e. \<not> scale_request n e) m"
    using assms by (rule emits_weaken) (blast dest: scale_request_is)
  then show ?thesis unfolding scale_guard_def by (rule keeps_guarded_idle)
qed

lemma pass_inv_idle:
  assumes "emits (\<lambda>e. \<not> is_scale_request e) m"
  shows "triple (pass_inv n ss) m (\<lambda>_. pass_inv n ss)"
  unfolding pass_inv_def
  using scale_guard_idle [OF assms, of n]
    keeps_lasting [OF lasting_sts_seen emits_weaken [OF assms], of ss]
  by (auto simp: keeps_def intro: triple_conj)

lemma pass_inv_guard: "triple P m (\<lambda>_. pass_inv n ss) \<Longrightarrow> triple P m (\<lambda>_ w. scale_guard n (w_trace w))"
  by (auto simp: triple_def pass_inv_def)

lemma pass_bind:
  assumes "emits (\<lambda>e. \<not> is_scale_request e) m"
    and "\<And>x. triple (pass_inv n ss) (f x) (\<lambda>_ w. scale_guard n (w_trace w))"
  shows "triple (pass_inv n ss) (bindE m f) (\<lambda>_ w. scale_guard n (w_trace w))"
  by (rule triple_bindE [OF pass_inv_idle [OF assms(1)]]) (simp_all add: pass_inv_def assms(2))

lemma pass_orRequeue:
  assumes "emits (\<lambda>e. \<not> is_scale_request e) m"
    and "\<And>x. triple (pass_inv n ss) (f x) (\<lambda>_ w. scale_guard n (w_trace w))"
  shows "triple (pass_inv n ss) (orRequeue k m f) (\<lambda>_ w. scale_guard n (w_trace w))"
  by (rule triple_orRequeue [OF pass_inv_idle [OF assms(1)]]) (simp_all add: pass_inv_def assms(2))

text \<open>After the check for terminating pods the first action may be a scaling request.\<close>

lemma reconcileScale_guard:
  assumes "n \<ge> 0" and seen: "\<not> ci_IsMigrating info \<Longrightarrow> idle_seen (w_trace s)"
    and inv: "pass_inv n (ur_storageStatefulSet resource) s"
    and run: "reconcileScale \<E> v resource master rs b info s = (r, t)"
  shows "scale_guard n (w_trace t)"
proof -
  let ?ss = "ur_storageStatefulSet resource" and ?sv = "ur_storageService resource"
  let ?rest = "\<lambda>_. orRequeue 3 (reconcileMeta \<E> v master rs [] b) (\<lambda>info.
    orRequeue 10 (scaleDownStorageStatefulSet \<E> ?ss info) (\<lambda>storage.
    orRequeue 5 (triggerRollingUpdate \<E> (resource\<lparr>ur_storageStatefulSet := storage\<rparr>)) (\<lambda>_.
    returnE done_result)))"
  have rest: "keeps (scale_guard n) (?rest ())"
    by (intro scale_guard_idle emits_intros reconcileMeta_idle) simp_all
  obtain q u where q: "storageAllReadyAndStable \<E> ?sv ?ss s = (q, u)" by fastforce
  have idle: "emits (\<lambda>e. \<not> is_scale_request e) (storageAllReadyAndStable \<E> ?sv ?ss)"
    by (intro emits_intros) simp
  have gu: "scale_guard n (w_trace u)"
    using tripleD [OF pass_inv_idle [OF idle] inv q] by (simp add: pass_inv_def)
  show ?thesis
  proof (cases "q = Inr True")
    case False
    then show ?thesis
      using run q gu by (cases q) (auto simp: reconcileScale_def bindE_def requeueAfter_def)
  next
    case True
    then have ready: "storageAllReady \<E> ?sv s = (Inr True, u)" and stable: "stable_sts ?ss"
      using q by (auto simp: storageAllReadyAndStable_true)
    have ev: "scale_evidence n (w_trace u)"
      if "n = int_of_u32 (um_ChunkNumber (um_Spec (w_cr u)))" "\<not> ci_IsMigrating info"
    proof -
      have "pods_for n = sint (storageReplicas (w_cr s))"
        using that(1) storageAllReady_true [OF ready]
        by (simp add: pods_for_def storageReplicas_def int_of_i32_def)
      moreover have "idle_seen (w_trace u)"
        using seen [OF that(2)] by (subst emits_trace_mono [OF idle q]) (auto simp: idle_seen_def)
      moreover have "sts_seen ?ss (w_trace u)"
        using inv by (subst emits_trace_mono [OF idle q]) (simp add: pass_inv_def)
      ultimately show ?thesis
        using stable storageAllReady_true [OF ready] by (auto simp: scale_evidence_def)
    qed
    obtain p w where p: "changeMeta \<E> v master info u = (p, w)" by fastforce
    have gw: "scale_guard n (w_trace w)"
      using changeMeta_guarded [OF assms(1) gu [unfolded scale_guard_def] ev p] by (simp add: scale_guard_def)
    have "orRequeue 3 (changeMeta \<E> v master info) ?rest u = (r, t)"
      using run q True by (simp add: reconcileScale_def bindE_def)
    then have "(case p of Inl e \<Rightarrow> if e = ErrRetryReconciliation then requeueAfter 3 else throwE e
        | Inr _ \<Rightarrow> ?rest ()) w = (r, t)"
      unfolding orRequeue_run [of "changeMeta \<E> v master info", OF p] .
    then show ?thesis
      using gw rest by (cases p) (auto simp: requeueAfter_def keeps_def dest: tripleD split: if_splits)
  qed
qed

lemma reconcileInstance_guard:
  assumes "n \<ge> 0"
  shows "keeps (scale_guard n) (reconcileInstance \<E> v)"
  unfolding keeps_def reconcileInstance_def
proof (rule triple_orRequeue)
  show "triple (\<lambda>w. scale_guard n (w_trace w)) (createResources \<E>)
      (\<lambda>r w. scale_guard n (w_trace w) \<and>
        (\<forall>resource. r = Inr resource \<longrightarrow> pass_inv n (ur_storageStatefulSet resource) w))"
  proof (rule tripleI)
    fix s r t
    assume "scale_guard n (w_trace s)" and run: "createResources \<E> s = (r, t)"
    then have "scale_guard n (w_trace t)"
      using tripleD [OF scale_guard_idle [OF createResources_idle, unfolded keeps_def]] by blast
    then show "scale_guard n (w_trace t) \<and>
        (\<forall>resource. r = Inr resource \<longrightarrow> pass_inv n (ur_storageStatefulSet resource) t)"
      using run createResources_seen by (auto simp: pass_inv_def)
  qed
next
  fix resource :: umResource
  let ?J = "pass_inv n (ur_storageStatefulSet resource)" and ?G = "\<lambda>w. scale_guard n (w_trace w)"
  have G: "\<And>s. ?J s \<Longrightarrow> ?G s" by (simp add: pass_inv_def)
  have scale: "triple (\<lambda>w. ?J w \<and> (\<not> ci_IsMigrating info \<longrightarrow> idle_seen (w_trace w)))
      (reconcileScale \<E> v resource master rs b info) (\<lambda>_. ?G)" for master rs b info
    using reconcileScale_guard [OF assms] by (blast intro: tripleI)
  have meta: "triple ?J (reconcileMeta \<E> v master rs ps b) (\<lambda>r w. ?J w \<and>
      (\<forall>info. r = Inr info \<longrightarrow> \<not> ci_IsMigrating info \<longrightarrow> idle_seen (w_trace w)))" for master rs ps b
  proof (rule tripleI)
    fix s r t assume J: "?J s" and run: "reconcileMeta \<E> v master rs ps b s = (r, t)"
    have "?J t" using tripleD [OF pass_inv_idle [OF reconcileMeta_idle] J run] .
    then show "?J t \<and> (\<forall>info. r = Inr info \<longrightarrow> \<not> ci_IsMigrating info \<longrightarrow> idle_seen (w_trace t))"
      using run reconcileMeta_info by (fastforce simp: idle_seen_def)
  qed
  have tail: "triple ?J (orRequeue 3 (reconcileMeta \<E> v master rs ps b) (\<lambda>info.
      reconcileScale \<E> v resource master rs b info)) (\<lambda>_. ?G)" for master rs ps b
    by (rule triple_orRequeue [OF meta]) (auto simp: G intro: triple_conseq [OF scale])
  have body: "triple ?J
      (bindE (brokerAndCoordinatorReady \<E> resource) (\<lambda>ready.
      if \<not> ready then requeueAfter 3
      else orRequeue 3 (reconcileMaster \<E> v (ur_brokerService resource)) (\<lambda>(master, replicaAddresses).
        bindE (configSetBroker \<E> (ur_coordinatorService resource) master) (\<lambda>_.
        bindE (getServerProxies \<E> (ur_storageService resource)) (\<lambda>proxies.
        bindE (storageAllReady \<E> (ur_storageService resource)) (\<lambda>storageReady.
        orRequeue 3 (reconcileMeta \<E> v master replicaAddresses proxies storageReady) (\<lambda>info.
        reconcileScale \<E> v resource master replicaAddresses storageReady info))))))) (\<lambda>_. ?G)"
    (is "triple _ (bindE _ ?f) _")
  proof (rule pass_bind)
    show "emits (\<lambda>e. \<not> is_scale_request e) (brokerAndCoordinatorReady \<E> resource)"
      by (intro emits_intros) simp
  next
    fix ready
    have go: "triple ?J (bindE (configSetBroker \<E> (ur_coordinatorService resource) master) (\<lambda>_.
        bindE (getServerProxies \<E> (ur_storageService resource)) (\<lambda>proxies.
        bindE (storageAllReady \<E> (ur_storageService resource)) (\<lambda>storageReady.
        orRequeue 3 (reconcileMeta \<E> v master rs proxies storageReady) (\<lambda>info.
        reconcileScale \<E> v resource master rs storageReady info))))) (\<lambda>_. ?G)" for master rs
      by (intro pass_bind tail emits_intros) simp_all
    have "triple ?J (orRequeue 3 (reconcileMaster \<E> v (ur_brokerService resource)) (\<lambda>(master, rs).
        bindE (configSetBroker \<E> (ur_coordinatorService resource) master) (\<lambda>_.
        bindE (getServerProxies \<E> (ur_storageService resource)) (\<lambda>proxies.
        bindE (storageAllReady \<E> (ur_storageService resource)) (\<lambda>storageReady.
        orRequeue 3 (reconcileMeta \<E> v master rs proxies storageReady) (\<lambda>info.
        reconcileScale \<E> v resource master rs storageReady info)))))) (\<lambda>_. ?G)"
    proof (rule pass_orRequeue)
      show "emits (\<lambda>e. \<not> is_scale_request e) (reconcileMaster \<E> v (ur_brokerService resource))"
        by (intro emits_intros) simp_all
    qed (use go in \<open>simp split: prod.split\<close>)
    then show "triple ?J (?f ready) (\<lambda>_. ?G)" using G by (cases ready) (auto simp: requeueAfter_def triple_def)
  qed
  show "triple (\<lambda>w. ?G w \<and> (\<forall>resource'. Inr resource = Inr resource' \<longrightarrow>
        pass_inv n (ur_storageStatefulSet resource') w))
      (bindE (brokerAndCoordinatorReady \<E> resource) (\<lambda>ready.
      if \<not> ready then requeueAfter 3
      else orRequeue 3 (reconcileMaster \<E> v (ur_brokerService resource)) (\<lambda>(master, replicaAddresses).
        bindE (configSetBroker \<E> (ur_coordinatorService resource) master) (\<lambda>_.
        bindE (getServerProxies \<E> (ur_storageService resource)) (\<lambda>proxies.
        bindE (storageAllReady \<E> (ur_storageService resource)) (\<lambda>storageReady.
        orRequeue 3 (reconcileMeta \<E> v master replicaAddresses proxies storageReady) (\<lambda>info.
        reconcileScale \<E> v resource master replicaAddresses storageReady info))))))) (\<lambda>_. ?G)"
    by (rule triple_conseq [OF body]) auto
qed (simp)

subsection \<open>The property\<close>

lemma Reconcile_guard:
  assumes "n \<ge> 0"
  shows "keeps (scale_guard n) (Reconcile \<E> v name ns)"
proof -
  have get: "keeps (scale_guard n) (k8s_get_cr \<E> name ns)"
    by (intro scale_guard_idle emits_intros) simp
  have put: "\<And>cr. keeps (scale_guard n) (put_cr cr)" by (intro scale_guard_idle emits_intros)
  show ?thesis
    unfolding Reconcile_def by (intro keeps_intros get put reconcileInstance_guard assms)
qed



end
