(* ===== verification/Create_Once.thy ===== *)
theory Create_Once
  imports Reconciler
begin

section \<open>No object is created again\<close>

text \<open>
  Every pass looks up each object of a resource and creates the missing ones. That this does not go on for ever, and
  that no pass creates what an earlier one found, needs an API server that does not forget: an object that was found
  or created, and that nobody deletes, is not answered to be missing (\<open>durable\<close>). A client that reads from a
  stale cache does not satisfy that; then the API server refuses the second creation, which is what the guards are for.
\<close>

datatype object_key =
    ConfigMapKey string string
  | SecretKey string string
  | ServiceKey string string
  | StatefulSetKey string string

text \<open>The object a creation is for, and the object an event shows to exist.\<close>

fun creation :: "event \<Rightarrow> object_key option" where
  "creation (EvCreateConfigMap cm r) = Some (ConfigMapKey (om_Name (cm_Meta cm)) (om_Namespace (cm_Meta cm)))"
| "creation (EvCreateSecret sc r) = Some (SecretKey (om_Name (sc_Meta sc)) (om_Namespace (sc_Meta sc)))"
| "creation (EvCreateService sv r) = Some (ServiceKey (om_Name (sv_Meta sv)) (om_Namespace (sv_Meta sv)))"
| "creation (EvCreateStatefulSet ss r) = Some (StatefulSetKey (om_Name (ss_Meta ss)) (om_Namespace (ss_Meta ss)))"
| "creation _ = None"

fun shown_by :: "event \<Rightarrow> object_key option" where
  "shown_by (EvGetConfigMap n ns (Inr x1)) = Some (ConfigMapKey n ns)"
| "shown_by (EvGetSecret n ns (Inr x2)) = Some (SecretKey n ns)"
| "shown_by (EvGetService n ns (Inr x3)) = Some (ServiceKey n ns)"
| "shown_by (EvGetStatefulSet n ns (Inr x4)) = Some (StatefulSetKey n ns)"
| "shown_by (EvCreateConfigMap cm (Inr x5)) = creation (EvCreateConfigMap cm (Inr x5))"
| "shown_by (EvCreateSecret sc (Inr x6)) = creation (EvCreateSecret sc (Inr x6))"
| "shown_by (EvCreateService sv (Inr x7)) = creation (EvCreateService sv (Inr x7))"
| "shown_by (EvCreateStatefulSet ss (Inr x8)) = creation (EvCreateStatefulSet ss (Inr x8))"
| "shown_by _ = None"

definition shown :: "object_key \<Rightarrow> trace \<Rightarrow> bool" where
  "shown k tr \<longleftrightarrow> Some k \<in> shown_by ` set tr"

definition durable :: "env \<Rightarrow> bool" where
  "durable \<E> \<longleftrightarrow> (\<forall>tr n ns.
     (shown (ConfigMapKey n ns) tr \<longrightarrow> env_get_configmap \<E> tr n ns \<noteq> Inl NotFound) \<and>
     (shown (SecretKey n ns) tr \<longrightarrow> env_get_secret \<E> tr n ns \<noteq> Inl NotFound) \<and>
     (shown (ServiceKey n ns) tr \<longrightarrow> env_get_service \<E> tr n ns \<noteq> Inl NotFound) \<and>
     (shown (StatefulSetKey n ns) tr \<longrightarrow> env_get_statefulset \<E> tr n ns \<noteq> Inl NotFound))"

subsection \<open>One object\<close>

abbreviation once :: "object_key \<Rightarrow> trace \<Rightarrow> bool" where
  "once k \<equiv> guarded (\<lambda>e. creation e = Some k) (\<lambda>tr. \<not> shown k tr)"

lemma once_snoc: "once k (tr @ [e]) \<longleftrightarrow> once k tr \<and> (creation e = Some k \<longrightarrow> \<not> shown k tr)"
  by (auto simp: guarded_def nth_append less_Suc_eq)

lemma shown_snoc: "shown k (tr @ [e]) \<longleftrightarrow> shown k tr \<or> shown_by e = Some k"
  by (auto simp: shown_def)

lemma keeps_idle: "emits (\<lambda>e. creation e = None) m \<Longrightarrow> keeps (once k) m"
  by (rule keeps_guarded_idle) (erule emits_weaken, simp)

text \<open>A lookup that says the object is missing, and the creation that follows.\<close>

lemma keeps_lookup_create:
  assumes "\<And>r. creation (looked_up r) = None" and "\<And>e. shown_by (looked_up (Inl e)) = None"
    and "\<And>r. creation (created r) = Some k0" and "\<And>tr. answer tr = Inl NotFound \<Longrightarrow> \<not> shown k0 tr"
  shows "keeps (once k) (getOrCreate (call answer looked_up of_api) (call create created of_api))"
  unfolding keeps_def
proof (rule tripleI)
  fix s r t assume once: "once k (w_trace s)"
    and run: "getOrCreate (call answer looked_up of_api) (call create created of_api) s = (r, t)"
  have look: "once k (w_trace s @ [looked_up (answer (w_trace s))])" using once assms(1) by (simp add: once_snoc)
  show "once k (w_trace t)"
  proof (cases "answer (w_trace s) = Inl NotFound")
    case True
    then have "\<not> shown k0 (w_trace s @ [looked_up (answer (w_trace s))])" using assms(2,4) by (simp add: shown_snoc)
    then have "once k ((w_trace s @ [looked_up (answer (w_trace s))]) @ [created c])" for c
      using look assms(3) unfolding once_snoc [of k "w_trace s @ [looked_up (answer (w_trace s))]"] by auto
    then show ?thesis
      using run True by (auto simp: getOrCreate_def tryE_def call_def Let_def of_api_def IsNotFound_def)
  next
    case False
    then show ?thesis
      using run look by (cases "answer (w_trace s)") (auto simp: getOrCreate_def tryE_def call_def Let_def of_api_def IsNotFound_def)
  qed
qed

lemma keeps_getOrCreate [keeps_intros]:
  assumes "durable \<E>"
  shows "keeps (once k) (getOrCreate (k8s_get_configmap \<E> (om_Name m) (om_Namespace m)) (k8s_create_configmap \<E> (cm\<lparr>cm_Meta := m\<rparr>)))"
    and "keeps (once k) (getOrCreate (k8s_get_secret \<E> (om_Name m) (om_Namespace m)) (k8s_create_secret \<E> (sc\<lparr>sc_Meta := m\<rparr>)))"
    and "keeps (once k) (getOrCreate (k8s_get_service \<E> (om_Name m) (om_Namespace m)) (k8s_create_service \<E> (sv\<lparr>sv_Meta := m\<rparr>)))"
    and "keeps (once k) (getOrCreate (k8s_get_statefulset \<E> (om_Name m) (om_Namespace m)) (k8s_create_statefulset \<E> (ss\<lparr>ss_Meta := m\<rparr>)))"
  unfolding k8s_get_configmap_def k8s_create_configmap_def k8s_get_secret_def k8s_create_secret_def
    k8s_get_service_def k8s_create_service_def k8s_get_statefulset_def k8s_create_statefulset_def
  by (rule keeps_lookup_create; use assms in \<open>auto simp: durable_def\<close>)+

lemma keeps_pure [keeps_intros]: "keeps I (liftE r)" "keeps I get_cr" "keeps I (put_cr cr)"
  by (simp_all add: keeps_def triple_def get_cr_def put_cr_def)

lemma keeps_guard [keeps_intros]: "keeps I m \<Longrightarrow> keeps I (createGuardLoop n err m)"
  by (induction n arbitrary: err) (auto intro!: keeps_intros)

lemma keeps_password: "keeps (once k) (gen_password \<E>)"
  by (rule keeps_idle) (intro emits_intros, simp)

lemma keeps_update: "keeps (once k) (updateStorageStatefulSet \<E> ss)"
  by (rule keeps_idle) (intro emits_intros, simp)

lemma keeps_objects [keeps_intros]:
  assumes "durable \<E>"
  shows "keeps (once k) (getOrCreateConfigMap \<E>)" and "keeps (once k) (getOrCreateMetaSecret \<E>)"
    and "keeps (once k) (getOrCreateService \<E> cr sv)" and "keeps (once k) (ensureStatefulSet \<E> create)"
  unfolding getOrCreateConfigMap_def getOrCreateMetaSecret_def genBrokerPassword_def getOrCreateService_def
    ensureStatefulSet_def getOrCreateStatefulSet_def setOwner_def Let_def
  by (intro keeps_intros keeps_password assms)+

lemma keeps_createResources:
  assumes "durable \<E>"
  shows "keeps (once k) (createResources \<E>)"
  unfolding createResources_def createMeta_def createBroker_def createCoordinator_def createStorage_def guard_defs
    getOrCreateBrokerService_def getOrCreateBrokerStatefulSet_def getOrCreateCoordinatorService_def
    getOrCreateCoordinatorStatefulSet_def getOrCreateStorageService_def getOrCreateStorageStatefulSet_def
  by (intro keeps_intros keeps_update assms)+

subsection \<open>Passes\<close>

lemma keeps_orRequeue: "keeps I m \<Longrightarrow> (\<And>x. keeps I (f x)) \<Longrightarrow> keeps I (orRequeue n m f)"
  unfolding orRequeue_def requeueAfter_def by (intro keeps_intros)

lemma no_creation_meta: "emits (\<lambda>e. creation e = None) (reconcileMeta \<E> v m rs ps b)"
  "emits (\<lambda>e. creation e = None) (changeMeta \<E> v m info)"
  by (rule emits_weaken [OF reconcileMeta_http] emits_weaken [OF changeMeta_http], auto)+

lemma keeps_reconcileInstance:
  assumes "durable \<E>"
  shows "keeps (once k) (reconcileInstance \<E> v)"
  unfolding reconcileInstance_def reconcileScale_def
  by (rule keeps_orRequeue [OF keeps_createResources [OF assms]], rule keeps_idle)
    (intro emits_intros no_creation_meta; simp)

lemma keeps_Reconcile:
  assumes "durable \<E>"
  shows "keeps (once k) (Reconcile \<E> v name namespace)"
proof -
  have "keeps (once k) (k8s_get_cr \<E> name namespace)" by (rule keeps_idle) (intro emits_intros, simp)
  then show ?thesis
    unfolding Reconcile_def by (intro keeps_intros keeps_reconcileInstance assms)
qed

text \<open>The operator at work: passes over any resources, and in between what its metadata server does.\<close>

inductive operator_works :: "env \<Rightarrow> string \<Rightarrow> world \<Rightarrow> bool" for \<E> v where
  starts: "w_trace s = [] \<Longrightarrow> operator_works \<E> v s"
| pass: "operator_works \<E> v s \<Longrightarrow> Reconcile \<E> v name namespace s = (r, t) \<Longrightarrow> operator_works \<E> v t"
| serves: "operator_works \<E> v s \<Longrightarrow> \<forall>e \<in> set new. creation e = None \<Longrightarrow>
    operator_works \<E> v (s\<lparr>w_trace := w_trace s @ new\<rparr>)"

lemma operator_works_once: "operator_works \<E> v s \<Longrightarrow> durable \<E> \<Longrightarrow> once k (w_trace s)"
proof (induction rule: operator_works.induct)
  case (pass s name namespace r t)
  then show ?case using tripleD [OF keeps_Reconcile [unfolded keeps_def]] by blast
next
  case (serves s new)
  then show ?case by (simp add: guarded_append_idle)
qed simp

text \<open>
  C7: In all passes of the operator together, over any resources and whatever fails, an object that a pass
  found or created is never created again, if the API server does not forget it.
\<close>

theorem nothing_created_again:
  assumes "operator_works \<E> v s" and "durable \<E>" and "i < j" and "j < length (w_trace s)"
    and "shown_by (w_trace s ! i) = Some k"
  shows "creation (w_trace s ! j) \<noteq> Some k"
proof
  assume "creation (w_trace s ! j) = Some k"
  then have "\<not> shown k (take j (w_trace s))"
    using operator_works_once [OF assms(1,2)] assms(4) unfolding guarded_def by blast
  moreover have "w_trace s ! i \<in> set (take j (w_trace s))"
    using assms(3,4) by (auto simp: in_set_conv_nth intro!: exI [of _ i])
  ultimately show False using assms(5) by (auto simp: shown_def intro!: image_eqI [of _ _ "w_trace s ! i"])
qed

subsection \<open>A sample\<close>

text \<open>An API server that keeps the ConfigMap and fails on every Secret, so that a pass ends there.\<close>

definition sample_configMap :: configMap where
  "sample_configMap = createMetaConfigMap sample_cr []"

definition keeping_env :: env where
  "keeping_env = sample_env
    \<lparr>env_get_configmap := (\<lambda>tr n ns. if shown (ConfigMapKey n ns) tr then Inr sample_configMap else Inl NotFound),
     env_get_secret := (\<lambda>tr n ns. Inl (OtherApi ''no answer'')),
     env_get_service := (\<lambda>tr n ns. Inl (OtherApi ''no answer'')),
     env_get_statefulset := (\<lambda>tr n ns. Inl (OtherApi ''no answer''))\<rparr>"

lemma keeping_env_answers:
  "env_get_cr keeping_env tr n ns = Inr sample_cr"
  "env_get_configmap keeping_env tr n ns = (if shown (ConfigMapKey n ns) tr then Inr sample_configMap else Inl NotFound)"
  "env_get_secret keeping_env tr n ns = Inl (OtherApi ''no answer'')"
  "env_create_configmap keeping_env tr cm = Inr (cm\<lparr>cm_Meta := with_version (cm_Meta cm)\<rparr>)"
  "env_gen_password keeping_env tr = Inr ''secret''"
  "env_set_controller_reference keeping_env cr m = Inr m"
  "env_gzip keeping_env x = Inr x"
  by (simp_all add: keeping_env_def sample_env_def)

definition sample_data :: string where
  "sample_data = b64_encode ''{}''"

definition new_configMap :: configMap where
  "new_configMap = createMetaConfigMap sample_cr sample_data"

lemma sample_compressed: "compressString keeping_env ''{}'' = Inr sample_data"
  by (simp add: compressString_def keeping_env_answers sample_data_def)

definition looks_up_configMap :: "trace \<Rightarrow> event list" where
  "looks_up_configMap tr =
    (if shown (ConfigMapKey ''um-cfg'' ''default'') tr
     then [EvGetConfigMap ''um-cfg'' ''default'' (Inr sample_configMap)]
     else [EvGetConfigMap ''um-cfg'' ''default'' (Inl NotFound),
       EvCreateConfigMap new_configMap (Inr (new_configMap\<lparr>cm_Meta := with_version (cm_Meta new_configMap)\<rparr>))])"

lemma new_configMap_meta [simp]: "om_Name (cm_Meta new_configMap) = ''um-cfg''" "om_Namespace (cm_Meta new_configMap) = ''default''"
  by (simp_all add: new_configMap_def createMetaConfigMap_def sample_cr_def new_meta_def MetaConfigMapName_def Let_def)

lemma sample_lookup:
  assumes "w_cr s = sample_cr"
  shows "\<exists>cm. createConfigMapGuard (getOrCreateConfigMap keeping_env) s = (Inr cm, s\<lparr>w_trace := w_trace s @ looks_up_configMap (w_trace s)\<rparr>)"
proof -
  have "getOrCreateConfigMap keeping_env s =
      getOrCreate (k8s_get_configmap keeping_env ''um-cfg'' ''default'') (k8s_create_configmap keeping_env new_configMap) s"
    using assms
    by (simp add: getOrCreateConfigMap_def sample_compressed keeping_env_answers bindE_def get_cr_def setOwner_def of_text_def
        new_configMap_def [symmetric] Let_def)
  then have "\<exists>cm. getOrCreateConfigMap keeping_env s = (Inr cm, s\<lparr>w_trace := w_trace s @ looks_up_configMap (w_trace s)\<rparr>)"
    by (cases "shown (ConfigMapKey ''um-cfg'' ''default'') (w_trace s)")
      (simp_all add: getOrCreate_def tryE_def call_defs call_def Let_def of_api_def keeping_env_answers IsNotFound_def looks_up_configMap_def)
  then show ?thesis unfolding guard_defs eval_nat_numeral using guard_success by metis
qed

definition secret_events :: "event list" where
  "secret_events = [EvGenPassword (Inr ''secret''), EvGetSecret ''um-sc'' ''default'' (Inl (OtherApi ''no answer''))]"

lemma sample_secret:
  assumes "w_cr s = sample_cr"
  shows "createSecretGuard (getOrCreateMetaSecret keeping_env) s =
    (Inl (ErrApi (OtherApi ''no answer'')), s\<lparr>w_trace := w_trace s @ secret_events\<rparr>)"
  unfolding guard_defs numeral_3_eq_3
proof (rule guard_other_error)
  show "getOrCreateMetaSecret keeping_env s =
      (Inl (ErrApi (OtherApi ''no answer'')), s\<lparr>w_trace := w_trace s @ secret_events\<rparr>)"
    using assms
    by (simp add: getOrCreateMetaSecret_def genBrokerPassword_def call_defs call_def keeping_env_answers bindE_def get_cr_def setOwner_def
        of_text_def of_api_def getOrCreate_def tryE_def IsNotFound_def Let_def createMetaSecret_def new_meta_def MetaSecretName_def
        secret_events_def) (simp add: sample_cr_def new_meta_def)
qed (simp add: IsAlreadyExists_def)

definition got_cr :: event where
  "got_cr = EvGetCR ''um'' ''default'' (Inr sample_cr)"

lemma one_pass:
  "\<exists>r t. Reconcile keeping_env ''v3'' ''um'' ''default'' s = (r, t) \<and>
    w_trace t = w_trace s @ got_cr # looks_up_configMap (w_trace s @ [got_cr]) @ secret_events"
proof -
  let ?s = "s\<lparr>w_trace := w_trace s @ [got_cr], w_cr := sample_cr\<rparr>"
  let ?u = "?s\<lparr>w_trace := w_trace ?s @ looks_up_configMap (w_trace ?s)\<rparr>"
  let ?r = "(Inl (ErrApi (OtherApi ''no answer'')), ?u\<lparr>w_trace := w_trace ?u @ secret_events\<rparr>)"
  obtain cm where 1: "createConfigMapGuard (getOrCreateConfigMap keeping_env) ?s = (Inr cm, ?u)"
    using sample_lookup [of ?s] by auto
  have 2: "createSecretGuard (getOrCreateMetaSecret keeping_env) ?u = ?r"
    by (rule sample_secret) simp
  have "createResources keeping_env ?s = ?r"
    unfolding createResources_def createMeta_def bindE_def 1 prod.case sum.case 2 by simp
  then have "Reconcile keeping_env ''v3'' ''um'' ''default'' s = (Inl (ErrApi (OtherApi ''no answer'')), snd ?r)"
    by (simp add: Reconcile_def reconcileInstance_def orRequeue_def tryE_def bindE_def put_cr_def k8s_get_cr_def call_def
        keeping_env_answers of_api_def Let_def got_cr_def)
  then show ?thesis by simp
qed

text \<open>Two passes, of which the first creates the ConfigMap.\<close>

theorem nothing_created_again_witness:
  "\<exists>s. operator_works keeping_env ''v3'' s \<and> length (w_trace s) = 9 \<and>
    creation (w_trace s ! 2) = Some (ConfigMapKey ''um-cfg'' ''default'') \<and>
    creation (w_trace s ! 6) \<noteq> Some (ConfigMapKey ''um-cfg'' ''default'')"
proof -
  obtain r t where 1: "Reconcile keeping_env ''v3'' ''um'' ''default'' sample_world = (r, t)"
    "w_trace t = got_cr # looks_up_configMap [got_cr] @ secret_events"
    using one_pass [of sample_world] by (auto simp: sample_world_def)
  obtain r' u where 2: "Reconcile keeping_env ''v3'' ''um'' ''default'' t = (r', u)"
    "w_trace u = w_trace t @ got_cr # looks_up_configMap (w_trace t @ [got_cr]) @ secret_events"
    using one_pass [of t] by blast
  have works: "operator_works keeping_env ''v3'' u"
    by (rule operator_works.pass [OF operator_works.pass [OF operator_works.starts 1(1)] 2(1)]) (simp add: sample_world_def)
  have first: "looks_up_configMap [got_cr] =
      [EvGetConfigMap ''um-cfg'' ''default'' (Inl NotFound),
       EvCreateConfigMap new_configMap (Inr (new_configMap\<lparr>cm_Meta := with_version (cm_Meta new_configMap)\<rparr>))]"
    by (simp add: looks_up_configMap_def shown_def got_cr_def)
  have second: "length (looks_up_configMap (w_trace t @ [got_cr])) = 1"
    by (simp add: looks_up_configMap_def shown_def 1(2) first)
  have trace: "length (w_trace u) = 9" "shown_by (w_trace u ! 2) = Some (ConfigMapKey ''um-cfg'' ''default'')"
    "creation (w_trace u ! 2) = Some (ConfigMapKey ''um-cfg'' ''default'')"
    using second by (simp_all add: 2(2) 1(2) first secret_events_def)
  have "durable keeping_env"
    by (simp add: durable_def keeping_env_def)
  from nothing_created_again [OF works this _ _ trace(2), of 6] show ?thesis
    using works trace by auto
qed

end
