(* ===== verification/Pass_Results.thy ===== *)
theory Pass_Results
  imports Reconciler
begin

section \<open>What a pass returns, and the order of rolling updates\<close>

text \<open>
  Two facts about every pass: the sentinel \<open>errRetryReconciliation\<close> is always turned into a
  requeue and never reported as a failure, and the rolling updates go one component at a time:
  brokers, coordinators, storage, the next only when the one before is up to date and ready.
\<close>

subsection \<open>Retries are never failures\<close>

definition never :: "goerror \<Rightarrow> 'a op \<Rightarrow> bool" where
  "never e m \<longleftrightarrow> (\<forall>s. fst (m s) \<noteq> Inl e)"

named_theorems never_intros "rules for operations that never fail with a given error"

lemma never_bindE [never_intros]: "never e m \<Longrightarrow> (\<And>x. never e (f x)) \<Longrightarrow> never e (bindE m f)"
  unfolding never_def bindE_def by (auto split: prod.splits sum.splits) (metis fst_conv)+

lemma never_tryE [never_intros]: "(\<And>r. never e (f r)) \<Longrightarrow> never e (tryE m f)"
  unfolding never_def tryE_def by (auto split: prod.splits)

lemma never_tryE_pass:
  "never e m \<Longrightarrow> (\<And>r. r \<noteq> Inl e \<Longrightarrow> never e (f r)) \<Longrightarrow> never e (tryE m f)"
  unfolding never_def tryE_def by (auto split: prod.splits) (metis fst_conv)

lemma never_returnE [never_intros]: "never e (returnE x)"
  by (simp add: never_def)

lemma never_throwE [never_intros]: "e' \<noteq> e \<Longrightarrow> never e (throwE e')"
  by (simp add: never_def)

lemma never_if [never_intros]:
  "(b \<Longrightarrow> never e m) \<Longrightarrow> (\<not> b \<Longrightarrow> never e n) \<Longrightarrow> never e (if b then m else n)"
  by simp

lemma never_get_cr [never_intros]: "never e get_cr"
  by (simp add: never_def get_cr_def)

lemma never_put_cr [never_intros]: "never e (put_cr cr)"
  by (simp add: never_def put_cr_def)

lemma never_sum_case [never_intros]:
  "(\<And>x. r = Inl x \<Longrightarrow> never e (f x)) \<Longrightarrow> (\<And>x. r = Inr x \<Longrightarrow> never e (g x)) \<Longrightarrow>
    never e (case r of Inl x \<Rightarrow> f x | Inr x \<Rightarrow> g x)"
  by (cases r) auto

lemma never_prod_case [never_intros]:
  "(\<And>x y. never e (f x y)) \<Longrightarrow> never e (case p of (x, y) \<Rightarrow> f x y)"
  by (cases p) auto

lemma never_requeueAfter [never_intros]: "never e (requeueAfter n)"
  unfolding requeueAfter_def by (intro never_intros)

text \<open>The mapping of a retry to a requeue is what makes it disappear.\<close>

lemma never_orRequeue [never_intros]:
  "(\<And>x. never ErrRetryReconciliation (f x)) \<Longrightarrow> never ErrRetryReconciliation (orRequeue n m f)"
  unfolding orRequeue_def by (intro never_intros)

lemma never_k8s [never_intros]:
  "never ErrRetryReconciliation (k8s_get_endpoints \<E> n ns)"
  "never ErrRetryReconciliation (k8s_get_cr \<E> n ns)"
  by (simp_all add: never_def call_defs call_def of_api_def Let_def map_sum_def split: sum.splits)

lemma getEndpoints_never [never_intros]: "never ErrRetryReconciliation (getEndpoints \<E> n ns)"
  unfolding getEndpoints_def
  by (intro never_tryE_pass never_k8s never_sum_case never_if never_returnE never_throwE) auto

lemma getServiceEndpointsNum_never [never_intros]:
  "never ErrRetryReconciliation (getServiceEndpointsNum \<E> sv)"
  unfolding getServiceEndpointsNum_def by (intro never_intros)

lemma readiness_never [never_intros]:
  "never ErrRetryReconciliation (brokerAndCoordinatorReady \<E> resource)"
  "never ErrRetryReconciliation (getServerProxies \<E> sv)"
  "never ErrRetryReconciliation (storageAllReady \<E> sv)"
  "never ErrRetryReconciliation (storageAllReadyAndStable \<E> sv ss)"
  unfolding brokerAndCoordinatorReady_def brokerReady_def coordinatorReady_def getServerProxies_def
    storageAllReady_def storageAllReadyAndStable_def Let_def
  by (intro never_intros)+

lemma configSetBroker_never [never_intros]: "never ErrRetryReconciliation (configSetBroker \<E> sv m)"
proof -
  have "err \<noteq> Some ErrRetryReconciliation \<Longrightarrow>
      never ErrRetryReconciliation (configSetBrokerLoop \<E> cr m eps err)" for cr eps err
  proof (induction eps arbitrary: err)
    case Nil
    then show ?case by (cases err) (auto simp: never_def)
  next
    case (Cons ep eps)
    have "never ErrRetryReconciliation (\<lambda>s. configSetBrokerLoop \<E> cr m (ep # eps) err s)"
      using Cons.IH
      by (auto simp: never_def tryE_def coordinator_setBrokerAddress_def redis_config_set_def call_def
          Let_def split: option.splits)
    then show ?case by simp
  qed
  then show ?thesis unfolding configSetBroker_def by (intro never_intros) simp
qed

lemma Reconcile_never: "never ErrRetryReconciliation (Reconcile \<E> v name namespace)"
proof -
  have "never ErrRetryReconciliation (reconcileScale \<E> v resource m rs b info)" for resource m rs b info
    unfolding reconcileScale_def by (intro never_intros)
  then have "never ErrRetryReconciliation (reconcileInstance \<E> v)"
    unfolding reconcileInstance_def by (intro never_intros)
  then show ?thesis
    unfolding Reconcile_def
    by (intro never_tryE_pass never_k8s never_sum_case never_if never_returnE never_throwE
        never_bindE never_put_cr) auto
qed

text \<open>The waiting times a pass can ask for.\<close>

definition requeue_times :: "int set" where
  "requeue_times = {3, 5, 10}"

definition queue_result :: "ctrlResult \<Rightarrow> bool" where
  "queue_result x \<longleftrightarrow> x = done_result \<or>
    (\<exists>n \<in> requeue_times. x = \<lparr>res_Requeue = True, res_RequeueAfter = n * 1000000000\<rparr>)"

definition only :: "('a \<Rightarrow> bool) \<Rightarrow> 'a op \<Rightarrow> bool" where
  "only P m \<longleftrightarrow> (\<forall>s x t. m s = (Inr x, t) \<longrightarrow> P x)"

lemma only_bindE: "(\<And>x. only P (f x)) \<Longrightarrow> only P (bindE m f)"
  by (auto simp: only_def bindE_eq_Inr)

lemma only_requeueAfter: "n \<in> requeue_times \<Longrightarrow> only queue_result (requeueAfter n)"
  by (auto simp: only_def requeueAfter_def queue_result_def)

lemma only_if: "only P m \<Longrightarrow> only P n \<Longrightarrow> only P (if b then m else n)"
  by simp

lemma only_throwE: "only P (throwE e)"
  by (simp add: only_def)

lemma only_tryE:
  "(\<And>e. only P (f (Inl e))) \<Longrightarrow> (\<And>x. only P (f (Inr x))) \<Longrightarrow> only P (tryE m f)"
  unfolding only_def tryE_eq by (metis sum.exhaust)

lemma only_orRequeue:
  "n \<in> requeue_times \<Longrightarrow> (\<And>x. only queue_result (f x)) \<Longrightarrow> only queue_result (orRequeue n m f)"
  unfolding orRequeue_def by (rule only_tryE) (simp_all add: only_requeueAfter only_throwE)

lemma only_done: "only queue_result (returnE done_result)"
  by (simp add: only_def queue_result_def)

lemma Reconcile_results: "only queue_result (Reconcile \<E> v name namespace)"
proof -
  have t: "3 \<in> requeue_times" "5 \<in> requeue_times" "10 \<in> requeue_times"
    by (simp_all add: requeue_times_def)
  have "only queue_result (reconcileScale \<E> v resource m rs b info)" for resource m rs b info
    unfolding reconcileScale_def
    by (intro only_bindE only_orRequeue only_requeueAfter only_if only_done t)
  then have "only queue_result (reconcileInstance \<E> v)"
    unfolding reconcileInstance_def
    by (intro only_bindE only_orRequeue only_requeueAfter only_if t) (simp split: prod.split add: only_bindE only_orRequeue t)
  then show ?thesis
    unfolding Reconcile_def by (intro only_tryE) (simp_all add: only_throwE only_done only_bindE)
qed

subsection \<open>One component at a time\<close>

definition updates :: "world \<Rightarrow> world \<Rightarrow> event list" where
  "updates s t = filter is_update (new_events s t)"

definition rolled :: "(undermoon \<Rightarrow> statefulSet \<times> undermoon) \<Rightarrow> undermoon \<Rightarrow> statefulSet \<Rightarrow> statefulSet" where
  "rolled create cr ss = ss\<lparr>ss_Spec := ss_Spec (fst (create cr))\<rparr>"

definition extends :: "world \<Rightarrow> world \<Rightarrow> bool" where
  "extends s t \<longleftrightarrow> (\<exists>new. w_trace t = w_trace s @ new)"

lemma updates_idle:
  assumes "emits (\<lambda>e. \<not> is_update e) m" and "m s = (r, t)"
  shows "updates s t = []" and "extends s t"
proof -
  obtain new where "w_trace t = w_trace s @ new" "\<forall>e \<in> set new. \<not> is_update e"
    using emitsE [OF assms] .
  then show "updates s t = []" "extends s t"
    by (simp_all add: updates_def extends_def)
qed

lemma updates_trans:
  "extends s u \<Longrightarrow> extends u t \<Longrightarrow> extends s t \<and> updates s t = updates s u @ updates u t"
  by (auto simp: updates_def extends_def new_events_def)

lemma rollStatefulSet_updates:
  assumes "rollStatefulSet \<E> what create ss s = (q, u)"
  shows "extends s u"
    and "updates s u = [] \<and> (\<exists>e. q = Inl e) \<or>
      (\<exists>x. updates s u = [EvUpdateStatefulSet (rolled create (w_cr s) ss) x])"
proof -
  obtain new cr' where c: "create (w_cr s) = (new, cr')" by fastforce
  have run: "updateStatefulSet \<E> (''Empty ResourceVersion when updating '' @ what @ '': '' @ um_Name cr')
      (ss\<lparr>ss_Spec := ss_Spec new\<rparr>) (s\<lparr>w_cr := cr'\<rparr>) = (q, u)"
    using assms c by (simp add: rollStatefulSet_def bindE_def get_cr_def put_cr_def)
  then show "extends s u"
    by (auto simp: updateStatefulSet_run Let_def extends_def split: if_splits)
  show "updates s u = [] \<and> (\<exists>e. q = Inl e) \<or>
      (\<exists>x. updates s u = [EvUpdateStatefulSet (rolled create (w_cr s) ss) x])"
    using run c
    by (auto simp: updateStatefulSet_run Let_def new_events_def updates_def rolled_def split: if_splits)
qed

text \<open>A component's rolling update writes its own StatefulSet, once.\<close>

lemma trigger_updates:
  assumes run: "bindE (bindE (rollStatefulSet \<E> what create ss) after) (\<lambda>_. throwE e) s = (r, t)"
    and idle: "\<And>ss'. emits (\<lambda>e. \<not> is_update e) (after ss')"
  shows "(\<forall>y. r \<noteq> Inr y) \<and>
    (updates s t = [] \<or> (\<exists>x. updates s t = [EvUpdateStatefulSet (rolled create (w_cr s) ss) x]))"
proof -
  obtain q u where q: "rollStatefulSet \<E> what create ss s = (q, u)" by fastforce
  note roll = rollStatefulSet_updates [OF q]
  have r: "\<forall>y. r \<noteq> Inr y" using run by (auto simp: bindE_eq_Inr)
  show ?thesis
  proof (cases q)
    case (Inl x)
    then have "t = u" using run q by (simp add: bindE_def)
    then show ?thesis using roll r by auto
  next
    case (Inr ss')
    obtain p w where p: "after ss' u = (p, w)" by fastforce
    have "t = w" using run q Inr p by (cases p) (auto simp: bindE_def)
    then have "updates s t = updates s u"
      using updates_trans [OF roll(1), of w] updates_idle [OF idle p] by simp
    then show ?thesis using roll r by auto
  qed
qed

lemma needRollingUpdate_run:
  "broker_needRollingUpdate \<E> ss s = (brokerStatefulSetChanged \<E> (w_cr s) ss, s)"
  "coordinator_needRollingUpdate \<E> ss s = (coordinatorStatefulSetChanged \<E> (w_cr s) ss, s)"
  "storage_needRollingUpdate \<E> ss s = (storageStatefulSetChanged \<E> (w_cr s) ss, s)"
  by (simp_all add: broker_needRollingUpdate_def coordinator_needRollingUpdate_def
      storage_needRollingUpdate_def bindE_def get_cr_def)

lemma brokerAllReady_true:
  "brokerAllReady \<E> ss sv s = (Inr True, t) \<Longrightarrow> st_ReadyReplicas (ss_Status ss) = brokerNum \<and> w_cr t = w_cr s"
  using getServiceEndpointsNum_cr by (auto simp: brokerAllReady_def bindE_eq_Inr)

lemma coordiantorAllReady_true:
  "coordiantorAllReady \<E> ss sv s = (Inr True, t) \<Longrightarrow>
    sint (st_ReadyReplicas (ss_Status ss)) \<ge> sint coordinatorNum \<and> w_cr t = w_cr s"
  using getServiceEndpointsNum_cr by (auto simp: coordiantorAllReady_def bindE_eq_Inr int_of_i32_def)

text \<open>
  Which component a pass may update, as a function of the three comparisons: the first that
  differs, and only when those before it are up to date and ready.
\<close>

definition storage_choice :: "env \<Rightarrow> umResource \<Rightarrow> undermoon \<Rightarrow> statefulSet \<Rightarrow> bool" where
  "storage_choice \<E> resource cr ss \<longleftrightarrow>
    storageStatefulSetChanged \<E> cr (ur_storageStatefulSet resource) = Inr True \<and>
    ss = rolled createStorageStatefulSet cr (ur_storageStatefulSet resource)"

definition coordinator_choice :: "env \<Rightarrow> umResource \<Rightarrow> undermoon \<Rightarrow> statefulSet \<Rightarrow> bool" where
  "coordinator_choice \<E> resource cr ss \<longleftrightarrow>
    (let c = ur_coordinatorStatefulSet resource; changed = coordinatorStatefulSetChanged \<E> cr c in
     changed = Inr True \<and> ss = rolled createCoordinatorStatefulSet cr c \<or>
     changed = Inr False \<and> sint (st_ReadyReplicas (ss_Status c)) \<ge> sint coordinatorNum \<and>
       storage_choice \<E> resource cr ss)"

definition rolling_choice :: "env \<Rightarrow> umResource \<Rightarrow> undermoon \<Rightarrow> statefulSet \<Rightarrow> bool" where
  "rolling_choice \<E> resource cr ss \<longleftrightarrow>
    (let b = ur_brokerStatefulSet resource; changed = brokerStatefulSetChanged \<E> cr b in
     changed = Inr True \<and> ss = rolled (createBrokerStatefulSet \<E>) cr b \<or>
     changed = Inr False \<and> st_ReadyReplicas (ss_Status b) = brokerNum \<and>
       coordinator_choice \<E> resource cr ss)"

text \<open>A run of a stage: at most one update, of a StatefulSet \<open>P\<close> admits, and then no success.\<close>

definition one_update :: "(statefulSet \<Rightarrow> bool) \<Rightarrow> world \<Rightarrow> goerror + unit \<Rightarrow> world \<Rightarrow> bool" where
  "one_update P s r t \<longleftrightarrow> updates s t = [] \<or>
    (\<forall>y. r \<noteq> Inr y) \<and> (\<exists>ss x. updates s t = [EvUpdateStatefulSet ss x] \<and> P ss)"

lemma one_update_weaken: "one_update P s r t \<Longrightarrow> (\<And>ss. P ss \<Longrightarrow> Q ss) \<Longrightarrow> one_update Q s r t"
  by (auto simp: one_update_def)

text \<open>The three stages share this step: compare, then either roll out or check readiness.\<close>

lemma rolling_stage:
  assumes run: "bindE need (\<lambda>b. if b then bindE (bindE (rollStatefulSet \<E> what create ss) after) (\<lambda>_. throwE ErrRetryReconciliation)
      else bindE ready (\<lambda>ok. if \<not> ok then throwE ErrRetryReconciliation else rest)) s = (r, t)"
    and need: "need s = (c, s)"
    and after: "\<And>ss'. emits (\<lambda>e. \<not> is_update e) (after ss')"
    and ready: "emits (\<lambda>e. \<not> is_update e) ready"
    and next_stage: "\<And>u. ready s = (Inr True, u) \<Longrightarrow> rest u = (r, t) \<Longrightarrow> c = Inr False \<Longrightarrow>
        extends s u \<Longrightarrow> updates s u = [] \<Longrightarrow> Q"
    and idle: "updates s t = [] \<Longrightarrow> Q"
    and rolled: "\<And>x. c = Inr True \<Longrightarrow> \<forall>y. r \<noteq> Inr y \<Longrightarrow>
        updates s t = [EvUpdateStatefulSet (rolled create (w_cr s) ss) x] \<Longrightarrow> Q"
  shows Q
proof (cases c)
  case (Inl e)
  then have "t = s" using run need by (simp add: bindE_def)
  then show ?thesis using idle by (simp add: updates_def new_events_def)
next
  case (Inr b)
  show ?thesis
  proof (cases b)
    case True
    then have "bindE (bindE (rollStatefulSet \<E> what create ss) after) (\<lambda>_. throwE ErrRetryReconciliation) s = (r, t)"
      using run need Inr by (simp add: bindE_def [of need])
    from trigger_updates [OF this after] show ?thesis using idle rolled Inr True by blast
  next
    case False
    obtain q u where q: "ready s = (q, u)" by fastforce
    note ru = updates_idle [OF ready q]
    have cont: "bindE ready (\<lambda>ok. if \<not> ok then throwE ErrRetryReconciliation else rest) s = (r, t)"
      using run need Inr False by (simp add: bindE_def [of need])
    show ?thesis
    proof (cases "q = Inr True")
      case True
      then show ?thesis using cont q ru next_stage Inr False by (simp add: bindE_def)
    next
      case no: False
      then have "t = u" using cont q by (cases q) (auto simp: bindE_def)
      then show ?thesis using ru idle by simp
    qed
  qed
qed

lemma ready_idle:
  "emits (\<lambda>e. \<not> is_update e) (brokerAllReady \<E> ss sv)"
  "emits (\<lambda>e. \<not> is_update e) (coordiantorAllReady \<E> ss sv)"
  "emits (\<lambda>e. \<not> is_update e) (storageAllReady \<E> sv)"
  "emits (\<lambda>e. \<not> is_update e) (storageAllReadyAndStable \<E> sv ss)"
  by (intro emits_intros; simp add: is_update_def)+

lemma after_idle:
  "emits P m \<Longrightarrow> emits P (bindE m (\<lambda>ready. if \<not> ready then throwE ErrRetryReconciliation else returnE ()))"
  by (intro emits_intros)

lemma one_update_after:
  assumes "extends s u" and "updates s u = []" and "extends u t" and "one_update P u r t"
    and "\<And>ss. P ss \<Longrightarrow> Q ss"
  shows "one_update Q s r t"
  using updates_trans [OF assms(1,3)] assms(2,4,5) by (auto simp: one_update_def)

lemma one_update_idle: "updates s t = [] \<Longrightarrow> one_update P s r t"
  by (simp add: one_update_def)

lemma one_update_rolled:
  "\<forall>y. r \<noteq> Inr y \<Longrightarrow> updates s t = [EvUpdateStatefulSet ss x] \<Longrightarrow> P ss \<Longrightarrow> one_update P s r t"
  by (simp add: one_update_def)

lemma emits_extends: "emits P m \<Longrightarrow> m s = (r, t) \<Longrightarrow> extends s t"
  unfolding extends_def by (metis emitsE)

lemma rollStorage_post:
  assumes run: "rollStorage \<E> resource s = (r, t)"
  shows "one_update (storage_choice \<E> resource (w_cr s)) s r t"
  by (rule rolling_stage [OF run [unfolded rollStorage_def trigger_defs] needRollingUpdate_run(3)
        after_idle [OF ready_idle(3)] ready_idle(4)])
    (auto intro: one_update_idle one_update_rolled simp: storage_choice_def)

lemma rollCoordinator_post:
  assumes run: "rollCoordinator \<E> resource s = (r, t)"
  shows "one_update (coordinator_choice \<E> resource (w_cr s)) s r t"
proof (rule rolling_stage [OF run [unfolded rollCoordinator_def trigger_defs] needRollingUpdate_run(2)
      after_idle [OF ready_idle(2)] ready_idle(2)])
  fix u
  assume c: "coordiantorAllReady \<E> (ur_coordinatorStatefulSet resource) (ur_coordinatorService resource) s = (Inr True, u)"
    "coordinatorStatefulSetChanged \<E> (w_cr s) (ur_coordinatorStatefulSet resource) = Inr False"
    and su: "extends s u" "updates s u = []" and rest: "rollStorage \<E> resource u = (r, t)"
  have "emits (\<lambda>_. True) (rollStorage \<E> resource)" unfolding rollStorage_def by (intro emits_intros TrueI)
  from emits_extends [OF this rest] have ut: "extends u t" .
  show ?thesis
    by (rule one_update_after [OF su ut rollStorage_post [OF rest]])
      (use c coordiantorAllReady_true [OF c(1)] in \<open>simp add: coordinator_choice_def\<close>)
qed (auto intro: one_update_idle one_update_rolled simp: coordinator_choice_def)

lemma triggerRollingUpdate_post:
  assumes run: "triggerRollingUpdate \<E> resource s = (r, t)"
  shows "one_update (rolling_choice \<E> resource (w_cr s)) s r t"
proof (rule rolling_stage [OF run [unfolded triggerRollingUpdate_def trigger_defs] needRollingUpdate_run(1)
      after_idle [OF ready_idle(1)] ready_idle(1)])
  fix u
  assume b: "brokerAllReady \<E> (ur_brokerStatefulSet resource) (ur_brokerService resource) s = (Inr True, u)"
    "brokerStatefulSetChanged \<E> (w_cr s) (ur_brokerStatefulSet resource) = Inr False"
    and su: "extends s u" "updates s u = []" and rest: "rollCoordinator \<E> resource u = (r, t)"
  have "emits (\<lambda>_. True) (rollCoordinator \<E> resource)"
    unfolding rollCoordinator_def rollStorage_def by (intro emits_intros TrueI)
  from emits_extends [OF this rest] have ut: "extends u t" .
  show ?thesis
    by (rule one_update_after [OF su ut rollCoordinator_post [OF rest]])
      (use b brokerAllReady_true [OF b(1)] in \<open>simp add: rolling_choice_def\<close>)
qed (auto intro: one_update_idle one_update_rolled simp: rolling_choice_def)

subsection \<open>Properties\<close>

text \<open>
  C30: A pass never fails with \<open>errRetryReconciliation\<close>: it ends with another error, or with a
  result for the work queue that is either final or a requeue after 3, 5 or 10 seconds.
\<close>

theorem reconcile_outcome:
  "case fst (Reconcile \<E> v name namespace s) of
     Inl e \<Rightarrow> e \<noteq> ErrRetryReconciliation | Inr x \<Rightarrow> queue_result x"
  using Reconcile_never [of \<E> v name namespace, unfolded never_def, rule_format, of s]
    Reconcile_results [of \<E> v name namespace]
  by (cases "Reconcile \<E> v name namespace s") (auto simp: never_def only_def split: sum.splits)

text \<open>
  C8: A rolling update writes at most one StatefulSet per pass, and then asks for a retry or
  fails: that of the first component, in the order brokers, coordinators, storage, whose running
  StatefulSet differs from the resource, and only when the components before it are up to date
  and ready.
\<close>

theorem rolling_one_component:
  "one_update (rolling_choice \<E> resource (w_cr s)) s
    (fst (triggerRollingUpdate \<E> resource s)) (snd (triggerRollingUpdate \<E> resource s))"
  by (rule triggerRollingUpdate_post) simp

text \<open>
  A resource whose maps have no duplicate keys and that gives no variable two values; and an API
  server that stores the spec it is sent, adding nothing to the modelled fields.
\<close>

definition settled_resource :: "undermoon \<Rightarrow> bool" where
  "settled_resource cr \<longleftrightarrow>
    wf_resources (um_BrokerResources (um_Spec cr)) \<and> wf_resources (um_CoordinatorResources (um_Spec cr)) \<and>
    wf_resources (um_ProxyResources (um_Spec cr)) \<and> wf_resources (um_RedisResources (um_Spec cr)) \<and>
    env_consistent (um_BrokerEnvVar (um_Spec cr)) \<and> env_consistent (um_CoordinatorEnvVar (um_Spec cr)) \<and>
    env_consistent (um_ProxyEnvVar (um_Spec cr)) \<and> env_consistent (um_RedisEnvVar (um_Spec cr))"

definition stores_spec :: "env \<Rightarrow> bool" where
  "stores_spec \<E> \<longleftrightarrow>
    (\<forall>tr ss ss'. env_update_statefulset \<E> tr ss = Inr ss' \<longrightarrow> ss_Spec ss' = ss_Spec ss)"

lemma rolled_spec:
  assumes "stores_spec \<E>" and "rollStatefulSet \<E> what create ss s = (Inr ss', t)"
  shows "ss_Spec ss' = ss_Spec (fst (create (w_cr s)))"
proof -
  obtain new cr' where c: "create (w_cr s) = (new, cr')" by fastforce
  have "updateStatefulSet \<E> (''Empty ResourceVersion when updating '' @ what @ '': '' @ um_Name cr')
      (ss\<lparr>ss_Spec := ss_Spec new\<rparr>) (s\<lparr>w_cr := cr'\<rparr>) = (Inr ss', t)"
    using assms(2) c by (simp add: rollStatefulSet_def bindE_def get_cr_def put_cr_def)
  then show ?thesis using assms(1) c by (auto simp: updateStatefulSet_Inr stores_spec_def)
qed


text \<open>
  C29: When the resource gives one broker variable two values, the rolling update of the brokers
  never ends: right after one that the API server stored, the comparison asks for another.
\<close>

theorem inconsistent_variables_roll_forever:
  assumes "stores_spec \<E>" and "quantity_refl \<E>" and "wf_resources (um_BrokerResources (um_Spec (w_cr s)))"
    and "\<not> env_consistent (um_BrokerEnvVar (um_Spec (w_cr s)))"
    and run: "broker_updateStatefulSetHelper \<E> ss s = (Inr ss', t)"
  shows "fst (broker_needRollingUpdate \<E> ss' t) = Inr True"
proof -
  obtain new cr' where c: "createBrokerStatefulSet \<E> (w_cr s) = (new, cr')" by fastforce
  have "w_cr t = cr'"
    using run c by (auto simp: broker_updateStatefulSetHelper_def rollStatefulSet_def bindE_def get_cr_def
        put_cr_def updateStatefulSet_Inr)
  then have "brokerStatefulSetChanged \<E> (w_cr t) ss' = brokerStatefulSetChanged \<E> (w_cr s) ss'"
    using brokerStatefulSetChanged_frame [of \<E> "w_cr s" ss'] c by simp
  moreover have "ss_Spec ss' = ss_Spec (fst (createBrokerStatefulSet \<E> (w_cr s)))"
    using rolled_spec [OF assms(1)] run by (simp add: broker_updateStatefulSetHelper_def)
  ultimately show ?thesis
    using brokerStatefulSetChanged_fresh [of ss' \<E> "w_cr s"] assms(2-4) by (simp add: needRollingUpdate_run)
qed

text \<open>
  A resource that no longer exists ends the pass at once: nothing is written and nothing is
  queued again.
\<close>

theorem deleted_resource_done:
  assumes "env_get_cr \<E> (w_trace s) name ns = Inl NotFound"
  shows "Reconcile \<E> v name ns s =
    (Inr done_result, s\<lparr>w_trace := w_trace s @ [EvGetCR name ns (Inl NotFound)]\<rparr>)"
  using assms by (simp add: Reconcile_def tryE_def k8s_get_cr_def call_def of_api_def IsNotFound_def)

theorem deleted_resource_done_witness:
  "fst (Reconcile (sample_env\<lparr>env_get_cr := (\<lambda>tr n ns. Inl NotFound)\<rparr>) ''v3'' ''um'' ''default'' sample_world) =
    Inr done_result"
  by (subst deleted_resource_done) (simp_all add: sample_env_def)

definition with_variables :: "envVar list \<Rightarrow> world" where
  "with_variables es = sample_world\<lparr>w_cr := sample_cr\<lparr>um_Spec := sample_spec\<lparr>um_BrokerEnvVar := es\<rparr>\<rparr>\<rparr>"

lemma sample_env_laws: "stores_spec sample_env" "quantity_refl sample_env"
  by (simp_all add: stores_spec_def quantity_refl_def sample_env_def)

lemma sample_wf: "wf_resources no_resources"
  by (simp add: wf_resources_def wf_map_def no_resources_def)


theorem inconsistent_variables_roll_forever_witness:
  "\<exists>ss' t. broker_updateStatefulSetHelper sample_env (sample_storage 2)
      (with_variables [value_env ''A'' ''1'', value_env ''A'' ''2'']) = (Inr ss', t) \<and>
    fst (broker_needRollingUpdate sample_env ss' t) = Inr True"
proof -
  let ?s = "with_variables [value_env ''A'' ''1'', value_env ''A'' ''2'']"
  have "\<not> env_consistent (um_BrokerEnvVar (um_Spec (w_cr ?s)))"
    by (simp add: with_variables_def env_consistent_def value_env_def)
  moreover have "wf_resources (um_BrokerResources (um_Spec (w_cr ?s)))"
    by (simp add: with_variables_def sample_spec_def sample_wf)
  moreover have "\<exists>ss' t. broker_updateStatefulSetHelper sample_env (sample_storage 2) ?s = (Inr ss', t)"
    by (simp add: broker_updateStatefulSetHelper_def rollStatefulSet_def bindE_def get_cr_def put_cr_def
        updateStatefulSet_run case_prod_beta Let_def) (simp add: sample_env_def)
  ultimately show ?thesis using inconsistent_variables_roll_forever [OF sample_env_laws] by blast
qed

end
