(* ===== verification/Steady_State.thy ===== *)
theory Steady_State
  imports Pass_Results
begin

section \<open>A settled cluster is left alone\<close>

text \<open>
  The aim of the reconciliation is a state in which there is nothing left to do. Such a state
  is described by what the other systems answer (\<open>settled\<close>): every object exists and has the
  wanted spec and size, the pods are ready, and the brokers report the cluster as the resource
  asks for it. A pass over it then ends without a requeue and writes nothing: no object is
  created or updated, the status is not written, no cluster is created and no proxy is removed.
\<close>

subsection \<open>Runs that leave the custom resource as it is\<close>

text \<open>
  \<open>runs P cr m Q\<close>: from every world with the custom resource \<open>cr\<close>, \<open>m\<close> only appends events that
  satisfy \<open>P\<close>, and its result satisfies \<open>Q\<close>; \<open>returns\<close> is the case of a success with a value that
  satisfies \<open>G\<close>, \<open>yields\<close> that of a known value.
\<close>

definition runs :: "(event \<Rightarrow> bool) \<Rightarrow> undermoon \<Rightarrow> 'a op \<Rightarrow> (goerror + 'a \<Rightarrow> bool) \<Rightarrow> bool" where
  "runs P cr m Q \<longleftrightarrow> (\<forall>s. w_cr s = cr \<longrightarrow> (\<exists>r new. m s = (r, s\<lparr>w_trace := w_trace s @ new\<rparr>) \<and>
     Q r \<and> (\<forall>e \<in> set new. P e)))"

abbreviation yields :: "(event \<Rightarrow> bool) \<Rightarrow> undermoon \<Rightarrow> 'a op \<Rightarrow> 'a \<Rightarrow> bool" where
  "yields P cr m x \<equiv> runs P cr m (\<lambda>r. r = Inr x)"

abbreviation returns :: "(event \<Rightarrow> bool) \<Rightarrow> undermoon \<Rightarrow> 'a op \<Rightarrow> ('a \<Rightarrow> bool) \<Rightarrow> bool" where
  "returns P cr m G \<equiv> runs P cr m (\<lambda>r. \<exists>x. r = Inr x \<and> G x)"

named_theorems runs_intros "rules for runs that leave the custom resource as it is"

lemma runs_pure: "(\<And>s. w_cr s = cr \<Longrightarrow> m s = (r, s)) \<Longrightarrow> Q r \<Longrightarrow> runs P cr m Q"
  unfolding runs_def by (auto intro!: exI [of _ r] exI [of _ "[]"])

lemma runs_returnE [runs_intros]: "Q (Inr x) \<Longrightarrow> runs P cr (returnE x) Q"
  by (rule runs_pure) simp_all

lemma runs_throwE [runs_intros]: "Q (Inl e) \<Longrightarrow> runs P cr (throwE e) Q"
  by (rule runs_pure) simp_all

lemma runs_liftE [runs_intros]: "Q r \<Longrightarrow> runs P cr (liftE r) Q"
  by (rule runs_pure) simp_all

lemma runs_get_cr [runs_intros]: "Q (Inr cr) \<Longrightarrow> runs P cr get_cr Q"
  by (rule runs_pure) (simp_all add: get_cr_def)

lemma runs_put_cr [runs_intros]: "Q (Inr ()) \<Longrightarrow> runs P cr (put_cr cr) Q"
  by (rule runs_pure) (simp_all add: put_cr_def)

lemma runs_tryE:
  assumes m: "runs P cr m R" and f: "\<And>r. R r \<Longrightarrow> runs P cr (f r) Q"
  shows "runs P cr (tryE m f) Q"
  unfolding runs_def
proof (intro allI impI)
  fix s :: world assume s: "w_cr s = cr"
  obtain r n1 where 1: "m s = (r, s\<lparr>w_trace := w_trace s @ n1\<rparr>)" "R r" "\<forall>e \<in> set n1. P e"
    using m s unfolding runs_def by blast
  obtain r' n2 where 2: "f r (s\<lparr>w_trace := w_trace s @ n1\<rparr>) = (r', s\<lparr>w_trace := w_trace s @ n1 @ n2\<rparr>)"
    "Q r'" "\<forall>e \<in> set n2. P e"
    using f [OF 1(2)] s unfolding runs_def by (auto dest!: spec [of _ "s\<lparr>w_trace := w_trace s @ n1\<rparr>"])
  show "\<exists>r new. tryE m f s = (r, s\<lparr>w_trace := w_trace s @ new\<rparr>) \<and> Q r \<and> (\<forall>e \<in> set new. P e)"
    using 1 2 by (intro exI [of _ r'] exI [of _ "n1 @ n2"]) (auto simp: tryE_def)
qed

lemma yields_tryE: "yields P cr m x \<Longrightarrow> runs P cr (f (Inr x)) Q \<Longrightarrow> runs P cr (tryE m f) Q"
  by (rule runs_tryE [where R = "\<lambda>r. r = Inr x"]) simp_all

lemma yields_bindE: "yields P cr m x \<Longrightarrow> runs P cr (f x) Q \<Longrightarrow> runs P cr (bindE m f) Q"
  unfolding bindE_tryE by (rule yields_tryE) simp_all

lemma returns_bindE:
  assumes m: "returns P cr m G" and f: "\<And>x. G x \<Longrightarrow> runs P cr (f x) Q"
  shows "runs P cr (bindE m f) Q"
  unfolding bindE_tryE by (rule runs_tryE [OF m]) (auto intro: f)

lemma runs_pure_bindE [runs_intros]:
  "runs P cr (f cr) Q \<Longrightarrow> runs P cr (bindE get_cr f) Q"
  "runs P cr (g ()) Q \<Longrightarrow> runs P cr (bindE (put_cr cr) g) Q"
  by (auto intro: yields_bindE runs_get_cr runs_put_cr)

lemma lifted_bindE: "r = Inr x \<Longrightarrow> runs P cr (f x) Q \<Longrightarrow> runs P cr (bindE (liftE r) f) Q"
  by (auto intro: yields_bindE runs_liftE)

lemma returns_known: "returns P cr m (\<lambda>y. y = x) \<Longrightarrow> yields P cr m x"
  by simp

lemma runs_call: "(\<And>tr. P (ev (answer tr))) \<Longrightarrow> (\<And>tr. Q (res (answer tr))) \<Longrightarrow> runs P cr (call answer ev res) Q"
  unfolding runs_def call_def Let_def by (auto intro!: exI [of _ "[e]" for e])

lemma returns_call:
  "(\<And>tr. P (ev (answer tr))) \<Longrightarrow> (\<And>tr. \<exists>x. answer tr = Inr x \<and> G x) \<Longrightarrow>
    returns P cr (call answer ev of_api) G"
  by (rule runs_call) (auto simp: of_api_def dest: spec, metis map_sum.simps(2) id_apply)

lemma yields_foreachE:
  "(\<And>x. x \<in> set xs \<Longrightarrow> yields P cr (f x) ()) \<Longrightarrow> yields P cr (foreachE f xs) ()"
  by (induction xs) (auto intro!: runs_returnE yields_bindE [of P cr "f x" "()" for x])

lemma runsE:
  assumes "runs P cr m Q" and "w_cr s = cr"
  obtains r new where "m s = (r, s\<lparr>w_trace := w_trace s @ new\<rparr>)" and "Q r" and "\<forall>e \<in> set new. P e"
  using assms unfolding runs_def by blast

lemma runs_answer:
  assumes "runs P cr m (\<lambda>_. True)" and "\<And>s. fst (m s) = Inr x"
  shows "yields P cr m x"
  using assms unfolding runs_def by (metis fst_conv)

subsection \<open>Events of a quiet pass\<close>

text \<open>
  A quiet pass reads, and repeats what is already so: the replicas and the proxies to the
  brokers, the size and the configuration of the cluster, the master's address to the status and
  to the coordinators. It writes no Kubernetes object but the patch of the master's address, asks
  for no other size, creates no cluster, and deletes nothing from a broker but free nodes.
\<close>

fun quiet :: "string \<Rightarrow> undermoon \<Rightarrow> event \<Rightarrow> bool" where
  "quiet v cr (EvHttp rq r) =
    (let master = us_MasterBrokerAddress (um_Status cr); name = um_ClusterName (um_Spec cr) in
     (case rq_body rq of CreateClusterPayload n \<Rightarrow> False | _ \<Rightarrow> True) \<and>
     (rq_method rq = POST \<and> rq_body rq = NoBody \<longrightarrow>
        rq_url rq = scaleNodesUrl v master name (int_of_u32 (um_ChunkNumber (um_Spec cr)))) \<and>
     (rq_method rq = DELETE \<longrightarrow> rq_url rq = apiUrl master v (''clusters/free_nodes/'' @ name)))"
| "quiet v cr (EvPatchMaster cr' a r) = (cr' = cr \<and> a = us_MasterBrokerAddress (um_Status cr))"
| "quiet v cr (EvRedisConfigSet coordinator a r) = (a = us_MasterBrokerAddress (um_Status cr))"
| "quiet v cr (EvCreateConfigMap cm a1) = False"
| "quiet v cr (EvCreateSecret sc a2) = False"
| "quiet v cr (EvCreateService sv a3) = False"
| "quiet v cr (EvCreateStatefulSet ss a4) = False"
| "quiet v cr (EvUpdateConfigMap cm a5) = False"
| "quiet v cr (EvUpdateStatefulSet ss a6) = False"
| "quiet v cr (EvUpdateStatus cr' a7) = False"
| "quiet v cr e = True"

subsection \<open>What the other systems answer about a settled cluster\<close>

record cluster_view =
  cl_brokerService :: service
  cl_coordinatorService :: service
  cl_storageService :: service
  cl_broker :: statefulSet
  cl_coordinator :: statefulSet
  cl_storage :: statefulSet
  cl_brokerPods :: "endpointAddress list"
  cl_coordinatorPods :: "endpointAddress list"
  cl_storagePods :: "endpointAddress list"
  cl_replicaAddresses :: "string \<Rightarrow> string list option"
  cl_epochs :: "string \<Rightarrow> int option"
  cl_proxies :: "string list"
  cl_info :: clusterInfo

definition brokerAddresses :: "undermoon \<Rightarrow> cluster_view \<Rightarrow> string list" where
  "brokerAddresses cr c = map (\<lambda>endpoint. genBrokerAddressFromName (ea_Hostname endpoint) cr) (cl_brokerPods c)"

definition masterOf :: "undermoon \<Rightarrow> cluster_view \<Rightarrow> string" where
  "masterOf cr c = select_master (cl_replicaAddresses c) (cl_epochs c) (brokerAddresses cr c)"

text \<open>Every object exists; the calls the creation makes before it looks succeed.\<close>

definition objects_exist :: "env \<Rightarrow> undermoon \<Rightarrow> cluster_view \<Rightarrow> bool" where
  "objects_exist \<E> cr c \<longleftrightarrow>
    (\<forall>m. \<exists>m'. env_set_controller_reference \<E> cr m = Inr m' \<and> om_Name m' = om_Name m \<and>
      om_Namespace m' = om_Namespace m) \<and>
    (\<exists>b. env_gzip \<E> ''{}'' = Inr b) \<and> (\<forall>tr. \<exists>p. env_gen_password \<E> tr = Inr p) \<and>
    (\<forall>tr. \<exists>cm. env_get_configmap \<E> tr (MetaConfigMapName (um_Name cr)) (um_Namespace cr) = Inr cm) \<and>
    (\<forall>tr. \<exists>sc. env_get_secret \<E> tr (MetaSecretName (um_Name cr)) (um_Namespace cr) = Inr sc) \<and>
    (\<forall>tr. \<exists>sv. env_get_service \<E> tr (BrokerPublicServiceName (um_Name cr)) (um_Namespace cr) = Inr sv) \<and>
    (\<forall>tr. \<exists>sv. env_get_service \<E> tr (StoragePublicServiceName (um_Name cr)) (um_Namespace cr) = Inr sv) \<and>
    (\<forall>tr. env_get_service \<E> tr (BrokerServiceName (um_Name cr)) (um_Namespace cr) = Inr (cl_brokerService c)) \<and>
    (\<forall>tr. env_get_service \<E> tr (CoordinatorServiceName (um_Name cr)) (um_Namespace cr) = Inr (cl_coordinatorService c)) \<and>
    (\<forall>tr. env_get_service \<E> tr (StorageServiceName (um_Name cr)) (um_Namespace cr) = Inr (cl_storageService c)) \<and>
    (\<forall>tr. env_get_statefulset \<E> tr (BrokerStatefulSetName (um_Name cr)) (um_Namespace cr) = Inr (cl_broker c)) \<and>
    (\<forall>tr. env_get_statefulset \<E> tr (CoordinatorStatefulSetName (um_Name cr)) (um_Namespace cr) = Inr (cl_coordinator c)) \<and>
    (\<forall>tr. env_get_statefulset \<E> tr (StorageStatefulSetName (um_Name cr)) (um_Namespace cr) = Inr (cl_storage c))"

text \<open>
  The specs are those the resource asks for. A resource with a \<open>PodAntiAffinity\<close> is left out,
  since a pass over it changes its copy of the resource.
\<close>

definition specs_current :: "env \<Rightarrow> undermoon \<Rightarrow> cluster_view \<Rightarrow> bool" where
  "specs_current \<E> cr c \<longleftrightarrow>
    (case um_Affinity (um_Spec cr) of None \<Rightarrow> True | Some a \<Rightarrow> af_PodAntiAffinity a = None) \<and>
    brokerStatefulSetChanged \<E> cr (cl_broker c) = Inr False \<and>
    coordinatorStatefulSetChanged \<E> cr (cl_coordinator c) = Inr False \<and>
    storageStatefulSetChanged \<E> cr (cl_storage c) = Inr False \<and>
    ss_Replicas (ss_Spec (cl_storage c)) = storageReplicas cr"

definition endpoints_are :: "env \<Rightarrow> service \<Rightarrow> endpointAddress list \<Rightarrow> bool" where
  "endpoints_are \<E> sv eps \<longleftrightarrow> (\<forall>tr. \<exists>subsets.
    env_get_endpoints \<E> tr (om_Name (sv_Meta sv)) (om_Namespace (sv_Meta sv)) = Inr subsets \<and> concat subsets = eps)"

definition pods_ready :: "env \<Rightarrow> undermoon \<Rightarrow> cluster_view \<Rightarrow> bool" where
  "pods_ready \<E> cr c \<longleftrightarrow>
    endpoints_are \<E> (cl_brokerService c) (cl_brokerPods c) \<and>
    endpoints_are \<E> (cl_coordinatorService c) (cl_coordinatorPods c) \<and>
    endpoints_are \<E> (cl_storageService c) (cl_storagePods c) \<and>
    st_ReadyReplicas (ss_Status (cl_broker c)) = brokerNum \<and>
    int (length (cl_brokerPods c)) \<ge> int_of_i32 brokerNum \<and>
    int_of_i32 (st_ReadyReplicas (ss_Status (cl_coordinator c))) \<ge> int_of_i32 coordinatorNum \<and>
    int (length (cl_coordinatorPods c)) \<ge> int_of_i32 coordinatorNum \<and>
    st_CurrentReplicas (ss_Status (cl_storage c)) = storageReplicas cr \<and>
    st_Replicas (ss_Status (cl_storage c)) = storageReplicas cr \<and>
    int (length (cl_storagePods c)) \<ge> int_of_i32 (storageReplicas cr)"

text \<open>A request that is always answered, with an answer that is read as \<open>x\<close>.\<close>

definition answers :: "env \<Rightarrow> http_request \<Rightarrow> (http_response \<Rightarrow> goerror + 'a) \<Rightarrow> 'a \<Rightarrow> bool" where
  "answers \<E> rq decode x \<longleftrightarrow> (\<forall>tr. \<exists>res. env_http \<E> tr rq = Inr res \<and> decode res = Inr x)"

text \<open>
  The brokers agree on the master, which the status records; the master knows no proxy that the
  resource does not ask for, and the cluster, which has the size asked for and is not migrating;
  writes of what is already so are accepted.
\<close>

definition metadata_current :: "env \<Rightarrow> string \<Rightarrow> undermoon \<Rightarrow> cluster_view \<Rightarrow> bool" where
  "metadata_current \<E> v cr c \<longleftrightarrow>
    (let master = masterOf cr c; name = um_ClusterName (um_Spec cr);
         chunks = int_of_u32 (um_ChunkNumber (um_Spec cr)) in
     steady_brokers \<E> v (cl_replicaAddresses c) (cl_epochs c) \<and>
     us_MasterBrokerAddress (um_Status cr) = master \<and> (\<forall>tr. env_patch_master \<E> tr cr master = Inr cr) \<and>
     (\<forall>tr a. env_redis_config_set \<E> tr a master = None) \<and>
     (\<forall>a rs. answers \<E> (request PUT (apiUrl a v ''config'') (BrokerConfigPayload rs)) decode_setBrokerReplicas ()) \<and>
     (\<forall>p. answers \<E> (request POST (apiUrl master v ''proxies/meta'') (ServerProxyPayload p))
        decode_registerServerProxy ()) \<and>
     answers \<E> (request GET (apiUrl master v ''proxies/addresses'') NoBody) decode_getServerProxies (cl_proxies c) \<and>
     set (cl_proxies c) \<subseteq> set (genStorageStatefulSetAddrs cr) \<and>
     answers \<E> (request GET (apiUrl master v ''clusters/names'') NoBody) (decode_clusterExists name) True \<and>
     answers \<E> (request PATCH (apiUrl master v (''clusters/config/'' @ name))
         (ClusterConfigPayload (show_nat (unat (um_MigrationScanInterval (um_Spec cr))))
           (show_nat (unat (um_MigrationScanCount (um_Spec cr)))))) decode_changeClusterConfig () \<and>
     answers \<E> (request POST (scaleNodesUrl v master name chunks) NoBody) decode_scaleNodes () \<and>
     answers \<E> (request DELETE (apiUrl master v (''clusters/free_nodes/'' @ name)) NoBody) decode_removeFreeNodes () \<and>
     answers \<E> (request GET (apiUrl master v (''clusters/info/'' @ name)) NoBody) decode_getClusterInfo (cl_info c) \<and>
     \<not> ci_IsMigrating (cl_info c) \<and> ci_NodeNumberWithSlots (cl_info c) = chunks * chunkNodeNumber)"

definition settled :: "env \<Rightarrow> string \<Rightarrow> undermoon \<Rightarrow> cluster_view \<Rightarrow> bool" where
  "settled \<E> v cr c \<longleftrightarrow>
    (\<forall>tr. env_get_cr \<E> tr (um_Name cr) (um_Namespace cr) = Inr cr) \<and>
    objects_exist \<E> cr c \<and> specs_current \<E> cr c \<and> pods_ready \<E> cr c \<and> metadata_current \<E> v cr c"


subsection \<open>The parts of a quiet pass\<close>

lemma answered_simps [simp]: "of_api (Inr x) = Inr x" "of_text (Inr x) = Inr x"
  by (simp_all add: of_api_def of_text_def)

lemma yields_send [runs_intros]:
  assumes "answers \<E> rq decode x" and "\<And>r. P (EvHttp rq r)"
  shows "yields P cr (send \<E> rq decode) x"
  unfolding send_def bindE_tryE http_call_def
proof (rule runs_tryE [where R = "\<lambda>r. \<exists>res. r = Inr res \<and> decode res = Inr x"], rule runs_call)
  fix tr
  obtain res where "env_http \<E> tr rq = Inr res" "decode res = Inr x"
    using assms(1) unfolding answers_def by blast
  then show "\<exists>res. of_text (env_http \<E> tr rq) = Inr res \<and> decode res = Inr x" by simp
qed (auto intro!: runs_liftE assms(2))

lemma runs_send: "(\<And>r. P (EvHttp rq r)) \<Longrightarrow> runs P cr (send \<E> rq decode) (\<lambda>_. True)"
  unfolding send_def bindE_tryE http_call_def
  by (rule runs_tryE [where R = "\<lambda>_. True"], rule runs_call)
    (auto split: sum.splits intro!: runs_liftE runs_throwE)

lemma yields_getEndpoints [runs_intros]:
  assumes "endpoints_are \<E> sv eps" and "\<And>n ns r. P (EvGetEndpoints n ns r)"
  shows "yields P cr (getEndpoints \<E> (om_Name (sv_Meta sv)) (om_Namespace (sv_Meta sv))) eps"
  unfolding getEndpoints_def k8s_get_endpoints_def
proof (rule runs_tryE [where R = "\<lambda>r. \<exists>x. r = Inr x \<and> concat x = eps"], rule runs_call)
  fix tr
  obtain x where "env_get_endpoints \<E> tr (om_Name (sv_Meta sv)) (om_Namespace (sv_Meta sv)) = Inr x" "concat x = eps"
    using assms(1) unfolding endpoints_are_def by blast
  then show "\<exists>x. of_api (env_get_endpoints \<E> tr (om_Name (sv_Meta sv)) (om_Namespace (sv_Meta sv))) = Inr x \<and>
      concat x = eps" by simp
qed (auto intro!: runs_returnE assms(2))

lemma guarded_call:
  "returns P cr m G \<Longrightarrow> returns P cr (createGuardLoop (Suc n) err m) G"
  by (auto intro!: runs_tryE [of P cr m] runs_returnE)

lemma getOrCreate_found: "returns P cr get G \<Longrightarrow> returns P cr (getOrCreate get create) G"
  unfolding getOrCreate_def by (auto elim!: runs_tryE intro!: runs_returnE)

lemma runs_setOwner:
  assumes "objects_exist \<E> cr c"
    and "\<And>m'. om_Name m' = om_Name m \<Longrightarrow> om_Namespace m' = om_Namespace m \<Longrightarrow> runs P cr (f m') Q"
  shows "runs P cr (bindE (setOwner \<E> cr m) f) Q"
proof -
  obtain m' where m': "env_set_controller_reference \<E> cr m = Inr m'"
    "om_Name m' = om_Name m" "om_Namespace m' = om_Namespace m"
    using assms(1) unfolding objects_exist_def by blast
  show ?thesis
    unfolding setOwner_def by (rule yields_bindE [of _ _ _ m']) (auto simp: m' intro!: runs_liftE assms(2))
qed

lemma returns_service:
  assumes "objects_exist \<E> cr c"
    and "\<And>tr. \<exists>sv. env_get_service \<E> tr (om_Name (sv_Meta sv0)) (om_Namespace (sv_Meta sv0)) = Inr sv \<and> G sv"
    and "\<And>n ns r. P (EvGetService n ns r)"
  shows "returns P cr (getOrCreateService \<E> cr sv0) G"
  unfolding getOrCreateService_def Let_def k8s_get_service_def
  by (rule runs_setOwner [OF assms(1)], rule getOrCreate_found, rule returns_call) (simp_all add: assms(2,3))

lemma returns_statefulset:
  assumes "objects_exist \<E> cr c" and "snd (create cr) = cr"
    and "\<And>tr. env_get_statefulset \<E> tr (om_Name (ss_Meta (fst (create cr)))) (om_Namespace (ss_Meta (fst (create cr)))) = Inr ss"
    and "\<And>n ns r. P (EvGetStatefulSet n ns r)"
  shows "returns P cr (ensureStatefulSet \<E> create) (\<lambda>y. y = ss)"
proof -
  obtain new where new: "create cr = (new, cr)" using assms(2) by (cases "create cr") simp
  show ?thesis
    unfolding ensureStatefulSet_def getOrCreateStatefulSet_def Let_def k8s_get_statefulset_def
    by (rule yields_bindE [OF runs_get_cr], simp, simp only: new prod.case, rule yields_bindE [OF runs_put_cr], simp,
        rule runs_setOwner [OF assms(1)], rule getOrCreate_found, rule returns_call)
      (use assms(3,4) new in simp_all)
qed

lemmas guard_defs = createServiceGuard_def createStatefulSetGuard_def createConfigMapGuard_def
  createSecretGuard_def numeral_3_eq_3

lemma guards_return [runs_intros]:
  "returns P cr m1 G1 \<Longrightarrow> returns P cr (createServiceGuard m1) G1"
  "returns P cr m2 G2 \<Longrightarrow> returns P cr (createStatefulSetGuard m2) G2"
  "returns P cr m3 G3 \<Longrightarrow> returns P cr (createConfigMapGuard m3) G3"
  "returns P cr m4 G4 \<Longrightarrow> returns P cr (createSecretGuard m4) G4"
  unfolding guard_defs by (simp_all only: guarded_call)

lemma create_unchanged:
  assumes "specs_current \<E> cr c"
  shows "snd (createBrokerStatefulSet \<E> cr) = cr" "snd (createCoordinatorStatefulSet cr) = cr"
    "snd (createStorageStatefulSet cr) = cr"
proof -
  have "snd (addAntiAffinity (um_Affinity (um_Spec cr)) ls ns key) = um_Affinity (um_Spec cr)" for ls ns key
    using assms unfolding specs_current_def by (auto simp: addAntiAffinity_def Let_def split: option.splits)
  then show "snd (createBrokerStatefulSet \<E> cr) = cr" "snd (createCoordinatorStatefulSet cr) = cr"
    "snd (createStorageStatefulSet cr) = cr"
    by (simp_all add: createBrokerStatefulSet_def createCoordinatorStatefulSet_def
        createStorageStatefulSet_def Let_def case_prod_beta)
qed

lemma quiet_createMeta:
  assumes "objects_exist \<E> cr c"
  shows "yields (quiet v cr) cr (createMeta \<E>) ()"
proof -
  obtain b where b: "env_gzip \<E> ''{}'' = Inr b" using assms unfolding objects_exist_def by blast
  have 1: "returns (quiet v cr) cr (getOrCreateConfigMap \<E>) (\<lambda>_. True)"
    unfolding getOrCreateConfigMap_def k8s_get_configmap_def Let_def
    by (rule lifted_bindE [of _ "b64_encode b"], simp add: compressString_def b,
        rule runs_pure_bindE, rule runs_setOwner [OF assms], rule getOrCreate_found, rule returns_call)
      (use assms in \<open>simp_all add: createMetaConfigMap_def Let_def objects_exist_def\<close>)
  have 2: "returns (quiet v cr) cr (getOrCreateMetaSecret \<E>) (\<lambda>_. True)"
    unfolding getOrCreateMetaSecret_def genBrokerPassword_def gen_password_def k8s_get_secret_def Let_def
  proof (rule returns_bindE [where G = "\<lambda>_. True"], rule runs_call)
    fix tr
    show "\<exists>x. of_text (env_gen_password \<E> tr) = Inr x \<and> True"
      using assms unfolding objects_exist_def by (metis answered_simps(2))
  qed (rule runs_pure_bindE runs_setOwner [OF assms] getOrCreate_found returns_call
      | use assms in \<open>simp add: createMetaSecret_def Let_def objects_exist_def\<close>)+
  show ?thesis
    unfolding createMeta_def
    by (rule returns_bindE [OF guards_return(3) [OF 1]] returns_bindE [OF guards_return(4) [OF 2]])+
      (simp add: runs_returnE)
qed

lemma quiet_createBroker:
  assumes "objects_exist \<E> cr c" and "specs_current \<E> cr c"
  shows "yields (quiet v cr) cr (createBroker \<E>) (cl_broker c, cl_brokerService c)"
proof -
  have 1: "returns (quiet v cr) cr (getOrCreateBrokerService \<E> False) (\<lambda>y. y = cl_brokerService c)"
    unfolding getOrCreateBrokerService_def
    by (rule runs_pure_bindE, rule returns_service [OF assms(1)])
      (use assms(1) in \<open>simp_all add: createBrokerService_def Let_def objects_exist_def\<close>)
  have 2: "returns (quiet v cr) cr (getOrCreateBrokerService \<E> True) (\<lambda>_. True)"
    unfolding getOrCreateBrokerService_def
    by (rule runs_pure_bindE, rule returns_service [OF assms(1)])
      (use assms(1) in \<open>simp_all add: createBrokerPublicService_def Let_def objects_exist_def\<close>)
  have 3: "returns (quiet v cr) cr (getOrCreateBrokerStatefulSet \<E>) (\<lambda>y. y = cl_broker c)"
    unfolding getOrCreateBrokerStatefulSet_def
    by (rule returns_statefulset [OF assms(1), where create = "createBrokerStatefulSet \<E>"],
        rule create_unchanged [OF assms(2)])
      (use assms(1) in \<open>simp_all add: createBrokerStatefulSet_def case_prod_beta Let_def objects_exist_def\<close>)
  show ?thesis
    unfolding createBroker_def
    by (rule returns_bindE [OF guards_return(1) [OF 1]] returns_bindE [OF guards_return(1) [OF 2]]
        returns_bindE [OF guards_return(2) [OF 3]])+ (simp add: runs_returnE)
qed

lemma quiet_createCoordinator:
  assumes "objects_exist \<E> cr c" and "specs_current \<E> cr c"
  shows "yields (quiet v cr) cr (createCoordinator \<E>) (cl_coordinator c, cl_coordinatorService c)"
proof -
  have 1: "returns (quiet v cr) cr (getOrCreateCoordinatorService \<E>) (\<lambda>y. y = cl_coordinatorService c)"
    unfolding getOrCreateCoordinatorService_def
    by (rule runs_pure_bindE, rule returns_service [OF assms(1)])
      (use assms(1) in \<open>simp_all add: createCoordinatorService_def Let_def objects_exist_def\<close>)
  have 2: "returns (quiet v cr) cr (getOrCreateCoordinatorStatefulSet \<E>) (\<lambda>y. y = cl_coordinator c)"
    unfolding getOrCreateCoordinatorStatefulSet_def
    by (rule returns_statefulset [OF assms(1), where create = createCoordinatorStatefulSet],
        rule create_unchanged [OF assms(2)])
      (use assms(1) in \<open>simp_all add: createCoordinatorStatefulSet_def case_prod_beta Let_def objects_exist_def\<close>)
  show ?thesis
    unfolding createCoordinator_def
    by (rule returns_bindE [OF guards_return(1) [OF 1]] returns_bindE [OF guards_return(2) [OF 2]])+
      (simp add: runs_returnE)
qed

lemma quiet_createStorage:
  assumes "objects_exist \<E> cr c" and "specs_current \<E> cr c"
  shows "yields (quiet v cr) cr (createStorage \<E>) (cl_storage c, cl_storageService c)"
proof -
  have 1: "returns (quiet v cr) cr (getOrCreateStorageService \<E> createStoragePublicService) (\<lambda>_. True)"
    unfolding getOrCreateStorageService_def
    by (rule runs_pure_bindE, rule returns_service [OF assms(1)])
      (use assms(1) in \<open>simp_all add: createStoragePublicService_def Let_def objects_exist_def\<close>)
  have 2: "returns (quiet v cr) cr (getOrCreateStorageService \<E> createStorageService) (\<lambda>y. y = cl_storageService c)"
    unfolding getOrCreateStorageService_def
    by (rule runs_pure_bindE, rule returns_service [OF assms(1)])
      (use assms(1) in \<open>simp_all add: createStorageService_def Let_def objects_exist_def\<close>)
  have 3: "returns (quiet v cr) cr (getOrCreateStorageStatefulSet \<E>) (\<lambda>y. y = cl_storage c)"
    unfolding getOrCreateStorageStatefulSet_def
    by (rule returns_statefulset [OF assms(1), where create = createStorageStatefulSet],
        rule create_unchanged [OF assms(2)])
      (use assms(1) in \<open>simp_all add: createStorageStatefulSet_def case_prod_beta Let_def objects_exist_def\<close>)
  have size: "ss_Replicas (ss_Spec (cl_storage c)) = um_ChunkNumber (um_Spec cr) * 2"
    using assms(2) by (simp add: specs_current_def storageReplicas_def int32_shards)
  show ?thesis
    unfolding createStorage_def
    by (rule returns_bindE [OF guards_return(1) [OF 1]] returns_bindE [OF guards_return(1) [OF 2]]
        returns_bindE [OF guards_return(2) [OF 3]] runs_pure_bindE)+ (simp add: runs_returnE size)
qed

definition resources :: "cluster_view \<Rightarrow> umResource" where
  "resources c = \<lparr>ur_brokerStatefulSet = cl_broker c, ur_coordinatorStatefulSet = cl_coordinator c,
     ur_storageStatefulSet = cl_storage c, ur_brokerService = cl_brokerService c,
     ur_coordinatorService = cl_coordinatorService c, ur_storageService = cl_storageService c\<rparr>"

lemma resources_simps [simp]:
  "ur_brokerStatefulSet (resources c) = cl_broker c" "ur_brokerService (resources c) = cl_brokerService c"
  "ur_coordinatorStatefulSet (resources c) = cl_coordinator c"
  "ur_coordinatorService (resources c) = cl_coordinatorService c"
  "ur_storageStatefulSet (resources c) = cl_storage c" "ur_storageService (resources c) = cl_storageService c"
  "resources c\<lparr>ur_storageStatefulSet := cl_storage c\<rparr> = resources c"
  by (simp_all add: resources_def)

lemma quiet_createResources:
  assumes "objects_exist \<E> cr c" and "specs_current \<E> cr c"
  shows "yields (quiet v cr) cr (createResources \<E>) (resources c)"
  unfolding createResources_def
  by (rule yields_bindE [OF quiet_createMeta [OF assms(1)]] yields_bindE [OF quiet_createBroker [OF assms]]
      yields_bindE [OF quiet_createCoordinator [OF assms]] yields_bindE [OF quiet_createStorage [OF assms]]
    | simp only: prod.case)+
    (simp add: runs_returnE resources_def)

lemma quiet_endpointsNum:
  "endpoints_are \<E> sv eps \<Longrightarrow> yields (quiet v cr) cr (getServiceEndpointsNum \<E> sv) (int (length eps))"
  unfolding getServiceEndpointsNum_def
  by (rule yields_bindE [OF yields_getEndpoints], assumption, simp, rule runs_returnE) simp

lemma brokers_enough: "int_of_i32 (brokerNum - 1) \<le> int_of_i32 brokerNum"
  by (simp add: int_of_i32_def brokerNum_def)

lemma quiet_ready:
  assumes "pods_ready \<E> cr c"
  shows "yields (quiet v cr) cr (brokerReady \<E> (cl_broker c) (cl_brokerService c)) True"
    and "yields (quiet v cr) cr (brokerAllReady \<E> (cl_broker c) (cl_brokerService c)) True"
    and "yields (quiet v cr) cr (coordinatorReady \<E> (cl_coordinator c) (cl_coordinatorService c)) True"
    and "yields (quiet v cr) cr (coordiantorAllReady \<E> (cl_coordinator c) (cl_coordinatorService c)) True"
    and "yields (quiet v cr) cr (storageAllReady \<E> (cl_storageService c)) True"
proof -
  have eps: "endpoints_are \<E> (cl_brokerService c) (cl_brokerPods c)"
    "endpoints_are \<E> (cl_coordinatorService c) (cl_coordinatorPods c)"
    "endpoints_are \<E> (cl_storageService c) (cl_storagePods c)"
    using assms by (simp_all add: pods_ready_def)
  show "yields (quiet v cr) cr (brokerReady \<E> (cl_broker c) (cl_brokerService c)) True"
    unfolding brokerReady_def
    by (rule yields_bindE [OF quiet_endpointsNum [OF eps(1)]], rule runs_returnE)
      (use assms brokers_enough in \<open>simp add: pods_ready_def\<close>)
  show "yields (quiet v cr) cr (brokerAllReady \<E> (cl_broker c) (cl_brokerService c)) True"
    unfolding brokerAllReady_def
    by (rule yields_bindE [OF quiet_endpointsNum [OF eps(1)]], rule runs_returnE)
      (use assms in \<open>simp add: pods_ready_def\<close>)
  show "yields (quiet v cr) cr (coordinatorReady \<E> (cl_coordinator c) (cl_coordinatorService c)) True"
    unfolding coordinatorReady_def
    by (rule yields_bindE [OF quiet_endpointsNum [OF eps(2)]], rule runs_returnE)
      (use assms in \<open>simp add: pods_ready_def int_of_i32_def coordinatorNum_def\<close>)
  show "yields (quiet v cr) cr (coordiantorAllReady \<E> (cl_coordinator c) (cl_coordinatorService c)) True"
    unfolding coordiantorAllReady_def
    by (rule yields_bindE [OF quiet_endpointsNum [OF eps(2)]], rule runs_returnE)
      (use assms in \<open>simp add: pods_ready_def\<close>)
  show "yields (quiet v cr) cr (storageAllReady \<E> (cl_storageService c)) True"
    unfolding storageAllReady_def
    by (rule yields_bindE [OF quiet_endpointsNum [OF eps(3)]], rule runs_pure_bindE, rule runs_returnE)
      (use assms in \<open>simp add: pods_ready_def\<close>)
qed

lemma quiet_stable:
  assumes "pods_ready \<E> cr c" and "specs_current \<E> cr c"
  shows "yields (quiet v cr) cr (storageAllReadyAndStable \<E> (cl_storageService c) (cl_storage c)) True"
  unfolding storageAllReadyAndStable_def
  by (rule yields_bindE [OF quiet_ready(5) [OF assms(1)]])
    (use assms in \<open>simp add: pods_ready_def specs_current_def Let_def runs_returnE\<close>)

subsection \<open>The master and the metadata\<close>

declare quiet.simps(1) [simp del]

lemma quiet_requests [simp]:
  "quiet v cr (EvHttp (request GET url NoBody) r)"
  "quiet v cr (EvHttp (request PUT url (BrokerConfigPayload rs)) r)"
  "quiet v cr (EvHttp (request POST url (ServerProxyPayload p)) r)"
  "quiet v cr (EvHttp (request PATCH url (ClusterConfigPayload i n)) r)"
  by (simp_all add: request_def Let_def quiet.simps(1))

lemma runs_collectMasters: "runs (quiet v cr) cr (collectMasters \<E> w as acc) (\<lambda>_. True)"
  by (induction as arbitrary: acc)
    (auto simp: bc_getReplicaAddresses_def split: sum.splits
      intro!: runs_returnE runs_tryE [OF runs_send])

lemma runs_scanEpochs: "runs (quiet v cr) cr (scanEpochs \<E> w as n b) (\<lambda>_. True)"
  by (induction as arbitrary: n b)
    (auto simp: bc_getEpoch_def split: sum.splits intro!: runs_returnE runs_tryE [OF runs_send])

lemma runs_getCurrentMaster: "runs (quiet v cr) cr (getCurrentMaster \<E> w as) (\<lambda>_. True)"
  unfolding getCurrentMaster_def bindE_tryE
  by (auto intro!: runs_throwE runs_returnE runs_tryE [OF runs_collectMasters] runs_scanEpochs split: sum.splits)

lemma genBrokerAddress_not_Nil: "genBrokerAddressFromName n cr \<noteq> []"
  by (simp add: genBrokerAddressFromName_def Let_def)

lemma quiet_reconcileMaster:
  assumes "pods_ready \<E> cr c" and "metadata_current \<E> v cr c"
  shows "yields (quiet v cr) cr (reconcileMaster \<E> v (cl_brokerService c))
    (masterOf cr c, filter (\<lambda>a. a \<noteq> masterOf cr c) (brokerAddresses cr c))"
proof -
  have eps: "endpoints_are \<E> (cl_brokerService c) (cl_brokerPods c)" using assms(1) by (simp add: pods_ready_def)
  have pods: "cl_brokerPods c \<noteq> []"
    using assms(1) by (auto simp: pods_ready_def int_of_i32_def brokerNum_def)
  have 1: "yields (quiet v cr) cr (getCurrentMaster \<E> v (brokerAddresses cr c)) (masterOf cr c)"
    unfolding masterOf_def
    by (rule runs_answer [OF runs_getCurrentMaster], rule getCurrentMaster_refines)
      (use assms(2) pods genBrokerAddress_not_Nil not_sym [OF genBrokerAddress_not_Nil] in \<open>auto simp: metadata_current_def Let_def brokerAddresses_def\<close>)
  have 2: "yields (quiet v cr) cr (setMasterBrokerStatus \<E> (masterOf cr c)) ()"
    unfolding setMasterBrokerStatus_def k8s_patch_master_def
    by (rule runs_pure_bindE, rule yields_bindE [OF runs_call runs_put_cr])
      (use assms(2) in \<open>auto simp: metadata_current_def Let_def\<close>)
  show ?thesis
    unfolding reconcileMaster_def Let_def
    by (rule yields_bindE [OF yields_getEndpoints [OF eps]], simp, rule runs_pure_bindE,
        fold brokerAddresses_def, rule yields_bindE [OF 1], rule yields_bindE [OF 2], rule runs_returnE) simp
qed

lemma quiet_configSetBroker:
  assumes "pods_ready \<E> cr c" and "metadata_current \<E> v cr c"
  shows "yields (quiet v cr) cr (configSetBroker \<E> (cl_coordinatorService c) (masterOf cr c)) ()"
proof -
  have eps: "endpoints_are \<E> (cl_coordinatorService c) (cl_coordinatorPods c)"
    using assms(1) by (simp add: pods_ready_def)
  have told: "yields (quiet v cr) cr (coordinator_setBrokerAddress \<E> a (masterOf cr c)) ()" for a
    unfolding coordinator_setBrokerAddress_def redis_config_set_def
    by (rule runs_call) (use assms(2) in \<open>simp_all add: metadata_current_def Let_def\<close>)
  have "yields (quiet v cr) cr (configSetBrokerLoop \<E> cr (masterOf cr c) eps None) ()" for eps
  proof (induction eps)
    case Nil
    show ?case by (simp only: configSetBrokerLoop.simps option.case) (rule runs_returnE, rule refl)
  next
    case (Cons ep eps)
    then show ?case by (auto simp: Let_def intro!: yields_tryE [OF told])
  qed
  then show ?thesis
    unfolding configSetBroker_def
    by (intro yields_bindE [OF yields_getEndpoints [OF eps]] runs_pure_bindE) simp_all
qed

lemma quiet_getServerProxies:
  assumes "pods_ready \<E> cr c"
  shows "yields (quiet v cr) cr (getServerProxies \<E> (cl_storageService c)) (map (serverProxyOf cr) (cl_storagePods c))"
proof -
  have eps: "endpoints_are \<E> (cl_storageService c) (cl_storagePods c)" using assms by (simp add: pods_ready_def)
  show ?thesis
    unfolding getServerProxies_def
    by (rule yields_bindE [OF yields_getEndpoints [OF eps]], simp, rule runs_pure_bindE, rule runs_returnE) simp
qed

lemma yields_orLog: "yields P cr m () \<Longrightarrow> yields P cr (orLog m) ()"
  unfolding orLog_def by (rule yields_tryE) (simp_all add: runs_returnE)

lemma quiet_registry:
  assumes "metadata_current \<E> v cr c"
  shows "yields (quiet v cr) cr (reconcileServerProxyRegistry \<E> v (masterOf cr c) proxies) ()"
proof -
  have 1: "yields (quiet v cr) cr (registerServerProxies \<E> v (masterOf cr c) proxies) ()"
    unfolding registerServerProxies_def bc_registerServerProxy_def
    by (rule yields_foreachE, rule yields_orLog, rule yields_send)
      (use assms in \<open>simp_all add: metadata_current_def Let_def\<close>)
  have 2: "yields (quiet v cr) cr (bc_getServerProxies \<E> v (masterOf cr c)) (cl_proxies c)"
    unfolding bc_getServerProxies_def
    by (rule yields_send) (use assms in \<open>simp_all add: metadata_current_def Let_def\<close>)
  have none: "filter (\<lambda>a. a \<notin> keepSet cr proxies) (cl_proxies c) = []"
    using assms by (auto simp: metadata_current_def Let_def keepSet_def filter_empty_conv)
  show ?thesis
    unfolding reconcileServerProxyRegistry_def deregisterServerProxies_def Let_def
    by (rule yields_bindE [OF 1], rule yields_bindE [OF 2], rule runs_pure_bindE)
      (simp add: none runs_returnE)
qed

lemma quiet_replicas:
  assumes "metadata_current \<E> v cr c"
  shows "yields (quiet v cr) cr (setBrokerReplicas \<E> v (masterOf cr c) replicas) ()"
proof -
  have "yields (quiet v cr) cr (bc_setBrokerReplicas \<E> v a rs) ()" for a rs
    unfolding bc_setBrokerReplicas_def
    by (rule yields_send) (use assms in \<open>simp_all add: metadata_current_def Let_def\<close>)
  then show ?thesis
    unfolding setBrokerReplicas_def by (intro yields_bindE [of _ _ _ "()"] yields_foreachE)
qed

lemma quiet_reconcileMeta:
  assumes "metadata_current \<E> v cr c"
  shows "yields (quiet v cr) cr (reconcileMeta \<E> v (masterOf cr c) replicas proxies True) (cl_info c)"
proof -
  have 1: "yields (quiet v cr) cr (createCluster \<E> v (masterOf cr c)) ()"
    unfolding createCluster_def bc_clusterExists_def
    by (rule runs_pure_bindE, rule yields_bindE [OF yields_send [of _ _ _ True]])
      (use assms in \<open>simp_all add: metadata_current_def Let_def runs_returnE\<close>)
  have 2: "yields (quiet v cr) cr (changeClusterConfig \<E> v (masterOf cr c)) ()"
    unfolding changeClusterConfig_def bc_changeClusterConfig_def
    by (rule runs_pure_bindE, rule yields_tryE [OF yields_send [of _ _ _ "()"]])
      (use assms in \<open>simp_all add: metadata_current_def Let_def runs_returnE\<close>)
  have 3: "yields (quiet v cr) cr (getClusterInfo \<E> v (masterOf cr c)) (cl_info c)"
    unfolding getClusterInfo_def bc_getClusterInfo_def
    by (rule runs_pure_bindE, rule yields_send) (use assms in \<open>simp_all add: metadata_current_def Let_def\<close>)
  show ?thesis
    unfolding reconcileMeta_def
    by (rule yields_bindE [OF quiet_replicas [OF assms]], rule yields_bindE [OF quiet_registry [OF assms]])
      (simp add: yields_bindE [OF 1 yields_bindE [OF 2 3]])
qed

lemma quiet_changeMeta:
  assumes "metadata_current \<E> v cr c"
  shows "yields (quiet v cr) cr (changeMeta \<E> v (masterOf cr c) (cl_info c)) ()"
proof -
  let ?name = "um_ClusterName (um_Spec cr)" and ?n = "int_of_u32 (um_ChunkNumber (um_Spec cr))"
  have master: "us_MasterBrokerAddress (um_Status cr) = masterOf cr c"
    using assms by (simp add: metadata_current_def Let_def)
  have 1: "yields (quiet v cr) cr (bc_scaleNodes \<E> v (masterOf cr c) ?name ?n) ()"
    unfolding bc_scaleNodes_def
    by (rule yields_send)
      (use assms master in \<open>simp_all add: metadata_current_def Let_def quiet.simps(1) request_def\<close>)
  have 2: "yields (quiet v cr) cr (bc_removeFreeNodes \<E> v (masterOf cr c) ?name) ()"
    unfolding bc_removeFreeNodes_def
    by (rule yields_send)
      (use assms master in \<open>simp_all add: metadata_current_def Let_def quiet.simps(1) request_def\<close>)
  have 3: "yields (quiet v cr) cr (removeFreeNodesStep \<E> v (masterOf cr c) ?name False) ()"
    unfolding removeFreeNodesStep_def by (rule yields_tryE [OF 2]) (simp add: runs_returnE)
  have 4: "yields (quiet v cr) cr (changeNodeNumber \<E> v (masterOf cr c)) ()"
    unfolding changeNodeNumber_def Let_def by (rule runs_pure_bindE, rule yields_tryE [OF 1]) (simp add: 3)
  have "\<not> ci_IsMigrating (cl_info c)" using assms by (simp add: metadata_current_def Let_def)
  then show ?thesis
    unfolding changeMeta_def by (simp add: yields_tryE [OF 4] runs_returnE)
qed

lemma quiet_scaleDown:
  assumes "metadata_current \<E> v cr c" and "specs_current \<E> cr c"
  shows "yields (quiet v cr) cr (scaleDownStorageStatefulSet \<E> (cl_storage c) (cl_info c)) (cl_storage c)"
  unfolding scaleDownStorageStatefulSet_def
  by (rule runs_pure_bindE)
    (use assms in \<open>simp add: metadata_current_def specs_current_def Let_def runs_returnE\<close>)

lemma quiet_rolling:
  assumes "pods_ready \<E> cr c" and "specs_current \<E> cr c"
  shows "yields (quiet v cr) cr (triggerRollingUpdate \<E> (resources c)) ()"
proof -
  have need: "yields (quiet v cr) cr (broker_needRollingUpdate \<E> (cl_broker c)) False"
    "yields (quiet v cr) cr (coordinator_needRollingUpdate \<E> (cl_coordinator c)) False"
    "yields (quiet v cr) cr (storage_needRollingUpdate \<E> (cl_storage c)) False"
    unfolding broker_needRollingUpdate_def coordinator_needRollingUpdate_def storage_needRollingUpdate_def
    by (rule runs_pure_bindE, rule runs_liftE, use assms(2) in \<open>simp add: specs_current_def\<close>)+
  have 1: "yields (quiet v cr) cr (rollStorage \<E> (resources c)) ()"
    unfolding rollStorage_def
    by (simp add: yields_bindE [OF need(3)] yields_bindE [OF quiet_stable [OF assms]] runs_returnE)
  have 2: "yields (quiet v cr) cr (rollCoordinator \<E> (resources c)) ()"
    unfolding rollCoordinator_def
    by (simp add: yields_bindE [OF need(2)] yields_bindE [OF quiet_ready(4) [OF assms(1)]] 1)
  show ?thesis
    unfolding triggerRollingUpdate_def
    by (simp add: yields_bindE [OF need(1)] yields_bindE [OF quiet_ready(2) [OF assms(1)]] 2)
qed

lemma yields_orRequeue: "yields P cr m x \<Longrightarrow> runs P cr (f x) Q \<Longrightarrow> runs P cr (orRequeue n m f) Q"
  unfolding orRequeue_def by (rule yields_tryE) simp_all

lemma quiet_reconcileScale:
  assumes "pods_ready \<E> cr c" and "specs_current \<E> cr c" and "metadata_current \<E> v cr c"
  shows "yields (quiet v cr) cr
    (reconcileScale \<E> v (resources c) (masterOf cr c) replicas True (cl_info c)) done_result"
  unfolding reconcileScale_def resources_simps
  by (rule yields_bindE [OF quiet_stable [OF assms(1,2)]])
    (simp add: yields_orRequeue [OF quiet_changeMeta [OF assms(3)]]
      yields_orRequeue [OF quiet_reconcileMeta [OF assms(3)]]
      yields_orRequeue [OF quiet_scaleDown [OF assms(3,2)]]
      yields_orRequeue [OF quiet_rolling [OF assms(1,2)]] runs_returnE)

lemma quiet_reconcileInstance:
  assumes "settled \<E> v cr c"
  shows "yields (quiet v cr) cr (reconcileInstance \<E> v) done_result"
proof -
  have objects: "objects_exist \<E> cr c" and specs: "specs_current \<E> cr c"
    and ready: "pods_ready \<E> cr c" and metadata: "metadata_current \<E> v cr c"
    using assms by (simp_all add: settled_def)
  have both: "yields (quiet v cr) cr (brokerAndCoordinatorReady \<E> (resources c)) True"
    unfolding brokerAndCoordinatorReady_def resources_simps
    using quiet_ready(1,3) [OF ready] by (auto intro!: yields_bindE [of _ _ _ True] runs_returnE)
  have rest: "yields (quiet v cr) cr
      (bindE (configSetBroker \<E> (cl_coordinatorService c) (masterOf cr c)) (\<lambda>_.
       bindE (getServerProxies \<E> (cl_storageService c)) (\<lambda>proxies.
       bindE (storageAllReady \<E> (cl_storageService c)) (\<lambda>storageReady.
       orRequeue 3 (reconcileMeta \<E> v (masterOf cr c) replicas proxies storageReady) (\<lambda>info.
       reconcileScale \<E> v (resources c) (masterOf cr c) replicas storageReady info))))) done_result"
    for replicas
    by (rule yields_bindE [OF quiet_configSetBroker [OF ready metadata]]
        yields_bindE [OF quiet_getServerProxies [OF ready]] yields_bindE [OF quiet_ready(5) [OF ready]]
        yields_orRequeue [OF quiet_reconcileMeta [OF metadata]]
        quiet_reconcileScale [OF ready specs metadata])+
  show ?thesis
    unfolding reconcileInstance_def
    by (rule yields_orRequeue [OF quiet_createResources [OF objects specs]], rule yields_bindE [OF both])
      (simp add: yields_orRequeue [OF quiet_reconcileMaster [OF ready metadata]] rest)
qed

text \<open>
  C6: A settled cluster is a fixed point of the reconciliation: a pass over it, whatever happened
  before, ends without an error and without a requeue, leaves the resource as it is, creates and
  updates no object and no cluster, and removes no proxy.
\<close>

theorem settled_pass_is_quiet:
  assumes "settled \<E> v cr c"
  shows "\<exists>new. Reconcile \<E> v (um_Name cr) (um_Namespace cr) s =
      (Inr done_result, s\<lparr>w_trace := w_trace s @ new, w_cr := cr\<rparr>) \<and>
    (\<forall>e \<in> set new. quiet v cr e)"
proof -
  let ?s = "s\<lparr>w_trace := w_trace s @ [EvGetCR (um_Name cr) (um_Namespace cr) (Inr cr)], w_cr := cr\<rparr>"
  have "env_get_cr \<E> (w_trace s) (um_Name cr) (um_Namespace cr) = Inr cr"
    using assms by (simp add: settled_def)
  then have first: "Reconcile \<E> v (um_Name cr) (um_Namespace cr) s = reconcileInstance \<E> v ?s"
    by (simp add: Reconcile_def tryE_def k8s_get_cr_def call_def bindE_def put_cr_def Let_def)
  obtain r new where run: "reconcileInstance \<E> v ?s = (r, ?s\<lparr>w_trace := w_trace ?s @ new\<rparr>)"
    "r = Inr done_result" "\<forall>e \<in> set new. quiet v cr e"
    by (rule runsE [OF quiet_reconcileInstance [OF assms], of ?s]) simp_all
  show ?thesis
    unfolding first
    by (rule exI [of _ "EvGetCR (um_Name cr) (um_Namespace cr) (Inr cr) # new"]) (simp add: run)
qed

subsection \<open>A settled cluster\<close>

text \<open>
  The sample resource, with the objects a pass creates for it, all pods ready, and brokers of the
  same epoch, so that the first is the master.
\<close>

definition settled_cr :: undermoon where
  "settled_cr = sample_cr\<lparr>um_Status := (um_Status sample_cr)
     \<lparr>us_MasterBrokerAddress := genBrokerAddressFromName ''um-bk-ss-0'' sample_cr\<rparr>\<rparr>"

definition pods_of :: "string \<Rightarrow> nat \<Rightarrow> endpointAddress list" where
  "pods_of name n = map (\<lambda>i. \<lparr>ea_Hostname = name @ ''-'' @ show_nat i, ea_IP = []\<rparr>) [0..<n]"

definition all_ready :: "i32 \<Rightarrow> statefulSetStatus" where
  "all_ready n = \<lparr>st_Replicas = n, st_ReadyReplicas = n, st_CurrentReplicas = n\<rparr>"

definition settled_http :: "http_request \<Rightarrow> http_response" where
  "settled_http rq =
    (if rq_method rq \<noteq> GET then ok_response NoBody
     else (ok_response
       (let has = (\<lambda>path. rq_url rq = apiUrl (us_MasterBrokerAddress (um_Status settled_cr)) ''v3'' path) in
        if has ''proxies/addresses'' then QueryServerProxyResponse (genStorageStatefulSetAddrs settled_cr)
        else if has ''clusters/names'' then QueryClusterNamesPayload [''mycluster'']
        else if has ''clusters/info/mycluster'' then ClusterInfoPayload
          \<lparr>ci_Name = ''mycluster'', ci_NodeNumber = 8, ci_NodeNumberWithSlots = 8, ci_IsMigrating = False\<rparr>
        else BrokerConfigPayload []))\<lparr>rs_body := ''1''\<rparr>)"

definition settled_view :: cluster_view where
  "settled_view = \<lparr>
     cl_brokerService = createBrokerService settled_cr,
     cl_coordinatorService = createCoordinatorService settled_cr,
     cl_storageService = createStorageService settled_cr,
     cl_broker = (fst (createBrokerStatefulSet sample_env settled_cr))\<lparr>ss_Status := all_ready brokerNum\<rparr>,
     cl_coordinator = (fst (createCoordinatorStatefulSet settled_cr))\<lparr>ss_Status := all_ready coordinatorNum\<rparr>,
     cl_storage = (fst (createStorageStatefulSet settled_cr))\<lparr>ss_Status := all_ready 4\<rparr>,
     cl_brokerPods = pods_of ''um-bk-ss'' 2,
     cl_coordinatorPods = pods_of ''um-cd-ss'' 2,
     cl_storagePods = pods_of ''um-stg-ss'' 4,
     cl_replicaAddresses = (\<lambda>a. case decode_getReplicaAddresses
       (settled_http (request GET (apiUrl a ''v3'' ''config'') NoBody)) of Inl e \<Rightarrow> None | Inr as \<Rightarrow> Some as),
     cl_epochs = (\<lambda>a. case decode_getEpoch
       (settled_http (request GET (apiUrl a ''v3'' ''epoch'') NoBody)) of Inl e \<Rightarrow> None | Inr n \<Rightarrow> Some n),
     cl_proxies = genStorageStatefulSetAddrs settled_cr,
     cl_info = \<lparr>ci_Name = ''mycluster'', ci_NodeNumber = 8, ci_NodeNumberWithSlots = 8, ci_IsMigrating = False\<rparr>\<rparr>"

definition settled_env :: env where
  "settled_env = sample_env\<lparr>
     env_get_cr := (\<lambda>tr n ns. Inr settled_cr),
     env_get_configmap := (\<lambda>tr n ns. Inr (createMetaConfigMap settled_cr [])),
     env_get_secret := (\<lambda>tr n ns. Inr (createMetaSecret settled_cr ''secret'')),
     env_get_service := (\<lambda>tr n ns. Inr
       (if n = BrokerServiceName ''um'' then createBrokerService settled_cr
        else if n = BrokerPublicServiceName ''um'' then createBrokerPublicService settled_cr
        else if n = CoordinatorServiceName ''um'' then createCoordinatorService settled_cr
        else if n = StorageServiceName ''um'' then createStorageService settled_cr
        else createStoragePublicService settled_cr)),
     env_get_statefulset := (\<lambda>tr n ns. Inr
       (if n = BrokerStatefulSetName ''um'' then cl_broker settled_view
        else if n = CoordinatorStatefulSetName ''um'' then cl_coordinator settled_view
        else cl_storage settled_view)),
     env_get_endpoints := (\<lambda>tr n ns. Inr
       [if n = BrokerServiceName ''um'' then pods_of ''um-bk-ss'' 2
        else if n = CoordinatorServiceName ''um'' then pods_of ''um-cd-ss'' 2
        else pods_of ''um-stg-ss'' 4]),
     env_patch_master := (\<lambda>tr cr addr. Inr (cr\<lparr>um_Status := (um_Status cr)\<lparr>us_MasterBrokerAddress := addr\<rparr>\<rparr>)),
     env_http := (\<lambda>tr rq. Inr (settled_http rq))\<rparr>"

lemma settled_env_simps [simp]:
  "env_get_cr settled_env tr n ns = Inr settled_cr"
  "env_set_controller_reference settled_env cr m = Inr m"
  "env_gzip settled_env t = Inr t" "env_gen_password settled_env tr = Inr ''secret''"
  "env_http settled_env tr rq = Inr (settled_http rq)"
  "env_redis_config_set settled_env tr a b = None"
  "env_patch_master settled_env tr cr addr = Inr (cr\<lparr>um_Status := (um_Status cr)\<lparr>us_MasterBrokerAddress := addr\<rparr>\<rparr>)"
  "env_quantity_equal settled_env = (=)" "env_operator_namespace settled_env = ''operators''"
  by (simp_all add: settled_env_def sample_env_def)

lemma settled_cr_simps [simp]:
  "um_Name settled_cr = ''um''" "um_Namespace settled_cr = ''default''" "um_Spec settled_cr = sample_spec"
  by (simp_all add: settled_cr_def sample_cr_def new_meta_def)

lemma settled_objects: "objects_exist settled_env settled_cr settled_view"
  unfolding objects_exist_def
  by (intro conjI allI) (simp_all add: settled_env_def sample_env_def settled_view_def BrokerServiceName_def
      BrokerPublicServiceName_def CoordinatorServiceName_def StorageServiceName_def StoragePublicServiceName_def
      BrokerStatefulSetName_def CoordinatorStatefulSetName_def StorageStatefulSetName_def)

lemma settled_spec_laws:
  "quantity_refl settled_env" "wf_resources no_resources" "env_consistent []"
  by (simp_all add: quantity_refl_def sample_wf env_consistent_def)

lemma settled_storage_replicas: "storageReplicas settled_cr = 4"
  by (simp add: storageReplicas_def sample_spec_def int32_of_int_def int_of_u32_def chunkShardNumber_def)

lemma settled_specs: "specs_current settled_env settled_cr settled_view"
proof -
  have b: "createBrokerStatefulSet settled_env = createBrokerStatefulSet sample_env"
    by (rule ext) (simp add: createBrokerStatefulSet_def brokerContainer_def brokerEnv_def metaServiceHost_def
        sample_env_def)
  have no: "um_BrokerResources sample_spec = no_resources" "um_CoordinatorResources sample_spec = no_resources"
    "um_ProxyResources sample_spec = no_resources" "um_RedisResources sample_spec = no_resources"
    "um_BrokerEnvVar sample_spec = []" "um_CoordinatorEnvVar sample_spec = []"
    "um_ProxyEnvVar sample_spec = []" "um_RedisEnvVar sample_spec = []" "um_Affinity sample_spec = None"
    by (simp_all add: sample_spec_def)
  have "ss_Replicas (ss_Spec (cl_storage settled_view)) = storageReplicas settled_cr"
    by (simp add: settled_view_def createStorageStatefulSet_def Let_def case_prod_beta storageReplicas_def)
  then show ?thesis
    unfolding specs_current_def using settled_spec_laws
    by (simp add: no brokerStatefulSetChanged_fresh [where cr = settled_cr]
        coordinatorStatefulSetChanged_fresh [where cr = settled_cr]
        storageStatefulSetChanged_fresh [where cr = settled_cr] b settled_view_def)
qed

lemma settled_pods: "pods_ready settled_env settled_cr settled_view"
  by (simp add: pods_ready_def endpoints_are_def settled_env_def settled_view_def createBrokerService_def
      createCoordinatorService_def createStorageService_def Let_def all_ready_def pods_of_def
      settled_storage_replicas [unfolded settled_view_def] brokerNum_def coordinatorNum_def int_of_i32_def
      BrokerServiceName_def CoordinatorServiceName_def StorageServiceName_def
      createBrokerStatefulSet_def)

lemma apiUrl_inject [simp]: "apiUrl a v p = apiUrl a v q \<longleftrightarrow> p = q"
  by (simp add: apiUrl_def)

abbreviation settled_master :: string where
  "settled_master \<equiv> us_MasterBrokerAddress (um_Status settled_cr)"

lemma settled_steady: "steady_brokers settled_env ''v3'' (cl_replicaAddresses settled_view) (cl_epochs settled_view)"
  by (simp add: steady_brokers_def bc_defs send_run settled_view_def)

lemma settled_epochs: "cl_epochs settled_view a = Some 1"
proof -
  have "decode_getEpoch (settled_http (request GET url NoBody)) = Inr 1" for url
    by (simp add: decode_getEpoch_def settled_http_def ok_response_def request_def parseInt64_def parse_nat_def
        digit_value.simps errorIs_def)
  then show ?thesis by (simp add: settled_view_def)
qed

lemma settled_replicas:
  "a \<in> {genBrokerAddressFromName ''um-bk-ss-0'' settled_cr, genBrokerAddressFromName ''um-bk-ss-1'' settled_cr} \<Longrightarrow>
    cl_replicaAddresses settled_view a = Some []"
  by (auto simp: settled_view_def decode_getReplicaAddresses_def settled_http_def ok_response_def request_def
      apiUrl_def settled_cr_def genBrokerAddressFromName_def genBrokerFQDN_def Let_def errorIs_def sample_cr_def new_meta_def)

lemma settled_masterOf: "masterOf settled_cr settled_view = settled_master"
proof -
  have pods: "brokerAddresses settled_cr settled_view =
      [genBrokerAddressFromName ''um-bk-ss-0'' settled_cr, genBrokerAddressFromName ''um-bk-ss-1'' settled_cr]"
    by (simp add: brokerAddresses_def settled_view_def pods_of_def upt_rec show_nat.simps digit_char_def)
  have "claimed_masters (cl_replicaAddresses settled_view) (brokerAddresses settled_cr settled_view) = []"
    by (simp add: claimed_masters_def pods settled_replicas)
  then show ?thesis
    unfolding masterOf_def select_master_def
    by (simp add: pods settled_epochs) (simp add: settled_cr_def genBrokerAddressFromName_def sample_cr_def new_meta_def)
qed

lemma settled_metadata: "metadata_current settled_env ''v3'' settled_cr settled_view"
proof -
  have ok: "settled_http (request m url body) = ok_response NoBody" if "m \<noteq> GET" for m url body
    using that by (simp add: settled_http_def request_def)
  have writes: "decode_setBrokerReplicas (ok_response NoBody) = Inr ()"
    "decode_registerServerProxy (ok_response NoBody) = Inr ()"
    "decode_changeClusterConfig (ok_response NoBody) = Inr ()" "decode_scaleNodes (ok_response NoBody) = Inr ()"
    "decode_removeFreeNodes (ok_response NoBody) = Inr ()"
    by (simp_all add: ok_response_def decode_setBrokerReplicas_def decode_registerServerProxy_def
        decode_changeClusterConfig_def decode_scaleNodes_def decode_removeFreeNodes_def)
  have reads: "decode_getServerProxies (settled_http (request GET (apiUrl settled_master ''v3'' ''proxies/addresses'') NoBody)) =
      Inr (cl_proxies settled_view)"
    "decode_clusterExists ''mycluster'' (settled_http (request GET (apiUrl settled_master ''v3'' ''clusters/names'') NoBody)) =
      Inr True"
    "decode_getClusterInfo (settled_http (request GET (apiUrl settled_master ''v3'' ''clusters/info/mycluster'') NoBody)) =
      Inr (cl_info settled_view)"
    by (simp_all add: settled_http_def request_def ok_response_def decode_getServerProxies_def decode_clusterExists_def
        decode_getClusterInfo_def settled_view_def)
  have patched: "settled_cr\<lparr>um_Status := um_Status settled_cr\<lparr>us_MasterBrokerAddress := settled_master\<rparr>\<rparr> = settled_cr"
    by (simp add: settled_cr_def)
  have spec: "um_ClusterName sample_spec = ''mycluster''" "um_ChunkNumber sample_spec = 2"
    by (simp_all add: sample_spec_def)
  show ?thesis
    unfolding metadata_current_def Let_def settled_masterOf answers_def
    by (intro conjI settled_steady)
      (simp_all add: ok writes reads patched spec, simp_all add: settled_view_def int_of_u32_def chunkNodeNumber_def)
qed

theorem settled_pass_is_quiet_witness:
  "\<exists>new. Reconcile settled_env ''v3'' ''um'' ''default'' sample_world =
      (Inr done_result, sample_world\<lparr>w_trace := new, w_cr := settled_cr\<rparr>) \<and>
    (\<forall>e \<in> set new. quiet ''v3'' settled_cr e)"
proof -
  have "settled settled_env ''v3'' settled_cr settled_view"
    by (simp add: settled_def settled_objects settled_specs settled_pods settled_metadata)
  from settled_pass_is_quiet [OF this, of sample_world] show ?thesis by (simp add: sample_world_def)
qed

end
