(* ===== verification/Scheduler.thy ===== *)
theory Scheduler
  imports Storage
begin

section \<open>The scheduler plugin (scheduler/pkg/plugin.go)\<close>

text \<open>
  A Kubernetes scheduler runs the filter of the plugin for a pod against each candidate node.
  The filter rejects a node that already runs a storage pod of the same shard, so that a
  master and its replica never share a node. The placement relation at the end is the
  scheduler as far as the plugin can tell: one pod after the other is put on a node the filter
  accepts for the node's current pods.
\<close>

record pod =
  pd_Name :: string
  pd_Namespace :: string
  pd_Labels :: labels

datatype filterStatus = Success | FilterError string | UnschedulableAndUnresolvable

definition labelService :: string where "labelService = ''undermoonService''"

definition labelName :: string where "labelName = ''undermoonName''"

text \<open>\<open>strconv.Atoi(podName[strings.LastIndex(podName, "-")+1:])\<close>\<close>

definition getPodIndex :: "string \<Rightarrow> num_error + int" where
  "getPodIndex podName =
    (case parseInt64 (after_last (CHR ''-'') podName) of
       (index, None) \<Rightarrow> Inr index
     | (index, Some e) \<Rightarrow> Inl e)"

text \<open>Go's integer division truncates towards zero.\<close>

definition shard_of :: "int \<Rightarrow> int" where
  "shard_of i = (if i < 0 then - ((- i) div 2) else i div 2)"

text \<open>The loop over the pods of the node: whether one of them is of the same shard.\<close>

fun filterLoop :: "pod \<Rightarrow> string \<Rightarrow> int \<Rightarrow> pod list \<Rightarrow> filterStatus" where
  "filterLoop p undermoonName podIndex [] = Success"
| "filterLoop p undermoonName podIndex (existing # rest) =
    (if pd_Namespace p \<noteq> pd_Namespace existing then filterLoop p undermoonName podIndex rest
     else if map_of (pd_Labels existing) labelName \<noteq> Some undermoonName
     then filterLoop p undermoonName podIndex rest
     else if map_of (pd_Labels existing) labelService \<noteq> Some undermoonServiceTypeStorage
     then filterLoop p undermoonName podIndex rest
     else case getPodIndex (pd_Name existing) of
         Inl _ \<Rightarrow> filterLoop p undermoonName podIndex rest
       | Inr index \<Rightarrow>
           if shard_of podIndex = shard_of index then UnschedulableAndUnresolvable
           else filterLoop p undermoonName podIndex rest)"

definition Filter :: "pod \<Rightarrow> pod list \<Rightarrow> filterStatus" where
  "Filter p nodePods =
    (if map_of (pd_Labels p) labelService \<noteq> Some undermoonServiceTypeStorage then Success
     else case getPodIndex (pd_Name p) of
         Inl _ \<Rightarrow> FilterError (''invalid pod name for undermoon Statefulset: '' @ pd_Name p)
       | Inr podIndex \<Rightarrow>
           (case map_of (pd_Labels p) labelName of
              None \<Rightarrow> FilterError (''label 'undermoonName' not found in pod: '' @ pd_Name p)
            | Some undermoonName \<Rightarrow> filterLoop p undermoonName podIndex nodePods))"

text \<open>How the plugin is offered to the scheduler (\<open>register.go\<close>), and the exit code of its process.\<close>

definition PluginName :: string where
  "PluginName = ''undermoon-topology''"

datatype framework_plugin = UndermoonTopology

type_synonym plugin_factory = "string \<Rightarrow> string + framework_plugin"

definition New :: plugin_factory where
  "New plArgs = Inr UndermoonTopology"

fun plugin_Name :: "framework_plugin \<Rightarrow> string" where
  "plugin_Name UndermoonTopology = PluginName"

definition Register :: "((string \<times> plugin_factory) list \<Rightarrow> 'command) \<Rightarrow> 'command" where
  "Register newSchedulerCommand = newSchedulerCommand [(PluginName, New)]"

definition schedulerMain :: "((string \<times> plugin_factory) list \<Rightarrow> string option) \<Rightarrow> nat" where
  "schedulerMain execute = (case Register execute of None \<Rightarrow> 0 | Some e \<Rightarrow> 1)"

subsection \<open>What the filter decides\<close>

text \<open>The cluster and the shard of a storage pod, when it has them.\<close>

definition shard_key :: "pod \<Rightarrow> (string \<times> string \<times> int) option" where
  "shard_key p =
    (if map_of (pd_Labels p) labelService \<noteq> Some undermoonServiceTypeStorage then None
     else case (getPodIndex (pd_Name p), map_of (pd_Labels p) labelName) of
         (Inr i, Some name) \<Rightarrow> Some (pd_Namespace p, name, shard_of i)
       | _ \<Rightarrow> None)"

lemma filterLoop_iff:
  "filterLoop p name i ps = UnschedulableAndUnresolvable \<longleftrightarrow>
     (\<exists>q \<in> set ps. shard_key q = Some (pd_Namespace p, name, shard_of i))"
  "filterLoop p name i ps \<noteq> UnschedulableAndUnresolvable \<Longrightarrow> filterLoop p name i ps = Success"
proof (induction ps)
  case (Cons q ps)
  { case 1 show ?case using Cons by (auto simp: shard_key_def split: sum.splits option.splits) }
  { case 2 then show ?case using Cons by (auto split: sum.splits if_splits) }
qed simp_all

text \<open>A storage pod with an index and a cluster passes exactly the nodes without its shard.\<close>

lemma Filter_storage:
  assumes "shard_key p = Some k"
  shows "Filter p ps = (if \<exists>q \<in> set ps. shard_key q = Some k then UnschedulableAndUnresolvable else Success)"
proof -
  obtain i name where k: "k = (pd_Namespace p, name, shard_of i)" "getPodIndex (pd_Name p) = Inr i"
    "map_of (pd_Labels p) labelName = Some name"
    "map_of (pd_Labels p) labelService = Some undermoonServiceTypeStorage"
    using assms by (auto simp: shard_key_def split: if_splits sum.splits option.splits)
  then have "Filter p ps = filterLoop p name i ps" by (simp add: Filter_def)
  then show ?thesis using k(1) filterLoop_iff [of p name i ps] by auto
qed

text \<open>A storage pod without them is refused everywhere; any other pod passes everywhere.\<close>

lemma Filter_other:
  assumes "shard_key p = None"
  shows "if map_of (pd_Labels p) labelService = Some undermoonServiceTypeStorage
    then \<exists>msg. Filter p ps = FilterError msg else Filter p ps = Success"
  using assms by (auto simp: shard_key_def Filter_def split: sum.splits option.splits if_splits)

subsection \<open>Placing pods one after the other\<close>

type_synonym placement = "string \<Rightarrow> pod list"

inductive place :: "placement \<Rightarrow> placement \<Rightarrow> bool" where
  bind_pod: "Filter p (pl node) = Success \<Longrightarrow> place pl (pl(node := p # pl node))"
| delete_pod: "place pl (pl(node := remove1 p (pl node)))"

inductive_cases place_cases: "place pl pl'"

definition separated :: "placement \<Rightarrow> bool" where
  "separated pl \<longleftrightarrow> (\<forall>node. distinct (map shard_key (filter (\<lambda>p. shard_key p \<noteq> None) (pl node))))"

lemma distinct_filter_remove1:
  "distinct (map f (filter P xs)) \<Longrightarrow> distinct (map f (filter P (remove1 x xs)))"
proof (induction xs)
  case (Cons a xs)
  have "set (remove1 x xs) \<subseteq> set xs" by (rule set_remove1_subset)
  with Cons show ?case by (auto dest: subsetD)
qed simp

lemma place_separated: "place pl pl' \<Longrightarrow> separated pl \<Longrightarrow> separated pl'"
proof (induction rule: place.induct)
  case (bind_pod p pl node)
  show ?case
  proof (cases "shard_key p")
    case None
    then show ?thesis using bind_pod.prems by (auto simp: separated_def)
  next
    case (Some k)
    then have "\<forall>q \<in> set (pl node). shard_key q \<noteq> Some k"
      using bind_pod.hyps Filter_storage [OF Some, of "pl node"] by (auto split: if_splits)
    then show ?thesis using bind_pod.prems Some by (fastforce simp: separated_def)
  qed
next
  case (delete_pod pl node p)
  then show ?case by (simp add: separated_def distinct_filter_remove1)
qed

text \<open>Placements reachable from an empty cluster.\<close>

inductive placed :: "placement \<Rightarrow> bool" where
  none: "placed (\<lambda>_. [])"
| step: "placed pl \<Longrightarrow> place pl pl' \<Longrightarrow> placed pl'"

lemma placed_separated: "placed pl \<Longrightarrow> separated pl"
  by (induction rule: placed.induct) (auto simp: separated_def [of "\<lambda>_. []"] intro: place_separated)

subsection \<open>The pods of the operator\<close>

definition storage_pod :: "undermoon \<Rightarrow> nat \<Rightarrow> pod" where
  "storage_pod cr i =
    \<lparr>pd_Name = storageStatefulSetPodName (um_Name cr) i, pd_Namespace = um_Namespace cr,
     pd_Labels = ss_TemplateLabels (ss_Spec (fst (createStorageStatefulSet cr)))\<rparr>"

lemma getPodIndex_storage:
  "int i < 2 ^ 63 \<Longrightarrow> getPodIndex (storageStatefulSetPodName u i) = Inr (int i)"
  by (simp add: getPodIndex_def storageStatefulSetPodName_def after_last_append parseInt64_show_nat)

lemma shard_key_storage_pod:
  assumes "int i < 2 ^ 63"
  shows "shard_key (storage_pod cr i) = Some (um_Namespace cr, um_Name cr, int i div 2)"
  using getPodIndex_storage [OF assms]
  by (simp add: shard_key_def storage_pod_def createStorageStatefulSet_def serviceLabels_def
      labelService_def labelName_def shard_of_def Let_def split: prod.split)

text \<open>
  C22: Two different pods of one shard of one storage StatefulSet are never on the same node, in any
  placement reached by putting pods one after the other on nodes the filter accepts and deleting
  pods.
\<close>

theorem same_shard_apart:
  assumes "placed pl" and "int i < 2 ^ 63" and "int j < 2 ^ 63" and "i div 2 = j div 2" and "i \<noteq> j"
    and "storage_pod cr i \<in> set (pl node)"
  shows "storage_pod cr j \<notin> set (pl node)"
proof
  assume j: "storage_pod cr j \<in> set (pl node)"
  let ?xs = "filter (\<lambda>p. shard_key p \<noteq> None) (pl node)"
  have "int i div 2 = int j div 2" using assms(4) by (metis of_nat_numeral zdiv_int)
  then have key: "shard_key (storage_pod cr i) = shard_key (storage_pod cr j)"
    using assms(2,3) by (simp add: shard_key_storage_pod)
  have "distinct (map shard_key ?xs)" using placed_separated [OF assms(1)] by (simp add: separated_def)
  moreover have "storage_pod cr i \<in> set ?xs" "storage_pod cr j \<in> set ?xs"
    using assms(2,3,6) j by (simp_all add: shard_key_storage_pod)
  ultimately have "storage_pod cr i = storage_pod cr j"
    using key by (auto simp: distinct_map inj_on_def)
  then show False using assms(5) by (simp add: storage_pod_def)
qed

text \<open>
  For a storage pod with a cluster and an index, the filter rejects a node exactly when the
  node runs a storage pod of the same namespace, cluster and shard, and accepts it otherwise.
\<close>

theorem filter_decides:
  assumes "shard_key p = Some k"
  shows "Filter p ps = (if \<exists>q \<in> set ps. shard_key q = Some k then UnschedulableAndUnresolvable else Success)"
  using assms by (rule Filter_storage)

theorem filter_decides_witness:
  "Filter (storage_pod sample_cr 5) [storage_pod sample_cr 4] = UnschedulableAndUnresolvable \<and>
    Filter (storage_pod sample_cr 5) [storage_pod sample_cr 3] = Success"
  using filter_decides [OF shard_key_storage_pod [of 5 sample_cr], of "[storage_pod sample_cr 4]"]
    filter_decides [OF shard_key_storage_pod [of 5 sample_cr], of "[storage_pod sample_cr 3]"]
    shard_key_storage_pod [of 4 sample_cr] shard_key_storage_pod [of 3 sample_cr]
  by simp

theorem same_shard_apart_witness:
  "storage_pod sample_cr 1 \<notin> set [storage_pod sample_cr 0]"
proof -
  have "Filter (storage_pod sample_cr 0) ((\<lambda>_. []) ''n'') = Success"
    using Filter_storage [OF shard_key_storage_pod [of 0 sample_cr], of "[]"] by simp
  then have "placed ((\<lambda>_. [])(''n'' := [storage_pod sample_cr 0]))"
    using placed.step [OF placed.none place.bind_pod, of "storage_pod sample_cr 0" "''n''"] by simp
  from same_shard_apart [OF this, of 0 1 sample_cr "''n''"] show ?thesis by simp
qed

end
