(* ===== verification/Spec2Isabelle.thy ===== *)
theory Spec2Isabelle
  imports Kv_Detection Kv_Sharing Operator_Process Broker_Access Deep_Copy Scale_Safety Create_Once Steady_State Scheduler
begin

text \<open>
  Verification of the undermoon operator, a Kubernetes operator that runs clusters of the Redis
  proxy undermoon, together with its scheduler plugin and its cluster checker. The
  theories translate the Go packages \<open>controllers\<close>, \<open>scheduler/pkg\<close>, \<open>checker/pkg\<close> and \<open>api/v1alpha1\<close>,
  and the entry points of the three programs.

  \<^bold>\<open>The program.\<close> A user describes a cluster in a custom resource (\<open>api/v1alpha1\<close>). For every change
  of it, and as long as work is left, the reconciler (\<open>undermoon_controller.go\<close>) runs a pass:
  it creates the ConfigMap and the Secret of the metadata and, for the three components brokers,
  coordinators and storage, a Service and a StatefulSet; finds the master broker and tells the
  coordinators; registers the proxies of the storage pods with the master broker and creates
  the cluster there; scales it; shrinks the storage StatefulSet when the slots have moved; and
  rolls out changed specs, one component per pass. A pass that has to wait ends with a requeue.
  The brokers keep their metadata in the operator: \<open>meta_server.go\<close> serves it over HTTP and
  \<open>meta_controller.go\<close> keeps it in the ConfigMap. The scheduler plugin keeps the two pods of a
  shard on different nodes. The checker (\<open>checker/pkg\<close>) writes, deletes and reads random keys of a
  cluster, compares what it reads with what it wrote, and records the MONITOR output of the nodes
  so that it can be dumped when an inconsistency was found. It runs three such checks and one
  monitor per node side by side; the operator runs its HTTP server beside the reconciler.

  \<^bold>\<open>Theories.\<close>
  \<^item> \<open>Prelude\<close>: the state and exception monad, the Go string and number functions the code calls.
  \<^item> \<open>Kube_Types\<close>: the Kubernetes objects and the custom resource, as records
    (\<open>undermoon_types.go\<close>); integers of 32 bits are words.
  \<^item> \<open>World\<close>: what is outside the repository, as a record \<open>env\<close> of answer functions, the calls to
    it and the trace they leave; rules for predicates on traces. \<open>Sample_Env\<close>: one such
    environment, for the witnesses.
  \<^item> \<open>Base64\<close>, \<open>Utils\<close> (\<open>utils.go\<close>), \<open>Meta\<close> (\<open>meta.go\<close>), \<open>Broker\<close> (\<open>broker.go\<close>), \<open>Coordinator\<close>
    (\<open>coordinator.go\<close>), \<open>Storage\<close> (\<open>storage.go\<close>): the objects the operator creates and compares.
  \<^item> \<open>Broker_Client\<close> (\<open>broker_client.go\<close>): requests to a broker and the reading of its answers.
  \<^item> \<open>Rolling\<close>: looking up, creating and updating objects, which the controllers share.
  \<^item> \<open>Broker_Controller\<close>, \<open>Coordinator_Controller\<close>, \<open>Storage_Controller\<close>, \<open>Meta_Controller\<close>,
    \<open>Meta_Server\<close>, \<open>Reconciler\<close>: the files of these names, the coordinator's client included.
  \<^item> \<open>Scale_Safety\<close>, \<open>Pass_Results\<close>: properties of whole passes; \<open>Steady_State\<close>: the passes over a
    cluster in which there is nothing left to do; \<open>Create_Once\<close>: what all passes together create.
  \<^item> \<open>Operator_Process\<close>: the goroutines of the HTTP server, the registration of the reconciler and
    \<open>main.go\<close>; \<open>Broker_Access\<close>: what the Pods of the brokers are given against what the server asks for.
  \<^item> \<open>Deep_Copy\<close> (\<open>zz_generated.deepcopy.go\<close>), over an explicit store; it stands alone.
  \<^item> \<open>Scheduler\<close> (\<open>scheduler/pkg/plugin.go\<close> and the scheduler's \<open>main\<close>).
  \<^item> \<open>Slot\<close> (\<open>checker/pkg/slot.go\<close>), \<open>Slot_Tags\<close> (the hash tags of \<open>checker/pkg/utils.go\<close>),
    \<open>Checker_Client\<close> (\<open>client.go\<close>), \<open>Kv_Checker\<close> (\<open>kv.go\<close> and the rest of \<open>utils.go\<close>), \<open>Ring_Buffer\<close> and
    \<open>Monitor\<close> (\<open>monitor.go\<close>).
  \<^item> \<open>Kv_Store\<close>: the abstract store behind a cluster, and the commands of the client over it;
    \<open>Kv_Loop\<close>: the checker ends; \<open>Kv_Safety\<close>: it raises no false alarm, by a Hoare logic for its
    operations; \<open>Kv_Detection\<close>: it overlooks nothing, and its maps stay well-formed.
  \<^item> \<open>Checker_Service\<close>: \<open>RunKvCheckerService\<close> with its goroutines, and the checker's \<open>main\<close>;
    \<open>Kv_Sharing\<close>: why its checkers do not disturb each other on the cluster they share;
    \<open>Ranked_Runs\<close>: fair schedules under which goroutines come to an end, for this and the HTTP server.

  \<^bold>\<open>State and effects.\<close> An operation that can fail or call out has type \<open>'a op\<close>: from a \<open>world\<close>, the
  trace of calls so far and the custom resource the pass works on, to a Go error or a value and
  the next world. The pointer \<open>cr\<close> the Go functions pass around is \<open>w_cr\<close>; what they change
  through it, the status and the shared affinity, is changed there. Objects the code updates in place are
  returned. A panic is the error \<open>ErrPanic\<close>. Answers may depend on the whole trace, so a
  property proved for all environments covers every interleaving with other writers, stale
  reads and failures of any call. Log output is not modelled, and \<open>ErrMsg\<close> texts are those of
  the code except that the decoding error of base64 omits the position.

  The checker's components have states of their own, extended along the way (\<open>client_state\<close>,
  \<open>kv_state\<close>, \<open>mon_state\<close>): a trace of the commands sent or the events, and the fields of the Go
  structs. Choices, the clock and the order of maps are functions of the number of choices made.

  A program with goroutines is a state that holds where each of them is, and a function \<open>turn\<close> that
  lets a given one go on: in the service of the checker (\<open>serviceTurn\<close>) by a round of its loop, in the
  HTTP server and the process of the operator (\<open>httpTurn\<close>, \<open>operatorTurn\<close>) from one call that may block to the
  next. What one goroutine sees of another, a cancelled context or a closed server, is a field of that state, and
  the properties hold under every schedule; those that something happens in the end
  need a schedule that is fair to the goroutines they name.

  Only the deep copies depend on which slices, maps and pointers are the same, so only \<open>Deep_Copy\<close> has a
  store with addresses; a separate record mirrors the custom resource there. Elsewhere objects are
  values, and the one shared pointer that matters, the affinity, is written back to \<open>w_cr\<close>.

  \<^bold>\<open>Loops and bounds.\<close> The operator's loops run over lists or at most three times (the creation
  guards), a command of the checker is sent at most five times, so these functions are total and
  no fuel is used. The loops that may run forever, drawing hash tags, the loops of the checker
  and of the monitor, are partial functions into an option, where \<open>None\<close> is a run that never ends;
  C33, C34 and C35 say when they end. The goroutines have no bound either: C17 and C27 say that they end. \<open>int\<close> of Go has 64 bits and stays far from its
  bounds, so it is \<open>int\<close> here; conversions to and products at 32 bits wrap as in the code.

  \<^bold>\<open>Locales.\<close> \<open>rolling_component\<close> is the contract between the spec a component creates and its
  comparison, interpreted for the three components; \<open>broker_decoder\<close> and \<open>broker_mutator\<close> state
  what the reconciler needs from the reading of an answer, interpreted for the twelve operations
  of the client; \<open>bounded_log\<close> is interpreted for the ring buffer; \<open>ranked_system\<close> says when goroutines come to
  an end, and is interpreted for the service of the checker and for the HTTP server.

  \<^bold>\<open>Properties.\<close> Scaling: C1 to C5 and C23. A settled cluster is left alone: C6; nothing is created twice: C7.
  Rolling updates: C8, C9, C29. The master broker: C10. The registry of proxies: C13, C20, C36. The external store: C11
  and C12; its server and who may use it: C21, C24; its process: C25 to C27. Passes and errors: C30, C31.
  Deep copies: C28. Objects: C37 to C39. Scheduler plugin: C22, C36. Checker: C14 to C18,
  C32 to C34, C40; its monitor: C19, C35. C24, C26, C29, C35 and C37, and parts of C25 and C34, describe
  behaviour the code shows but hardly intends.

  Further theorems of this kind that no property names: \<open>no_answer_empty_master\<close> (\<open>Broker_Controller\<close>),
  \<open>configSetBrokerLoop_trace\<close> (\<open>Coordinator_Controller\<close>), \<open>unencodable_store_reported_written\<close>
  (\<open>Meta_Controller\<close>); and of what is intended: \<open>lost_creation_race\<close>, \<open>slot_of_tagged_key\<close>,
  \<open>storage_name_roundtrip\<close>, \<open>list_copy_separate\<close>, \<open>resourceListEqual_decides\<close>, \<open>filter_decides\<close>, \<open>no_false_alarm\<close>.

  \<^bold>\<open>Hypotheses about the outside.\<close> Where a property needs more than calls that answer:
  an API server that does not forget objects (\<open>durable\<close>), its optimistic concurrency (\<open>cas_server\<close>), a server that stores the spec or the
  status it accepts (\<open>stores_spec\<close>, \<open>stores_status\<close>, the latter with the precision of the stored
  time), gzip and JSON that read back what they wrote, equality of quantities that is
  reflexive, and gin's documented rule that only \<open>Abort\<close> keeps the pending handlers of a chain
  from running (\<open>gin_laws\<close>). C6 describes a settled cluster by what the other systems answer (\<open>settled\<close>). That
  the broker names its storage in the URL and authenticates with the variables of its Pod is \<open>broker_request\<close>;
  how the kubelet resolves them is the definition \<open>podEnv\<close>. \<open>Shutdown\<close> of net/http fails when its context
  ends while requests are served (\<open>shutdown_law\<close>). The deep copies of library types allocate what they
  return and do not change what was there (\<open>library_laws\<close>).

  For the checker: a cluster whose successful reads return what was stored (\<open>honest\<close>; redirections and
  failures are free), of the checker's own keys when it runs alone; in a service, one cluster that answers all
  three in some order of their commands (\<open>shared_cluster\<close>). Maps are visited in
  some order of their entries (\<open>order_law\<close>), and UUIDs have the usual format and every slot
  comes up among them. C17 asks for a file system that can be written from some attempt on (\<open>disk_works\<close>). Each
  hypothesis has a concrete instance in a witness. The packages errgroup and net/http have no hypothesis of their own:
  the turns follow what their documentation says of \<open>Wait\<close>, the group's context and \<open>ListenAndServe\<close>.

  \<^bold>\<open>Not modelled.\<close> The inside of the libraries: controller-runtime's manager and queue of requests, the framework
  of kube-scheduler, the router of gin, go-redis and resty are reached through what the code passes to
  them and what they answer. Parsing of the command lines is an argument of the mains. What the
  shell scripts in \<open>storage.go\<close> do in a pod, and the Lua scripts of the checker in a Redis node,
  is not modelled: they are texts, the latter with the effect that \<open>Kv_Store\<close> states. Log output and
  the package \<open>groupversion_info.go\<close>, which declares one library value, are left out. A round of a checker
  or of a monitor's reading is one turn; rounds share only the cluster, which \<open>shared_cluster\<close> lets them
  interleave command by command.
\<close>

section \<open>Properties that span components\<close>

text \<open>
  C36: The scheduler plugin and the broker registry read the same index from the name of a pod:
  whenever the plugin accepts the name, the proxy of that pod is registered under that index.
\<close>

theorem scheduler_and_registry_agree:
  assumes "getPodIndex (ea_Hostname ep) = Inr i"
  shows "sp_Index (serverProxyOf cr ep) = i"
  using assms
  by (cases "parseInt64 (after_last (CHR ''-'') (ea_Hostname ep))")
    (auto simp: getPodIndex_def serverProxyOf_def newServerProxyMeta_def Let_def split: option.splits)

theorem scheduler_and_registry_agree_witness:
  "sp_Index (serverProxyOf sample_cr \<lparr>ea_Hostname = storageStatefulSetPodName ''um'' 3, ea_IP = []\<rparr>) = 3"
  using scheduler_and_registry_agree [of "\<lparr>ea_Hostname = storageStatefulSetPodName ''um'' 3, ea_IP = []\<rparr>" 3]
    getPodIndex_storage [of 3 "''um''"] by simp



text \<open>
  C37: When the resource sets a \<open>PodAntiAffinity\<close>, the affinity of the coordinators' StatefulSet,
  created after the brokers' from the same resource object, also repels the coordinators from
  the brokers' pods: the brokers' term has leaked through the shared pointer.
\<close>

theorem broker_affinity_leaks_into_coordinators:
  assumes "um_Affinity (um_Spec cr) = Some aff" and "af_PodAntiAffinity aff = Some paa"
  shows "\<exists>aff' paa'. ps_Affinity (ss_Template (ss_Spec (fst (createCoordinatorStatefulSet
      (snd (createBrokerStatefulSet \<E> cr)))))) = Some aff' \<and> af_PodAntiAffinity aff' = Some paa' \<and>
    pa_Preferred paa' = pa_Preferred paa @
      [antiAffinityTerm (serviceLabels undermoonServiceTypeBroker cr) (um_Namespace cr) brokerTopologyKey,
       antiAffinityTerm (serviceLabels undermoonServiceTypeCoordinator cr) (um_Namespace cr) coordinatorTopologyKey]"
  using assms
  by (simp add: createBrokerStatefulSet_def createCoordinatorStatefulSet_def addAntiAffinity_def
      serviceLabels_def Let_def)

definition affine_cr :: undermoon where
  "affine_cr = sample_cr\<lparr>um_Spec := sample_spec\<lparr>um_Affinity := Some \<lparr>af_NodeAffinity = None,
     af_PodAffinity = None, af_PodAntiAffinity = Some \<lparr>pa_Required = [], pa_Preferred = []\<rparr>\<rparr>\<rparr>\<rparr>"

theorem broker_affinity_leaks_into_coordinators_witness:
  "\<exists>aff' paa'. ps_Affinity (ss_Template (ss_Spec (fst (createCoordinatorStatefulSet
      (snd (createBrokerStatefulSet sample_env affine_cr)))))) = Some aff' \<and>
    af_PodAntiAffinity aff' = Some paa' \<and> length (pa_Preferred paa') = 2"
  using broker_affinity_leaks_into_coordinators [of affine_cr _ _ sample_env] by (fastforce simp: affine_cr_def)

end
